(* ===== verification/Prelude.thy ===== *)
theory Prelude
  imports Main "HOL-Library.Word"
begin

text \<open>
  What every component of the development shares: the machine types of the source, the
  outcome of an operation that may return \<open>Err\<close> or panic, the integer operations of
  Rust's core library that the kernel calls (checked in the way the \<open>dev\<close> profile checks
  them: an overflowing \<open>+\<close>, \<open>-\<close>, \<open>*\<close> or shift panics), little- and big-endian bytes, and the
  generic lemmas on powers of two, masks and lists.
\<close>

unbundle bit_operations_syntax

section \<open>Collections\<close>

named_theorems checked_defs \<open>definitions of the checked integer operations\<close>
named_theorems field_defs \<open>definitions of constants and accessors of bit fields\<close>

section \<open>Machine types and outcomes\<close>

text \<open>
  Registers, descriptors and page-table entries are words. \<open>usize\<close> values used as sizes,
  addresses and indices are naturals below \<open>usize_bound\<close>; each operation on them writes
  out its overflow check. \<open>i64\<close> coordinates are integers with the range check written out.
\<close>

type_synonym u8 = "8 word"
type_synonym u16 = "16 word"
type_synonym u32 = "32 word"
type_synonym u64 = "64 word"
type_synonym usize = nat
type_synonym i64 = int

abbreviation usize_bound :: nat where
  "usize_bound \<equiv> 2 ^ 64"

text \<open>
  \<open>Result<T>\<close> of \<open>result.rs\<close>, with the panics of the code (failed assertions, \<open>unwrap\<close> of an
  error, overflow, index out of range) as a third outcome. A read through a pointer that
  reaches no object, which has no defined behaviour in Rust, is a \<open>Panic\<close> too, so that a
  theorem that excludes \<open>Panic\<close> excludes it.
\<close>

datatype 'a result = Ok 'a | Err string | Panic string

primrec rbind :: "'a result \<Rightarrow> ('a \<Rightarrow> 'b result) \<Rightarrow> 'b result" where
  "rbind (Ok x) f = f x"
| "rbind (Err e) f = Err e"
| "rbind (Panic e) f = Panic e"

primrec is_ok :: "'a result \<Rightarrow> bool" where
  "is_ok (Ok x) = True"
| "is_ok (Err e) = False"
| "is_ok (Panic e) = False"

primrec is_panic :: "'a result \<Rightarrow> bool" where
  "is_panic (Ok x) = False"
| "is_panic (Err e) = False"
| "is_panic (Panic e) = True"

text \<open>\<open>unwrap\<close> and \<open>expect\<close>: an error becomes a panic.\<close>

primrec unwrap :: "'a result \<Rightarrow> 'a result" where
  "unwrap (Ok x) = Ok x"
| "unwrap (Err e) = Panic e"
| "unwrap (Panic e) = Panic e"

primrec ok_or :: "'a option \<Rightarrow> string \<Rightarrow> 'a result" where
  "ok_or None e = Err e"
| "ok_or (Some x) e = Ok x"

lemma rbind_eq_Ok [simp]: "rbind m f = Ok y \<longleftrightarrow> (\<exists>x. m = Ok x \<and> f x = Ok y)"
  by (cases m) auto

lemma rbind_eq_Panic: "rbind m f = Panic e \<longleftrightarrow> m = Panic e \<or> (\<exists>x. m = Ok x \<and> f x = Panic e)"
  by (cases m) auto

lemma rbind_assoc: "rbind (rbind m f) g = rbind m (\<lambda>x. rbind (f x) g)"
  by (cases m) auto

lemma rbind_Ok_right [simp]: "rbind m Ok = m"
  by (cases m) auto

lemma is_ok_iff: "is_ok r \<longleftrightarrow> (\<exists>x. r = Ok x)"
  by (cases r) auto

lemma ok_or_eq_Ok [simp]: "ok_or x e = Ok y \<longleftrightarrow> x = Some y"
  by (cases x) auto

text \<open>
  An operation that changes a state \<open>'s\<close> and may not return gives \<open>None\<close> or its outcome with
  the state it leaves; \<open>sbind\<close> is the sequence of two of them, where \<open>?\<close> or a panic leaves early.
\<close>

definition sbind :: "('a result \<times> 's) option \<Rightarrow> ('a \<Rightarrow> 's \<Rightarrow> ('b result \<times> 's) option) \<Rightarrow> ('b result \<times> 's) option" where
  "sbind m f = Option.bind m (\<lambda>(r, s). case r of Ok x \<Rightarrow> f x s | Err e \<Rightarrow> Some (Err e, s) | Panic e \<Rightarrow> Some (Panic e, s))"

lemma sbind_simps [simp]:
  "sbind None f = None"
  "sbind (Some (Ok x, s)) f = f x s"
  "sbind (Some (Err e, s)) f = Some (Err e, s)"
  "sbind (Some (Panic e, s)) f = Some (Panic e, s)"
  by (simp_all add: sbind_def)

lemma sbind_mono [partial_function_mono]:
  assumes "mono_option B" and "\<And>x s. mono_option (\<lambda>f. C x s f)"
  shows "mono_option (\<lambda>f. sbind (B f) (\<lambda>x s. C x s f))"
  unfolding sbind_def
proof (rule bind_mono [OF assms(1)])
  show "mono_option (\<lambda>f. case p of (r, s) \<Rightarrow> case r of Ok x \<Rightarrow> C x s f | Err e \<Rightarrow> Some (Err e, s) | Panic e \<Rightarrow> Some (Panic e, s))" for p
  proof (cases p)
    case (Pair r s)
    then show ?thesis using assms(2) by (cases r) (simp_all add: option.const_mono)
  qed
qed

lemma sbind_eq_Ok: "sbind m f = Some (Ok y, s') \<longleftrightarrow> (\<exists>x s. m = Some (Ok x, s) \<and> f x s = Some (Ok y, s'))"
proof (cases m)
  case (Some p)
  obtain r t where "p = (r, t)" by (cases p)
  with Some show ?thesis by (cases r) auto
qed simp

section \<open>Integer operations of the core library\<close>

definition add_usize :: "usize \<Rightarrow> usize \<Rightarrow> usize result" where
  [checked_defs]: "add_usize a b = (if a + b < usize_bound then Ok (a + b) else Panic ''add overflow'')"

definition sub_usize :: "usize \<Rightarrow> usize \<Rightarrow> usize result" where
  [checked_defs]: "sub_usize a b = (if b \<le> a then Ok (a - b) else Panic ''subtract overflow'')"

definition mul_usize :: "usize \<Rightarrow> usize \<Rightarrow> usize result" where
  [checked_defs]: "mul_usize a b = (if a * b < usize_bound then Ok (a * b) else Panic ''multiply overflow'')"

definition add_word :: "'a::len word \<Rightarrow> 'a word \<Rightarrow> 'a word result" where
  [checked_defs]: "add_word a b = (if unat a + unat b < 2 ^ LENGTH('a) then Ok (a + b) else Panic ''add overflow'')"

definition sub_word :: "'a::len word \<Rightarrow> 'a word \<Rightarrow> 'a word result" where
  [checked_defs]: "sub_word a b = (if b \<le> a then Ok (a - b) else Panic ''subtract overflow'')"

definition mul_word :: "'a::len word \<Rightarrow> 'a word \<Rightarrow> 'a word result" where
  [checked_defs]: "mul_word a b = (if unat a * unat b < 2 ^ LENGTH('a) then Ok (a * b) else Panic ''multiply overflow'')"

definition shl_word :: "'a::len word \<Rightarrow> nat \<Rightarrow> 'a word result" where
  [checked_defs]: "shl_word a s = (if s < LENGTH('a) then Ok (push_bit s a) else Panic ''shift left overflow'')"

definition shr_word :: "'a::len word \<Rightarrow> nat \<Rightarrow> 'a word result" where
  [checked_defs]: "shr_word a s = (if s < LENGTH('a) then Ok (drop_bit s a) else Panic ''shift right overflow'')"

definition wrapping_sub_usize :: "usize \<Rightarrow> usize \<Rightarrow> usize" where
  "wrapping_sub_usize a b = (a + usize_bound - b) mod usize_bound"

text \<open>The number of significant bits, and \<open>usize::leading_zeros\<close> in terms of it.\<close>

fun bit_length :: "nat \<Rightarrow> nat" where
  "bit_length n = (if n = 0 then 0 else Suc (bit_length (n div 2)))"

declare bit_length.simps [simp del]

definition leading_zeros_usize :: "usize \<Rightarrow> nat" where
  "leading_zeros_usize n = 64 - bit_length n"

definition checked_shl_usize :: "usize \<Rightarrow> nat \<Rightarrow> usize option" where
  "checked_shl_usize n s = (if s < 64 then Some (push_bit s n mod usize_bound) else None)"

text \<open>Bitwise complement of a \<open>usize\<close>.\<close>

definition not_usize :: "usize \<Rightarrow> usize" where
  "not_usize n = usize_bound - 1 - n"

text \<open>Arithmetic on \<open>i64\<close>.\<close>

definition i64_result :: "int \<Rightarrow> i64 result" where
  [checked_defs]: "i64_result x = (if - (2 ^ 63) \<le> x \<and> x < 2 ^ 63 then Ok x else Panic ''arithmetic overflow'')"

definition add_i64 :: "i64 \<Rightarrow> i64 \<Rightarrow> i64 result" where
  "add_i64 a b = i64_result (a + b)"

definition sub_i64 :: "i64 \<Rightarrow> i64 \<Rightarrow> i64 result" where
  "sub_i64 a b = i64_result (a - b)"

definition mul_i64 :: "i64 \<Rightarrow> i64 \<Rightarrow> i64 result" where
  "mul_i64 a b = i64_result (a * b)"

section \<open>Loops\<close>

text \<open>A \<open>for\<close> loop whose body changes a state and may leave early.\<close>

primrec rfold :: "('a \<Rightarrow> 's \<Rightarrow> 's result) \<Rightarrow> 'a list \<Rightarrow> 's \<Rightarrow> 's result" where
  "rfold f [] s = Ok s"
| "rfold f (x # xs) s = rbind (f x s) (rfold f xs)"

lemma rfold_Ok: "(\<And>x s. x \<in> set xs \<Longrightarrow> f x s = Ok (g x s)) \<Longrightarrow> rfold f xs s = Ok (fold g xs s)"
  by (induction xs arbitrary: s) auto

lemma rfold_is_ok: "(\<And>x s. x \<in> set xs \<Longrightarrow> \<exists>s'. f x s = Ok s') \<Longrightarrow> \<exists>s'. rfold f xs s = Ok s'"
  by (induction xs arbitrary: s) (simp, fastforce)

lemma rfold_append: "rfold f (xs @ ys) s = rbind (rfold f xs s) (rfold f ys)"
proof (induction xs arbitrary: s)
  case (Cons x xs)
  then show ?case by (cases "f x s") simp_all
qed simp

text \<open>A loop over operations that report an outcome with their state.\<close>

primrec for_each :: "('a \<Rightarrow> 's \<Rightarrow> (unit result \<times> 's) option) \<Rightarrow> 'a list \<Rightarrow> 's \<Rightarrow> (unit result \<times> 's) option" where
  "for_each f [] s = Some (Ok (), s)"
| "for_each f (x # xs) s = sbind (f x s) (\<lambda>_. for_each f xs)"

lemma for_each_cong: "(\<And>x s. x \<in> set xs \<Longrightarrow> f x s = g x s) \<Longrightarrow> for_each f xs s = for_each g xs s"
proof (induction xs arbitrary: s)
  case (Cons x xs)
  then have "for_each f xs = for_each g xs" by auto
  with Cons.prems [of x s] show ?case by simp
qed simp

lemma for_each_map: "for_each f (map g xs) = for_each (\<lambda>x. f (g x)) xs"
proof (rule ext)
  show "for_each f (map g xs) s = for_each (\<lambda>x. f (g x)) xs s" for s
  proof (induction xs arbitrary: s)
    case (Cons x xs)
    then have "for_each f (map g xs) = for_each (\<lambda>x. f (g x)) xs" by blast
    then show ?case by simp
  qed simp
qed

text \<open>A loop that leaves alone what fails a test runs over the rest.\<close>

lemma for_each_filter:
  assumes "\<And>x s. I s \<Longrightarrow> x \<in> A \<Longrightarrow> f x s = (if P x then g x s else Some (Ok (), s))"
    and "\<And>x s r s'. I s \<Longrightarrow> g x s = Some (r, s') \<Longrightarrow> I s'"
  shows "I s \<Longrightarrow> set xs \<subseteq> A \<Longrightarrow> for_each f xs s = for_each g (filter P xs) s"
proof (induction xs arbitrary: s)
  case (Cons x xs)
  have f: "f x s = (if P x then g x s else Some (Ok (), s))" using assms(1) Cons.prems by simp
  show ?case
  proof (cases "P x")
    case True
    show ?thesis
    proof (cases "g x s")
      case (Some p)
      obtain r s' where p: "p = (r, s')" by (cases p)
      from Cons.IH assms(2) [OF Cons.prems(1)] Cons.prems(2) Some p have "for_each f xs s' = for_each g (filter P xs) s'" by simp
      with True Some p f show ?thesis by (cases r) simp_all
    qed (use True f in simp)
  qed (use Cons f in simp)
qed simp

lemma upt_split_at: "k < n \<Longrightarrow> [0..<n] = [0..<k] @ k # [Suc k..<n]"
  using upt_add_eq_append [of 0 k "n - k"] by (simp add: upt_conv_Cons)

lemma find_append: "find P (xs @ ys) = (case find P xs of None \<Rightarrow> find P ys | Some x \<Rightarrow> Some x)"
  by (induction xs) auto

section \<open>Powers of two and masks\<close>

lemma bit_length_0 [simp]: "bit_length 0 = 0"
  by (simp add: bit_length.simps)

lemma less_two_power_bit_length: "n < 2 ^ bit_length n"
proof (induction n rule: bit_length.induct)
  case (1 n)
  show ?case
  proof (cases "n = 0")
    case False
    with "1.IH" have "n div 2 < 2 ^ bit_length (n div 2)" by simp
    then have "n < 2 * 2 ^ bit_length (n div 2)" by linarith
    with False show ?thesis by (subst bit_length.simps) simp
  qed simp
qed

lemma two_power_bit_length_le: "0 < n \<Longrightarrow> 2 ^ bit_length n \<le> 2 * n"
proof (induction n rule: bit_length.induct)
  case (1 n)
  show ?case
  proof (cases "n div 2 = 0")
    case True
    with "1.prems" have "n = 1" by (simp add: div_eq_0_iff)
    then show ?thesis by (simp add: bit_length.simps)
  next
    case False
    with "1.IH" "1.prems" have "2 ^ bit_length (n div 2) \<le> 2 * (n div 2)" by simp
    with "1.prems" show ?thesis by (subst bit_length.simps) simp
  qed
qed

lemma bit_length_le_iff: "bit_length n \<le> k \<longleftrightarrow> n < 2 ^ k"
proof
  assume "bit_length n \<le> k"
  then have "(2::nat) ^ bit_length n \<le> 2 ^ k" by simp
  with less_two_power_bit_length [of n] show "n < 2 ^ k" by linarith
next
  assume less: "n < 2 ^ k"
  show "bit_length n \<le> k"
  proof (cases "n = 0")
    case False
    then have "(2::nat) ^ bit_length n \<le> 2 * n" by (simp add: two_power_bit_length_le)
    also have "\<dots> < 2 ^ Suc k" using less by simp
    finally have "bit_length n < Suc k" by (rule power_less_imp_less_exp [rotated]) simp
    then show ?thesis by simp
  qed simp
qed

lemma and_not_usize_mask:
  assumes "x < usize_bound" and "k \<le> 64"
  shows "x AND not_usize (2 ^ k - 1) = x div 2 ^ k * 2 ^ k"
proof (rule bit_eqI)
  fix n :: nat
  have le: "(2::nat) ^ k \<le> 2 ^ 64" using assms(2) by (rule power_increasing) simp
  have eq: "not_usize (2 ^ k - 1) = push_bit k (mask (64 - k) :: nat)"
    using le assms(2)
    by (simp add: not_usize_def push_bit_eq_mult mask_eq_exp_minus_1 diff_mult_distrib
        flip: power_add)
  have "x div 2 ^ k * 2 ^ k = push_bit k (drop_bit k x)"
    by (simp add: push_bit_eq_mult drop_bit_eq_div)
  moreover have "bit x n \<Longrightarrow> n < 64"
  proof (rule ccontr)
    assume "bit x n" "\<not> n < 64"
    then have "(2::nat) ^ 64 \<le> 2 ^ n" by (intro power_increasing) auto
    then have "x < 2 ^ n" using assms(1) by linarith
    then have "\<not> bit x n" by (simp add: bit_iff_odd)
    with \<open>bit x n\<close> show False by simp
  qed
  ultimately show "bit (x AND not_usize (2 ^ k - 1)) n \<longleftrightarrow> bit (x div 2 ^ k * 2 ^ k) n"
    unfolding eq by (auto simp: bit_simps)
qed

end
