(* ===== verification/Bytes.thy ===== *)
theory Bytes
  imports Prelude
begin

text \<open>
  Byte sequences: \<open>to_le_bytes\<close>, \<open>from_le_bytes\<close>, \<open>to_be_bytes\<close> and \<open>from_be_bytes\<close> of Rust's
  integers, reads of integers out of a byte slice, \<open>slice.rs\<close> (\<open>Sliceable::copy_from_slice\<close>)
  and \<open>pin.rs\<close> (\<open>as_mut_slice_sized\<close>).
\<close>

section \<open>Little and big endian\<close>

fun to_le_bytes :: "nat \<Rightarrow> nat \<Rightarrow> u8 list" where
  "to_le_bytes 0 v = []"
| "to_le_bytes (Suc n) v = of_nat (v mod 256) # to_le_bytes n (v div 256)"

fun from_le_bytes :: "u8 list \<Rightarrow> nat" where
  "from_le_bytes [] = 0"
| "from_le_bytes (b # bs) = unat b + 256 * from_le_bytes bs"

definition to_be_bytes :: "nat \<Rightarrow> nat \<Rightarrow> u8 list" where
  "to_be_bytes n v = rev (to_le_bytes n v)"

definition from_be_bytes :: "u8 list \<Rightarrow> nat" where
  "from_be_bytes bs = from_le_bytes (rev bs)"

text \<open>\<open>n\<close> bytes of a buffer from an offset on, and the integer they hold.\<close>

definition bytes_at :: "u8 list \<Rightarrow> nat \<Rightarrow> nat \<Rightarrow> u8 list" where
  "bytes_at buf ofs n = take n (drop ofs buf)"

definition le_at :: "u8 list \<Rightarrow> nat \<Rightarrow> nat \<Rightarrow> nat" where
  "le_at buf ofs n = from_le_bytes (bytes_at buf ofs n)"

text \<open>\<open>buf[i]\<close>, with the bounds check.\<close>

definition byte_index :: "u8 list \<Rightarrow> nat \<Rightarrow> u8 result" where
  "byte_index buf i = (if i < length buf then Ok (buf ! i) else Panic ''index out of bounds'')"

section \<open>Sliceable and IntoPinnedMutableSlice\<close>

text \<open>
  \<open>copy_from_slice\<close> reads an object of \<open>n\<close> bytes off the front of a slice; \<open>dec\<close> is the
  layout of the type. \<open>as_mut_slice_sized\<close> takes the first \<open>sz\<close> bytes of an object.
\<close>

definition copy_from_slice :: "nat \<Rightarrow> (u8 list \<Rightarrow> 'a) \<Rightarrow> u8 list \<Rightarrow> 'a result" where
  "copy_from_slice n dec buf =
     (if n > length buf then Err ''data is too short'' else Ok (dec (take n buf)))"

definition as_mut_slice_sized :: "u8 list \<Rightarrow> usize \<Rightarrow> u8 list result" where
  "as_mut_slice_sized obj sz =
     (if sz > length obj then Err ''Cannot take mut slice longer than the object'' else Ok (take sz obj))"

section \<open>Lemmas\<close>

lemma length_to_le_bytes [simp]: "length (to_le_bytes n v) = n"
  by (induction n arbitrary: v) auto

lemma length_to_be_bytes [simp]: "length (to_be_bytes n v) = n"
  by (simp add: to_be_bytes_def)

lemma from_to_le_bytes: "from_le_bytes (to_le_bytes n v) = v mod 256 ^ n"
proof (induction n arbitrary: v)
  case (Suc n)
  have "v mod 256 + 256 * (v div 256 mod 256 ^ n) = v mod (256 * 256 ^ n)"
    by (simp add: mod_mult2_eq)
  with Suc show ?case by (simp add: unsigned_of_nat take_bit_eq_mod)
qed simp

lemma from_to_le_bytes_id [simp]: "v < 256 ^ n \<Longrightarrow> from_le_bytes (to_le_bytes n v) = v"
  by (simp add: from_to_le_bytes)

lemma from_to_be_bytes_id [simp]: "v < 256 ^ n \<Longrightarrow> from_be_bytes (to_be_bytes n v) = v"
  by (simp add: from_be_bytes_def to_be_bytes_def)

lemma from_le_bytes_less: "from_le_bytes bs < 256 ^ length bs"
proof (induction bs)
  case (Cons b bs)
  have "unat b < 256" using unsigned_less [of b] by simp
  with Cons show ?case by simp
qed simp

lemma to_from_le_bytes: "to_le_bytes (length bs) (from_le_bytes bs) = bs"
proof (induction bs)
  case (Cons b bs)
  have "unat b < 256" using unsigned_less [of b] by simp
  then have "(unat b + 256 * from_le_bytes bs) mod 256 = unat b"
    and "(unat b + 256 * from_le_bytes bs) div 256 = from_le_bytes bs" by auto
  with Cons show ?case by simp
qed simp

lemma unat_less_256 [simp]: "unat (b::u8) < 256"
  using unsigned_less [of b] by simp

lemma le_at_less: "ofs + n \<le> length buf \<Longrightarrow> le_at buf ofs n < 256 ^ n"
  using from_le_bytes_less [of "bytes_at buf ofs n"] by (simp add: le_at_def bytes_at_def)

lemma bytes_at_append:
  "length pre = ofs \<Longrightarrow> length mid = n \<Longrightarrow> bytes_at (pre @ mid @ post) ofs n = mid"
  by (simp add: bytes_at_def)

lemma bytes_at_nested:
  "bytes_at (bytes_at buf a n) b m = bytes_at buf (a + b) (min m (n - b))"
  by (simp add: bytes_at_def drop_take min.commute add.commute)

lemma le_at_nested: "b + m \<le> n \<Longrightarrow> le_at (bytes_at buf a n) b m = le_at buf (a + b) m"
  by (subgoal_tac "min m (n - b) = m") (simp_all add: le_at_def bytes_at_nested)

lemma bytes_at_skip: "length xs \<le> ofs \<Longrightarrow> bytes_at (xs @ ys) ofs n = bytes_at ys (ofs - length xs) n"
  by (simp add: bytes_at_def)

lemma le_at_skip: "length xs \<le> ofs \<Longrightarrow> le_at (xs @ ys) ofs n = le_at ys (ofs - length xs) n"
  by (simp add: le_at_def bytes_at_skip)

lemma le_at_skip_add [simp]: "le_at (xs @ ys) (length xs + k) n = le_at ys k n"
  by (simp add: le_at_skip)

lemma le_at_skip_all [simp]: "le_at (xs @ ys) (length xs) n = le_at ys 0 n"
  by (simp add: le_at_skip)

lemma le_at_to_le_bytes [simp]: "v < 256 ^ n \<Longrightarrow> le_at (to_le_bytes n v @ ys) 0 n = v"
  by (simp add: le_at_def bytes_at_def)

end
