(* ===== verification/Uefi.thy ===== *)
theory Uefi
  imports Bytes
begin

text \<open>
  \<open>uefi.rs\<close>: the memory map the firmware hands over, its iterator, the configuration
  tables, and the loop that leaves the boot services. The firmware is not part of the
  repository: its functions are arguments of the definitions that call them, over an
  abstract firmware state \<open>'fw\<close>.
\<close>

section \<open>Data\<close>

datatype EfiMemoryType =
    RESERVED | LOADER_CODE | LOADER_DATA | BOOT_SERVICES_CODE | BOOT_SERVICES_DATA
  | RUNTIME_SERVICES_CODE | RUNTIME_SERVICES_DATA | CONVENTIONAL_MEMORY | UNUSABLE_MEMORY
  | ACPI_RECLAIM_MEMORY | ACPI_MEMORY_NVS | MEMORY_MAPPED_IO | MEMORY_MAPPED_IO_PORT_SPACE
  | PAL_CODE | PERSISTENT_MEMORY

definition efi_memory_types :: "EfiMemoryType list" where
  "efi_memory_types = [RESERVED, LOADER_CODE, LOADER_DATA, BOOT_SERVICES_CODE, BOOT_SERVICES_DATA,
     RUNTIME_SERVICES_CODE, RUNTIME_SERVICES_DATA, CONVENTIONAL_MEMORY, UNUSABLE_MEMORY,
     ACPI_RECLAIM_MEMORY, ACPI_MEMORY_NVS, MEMORY_MAPPED_IO, MEMORY_MAPPED_IO_PORT_SPACE,
     PAL_CODE, PERSISTENT_MEMORY]"

record EfiMemoryDescriptor =
  memory_type :: EfiMemoryType
  physical_start :: u64
  virtual_start :: u64
  number_of_pages :: u64
  attribute :: u64

definition MEMORY_MAP_BUFFER_SIZE :: usize where
  "MEMORY_MAP_BUFFER_SIZE = 0x8000"

record MemoryMapHolder =
  memory_map_buffer :: "u8 list"
  memory_map_size :: usize
  map_key :: usize
  descriptor_size :: usize
  descriptor_version :: u32

definition MemoryMapHolder_new :: MemoryMapHolder where
  "MemoryMapHolder_new =
     \<lparr>memory_map_buffer = replicate MEMORY_MAP_BUFFER_SIZE 0,
      memory_map_size = MEMORY_MAP_BUFFER_SIZE, map_key = 0, descriptor_size = 0,
      descriptor_version = 0\<rparr>"

section \<open>The memory map and its iterator\<close>

text \<open>
  \<open>&*(buffer.add(ofs) as *const EfiMemoryDescriptor)\<close>: the 40 bytes of the \<open>repr(C)\<close> struct at
  an offset. Bytes past the end of the buffer, or a memory type that is no discriminant of
  the enum, have no defined meaning.
\<close>

definition descriptor_at :: "u8 list \<Rightarrow> usize \<Rightarrow> EfiMemoryDescriptor result" where
  "descriptor_at buf ofs =
     (if ofs + 40 > length buf then Panic ''read past the memory map buffer''
      else if le_at buf ofs 8 \<ge> length efi_memory_types then Panic ''invalid EfiMemoryType''
      else Ok \<lparr>memory_type = efi_memory_types ! le_at buf ofs 8,
               physical_start = of_nat (le_at buf (ofs + 8) 8),
               virtual_start = of_nat (le_at buf (ofs + 16) 8),
               number_of_pages = of_nat (le_at buf (ofs + 24) 8),
               attribute = of_nat (le_at buf (ofs + 32) 8)\<rparr>)"

text \<open>\<open>MemoryMapIterator::next\<close>: the item, if any, and the next offset.\<close>

definition iter_next :: "MemoryMapHolder \<Rightarrow> usize \<Rightarrow> (EfiMemoryDescriptor option \<times> usize) result" where
  "iter_next m ofs =
     (if ofs \<ge> memory_map_size m then Ok (None, ofs)
      else rbind (descriptor_at (memory_map_buffer m) ofs) (\<lambda>e.
           rbind (add_usize ofs (descriptor_size m)) (\<lambda>ofs'. Ok (Some e, ofs'))))"

text \<open>
  A \<open>for e in memory_map.iter()\<close> loop visits the items that \<open>iter_next\<close> gives from offset 0.
  With a \<open>descriptor_size\<close> of 0 it does not end, which is the value \<open>None\<close>.
\<close>

partial_function (option) iter_from ::
  "MemoryMapHolder \<Rightarrow> usize \<Rightarrow> EfiMemoryDescriptor list result option" where
  "iter_from m ofs =
     (case iter_next m ofs of
        Err e \<Rightarrow> Some (Err e)
      | Panic e \<Rightarrow> Some (Panic e)
      | Ok (None, _) \<Rightarrow> Some (Ok [])
      | Ok (Some d, ofs') \<Rightarrow>
          Option.bind (iter_from m ofs') (\<lambda>r. Some (rbind r (\<lambda>ds. Ok (d # ds)))))"

definition memory_map_iter :: "MemoryMapHolder \<Rightarrow> EfiMemoryDescriptor list result option" where
  "memory_map_iter m = iter_from m 0"

section \<open>Leaving the boot services\<close>

text \<open>
  \<open>get_map\<close> and \<open>exit_bs\<close> are the firmware's \<open>GetMemoryMap\<close> and \<open>ExitBootServices\<close>; a status of
  0 is \<open>EfiStatus::Success\<close>. The loop ends when \<open>ExitBootServices\<close> accepts the key of the map
  just read; a failing \<open>GetMemoryMap\<close> fails the assertion.
\<close>

partial_function (option) exit_from_efi_boot_services ::
  "('fw \<Rightarrow> MemoryMapHolder \<Rightarrow> u64 \<times> MemoryMapHolder \<times> 'fw) \<Rightarrow>
   ('fw \<Rightarrow> u64 \<Rightarrow> usize \<Rightarrow> u64 \<times> 'fw) \<Rightarrow> u64 \<Rightarrow>
   'fw \<Rightarrow> MemoryMapHolder \<Rightarrow> (MemoryMapHolder \<times> 'fw) result option" where
  "exit_from_efi_boot_services get_map exit_bs image_handle fw m =
     (case get_map fw m of (status, m', fw') \<Rightarrow>
        if status \<noteq> 0 then Some (Panic ''assertion failed: status == Success'')
        else (case exit_bs fw' image_handle (map_key m') of (status', fw'') \<Rightarrow>
                if status' = 0 then Some (Ok (m', fw''))
                else exit_from_efi_boot_services get_map exit_bs image_handle fw'' m'))"

section \<open>Configuration tables\<close>

record EfiGuid =
  data0 :: u32
  data1 :: u16
  data2 :: u16
  data3 :: "u8 list"

record EfiConfigurationTable =
  vendor_guid :: EfiGuid
  vendor_table :: u64

definition EFI_ACPI_TABLE_GUID :: EfiGuid where
  "EFI_ACPI_TABLE_GUID = \<lparr>data0 = 0x8868e871, data1 = 0xe4f1, data2 = 0x11d3,
     data3 = [0xbc, 0x22, 0x00, 0x80, 0xc7, 0x3c, 0x88, 0x81]\<rparr>"

text \<open>The table array of \<open>EfiSystemTable\<close> is the list of its entries.\<close>

fun lookup_config_table :: "EfiConfigurationTable list \<Rightarrow> EfiGuid \<Rightarrow> EfiConfigurationTable option" where
  "lookup_config_table [] guid = None"
| "lookup_config_table (ct # cts) guid =
     (if vendor_guid ct = guid then Some ct else lookup_config_table cts guid)"

definition acpi_table :: "EfiConfigurationTable list \<Rightarrow> u64 option" where
  "acpi_table cts = map_option vendor_table (lookup_config_table cts EFI_ACPI_TABLE_GUID)"

section \<open>The layout of a descriptor\<close>

definition type_index :: "EfiMemoryType \<Rightarrow> nat" where
  "type_index t = length (takeWhile (\<lambda>x. x \<noteq> t) efi_memory_types)"

text \<open>The bytes the firmware writes for a descriptor, in the layout of the UEFI specification.\<close>

definition encode_descriptor :: "EfiMemoryDescriptor \<Rightarrow> u8 list" where
  "encode_descriptor d =
     to_le_bytes 8 (type_index (memory_type d)) @ to_le_bytes 8 (unat (physical_start d)) @
     to_le_bytes 8 (unat (virtual_start d)) @ to_le_bytes 8 (unat (number_of_pages d)) @
     to_le_bytes 8 (unat (attribute d))"

lemma type_index_nth: "type_index t < length efi_memory_types \<and> efi_memory_types ! type_index t = t"
  by (cases t) (simp_all add: type_index_def efi_memory_types_def)

lemma type_index_less: "type_index t < 15"
  using type_index_nth [of t] by (simp add: efi_memory_types_def)

lemma length_encode_descriptor [simp]: "length (encode_descriptor d) = 40"
  by (simp add: encode_descriptor_def)

lemma unat_u64_less [simp]: "unat (w::u64) < 18446744073709551616"
  using unsigned_less [of w] by simp

lemma descriptor_at_encode:
  "descriptor_at (pre @ encode_descriptor d @ post) (length pre) = Ok d"
proof -
  have idx: "type_index (memory_type d) < 256 ^ 8"
    using type_index_less [of "memory_type d"] by simp
  have "le_at (encode_descriptor d @ post) 0 8 = type_index (memory_type d)"
    and "le_at (encode_descriptor d @ post) 8 8 = unat (physical_start d)"
    and "le_at (encode_descriptor d @ post) 16 8 = unat (virtual_start d)"
    and "le_at (encode_descriptor d @ post) 24 8 = unat (number_of_pages d)"
    and "le_at (encode_descriptor d @ post) 32 8 = unat (attribute d)"
    using idx by (simp_all add: encode_descriptor_def le_at_skip)
  moreover have "le_at (pre @ encode_descriptor d @ post) (length pre) 8 =
      le_at (encode_descriptor d @ post) 0 8"
    by (rule le_at_skip_all)
  ultimately show ?thesis
    using type_index_nth [of "memory_type d"]
    by (simp add: descriptor_at_def not_le)
qed

lemma iter_from_entries:
  assumes "memory_map_buffer m = pre @ concat (map (\<lambda>(d, pad). encode_descriptor d @ pad) entries) @ post"
    and "\<forall>(d, pad) \<in> set entries. 40 + length pad = descriptor_size m"
    and "memory_map_size m = length pre + length entries * descriptor_size m"
    and "length (memory_map_buffer m) < usize_bound"
    and "0 < descriptor_size m"
  shows "iter_from m (length pre) = Some (Ok (map fst entries))"
  using assms(1-3)
proof (induction entries arbitrary: pre)
  case Nil
  then show ?case by (simp add: iter_from.simps iter_next_def)
next
  case (Cons x entries)
  obtain d pad where x: "x = (d, pad)" by (cases x)
  let ?pre = "pre @ encode_descriptor d @ pad"
  have len: "length ?pre = length pre + descriptor_size m"
    using Cons.prems(2) x by simp
  have rest: "iter_from m (length ?pre) = Some (Ok (map fst entries))"
    using Cons.prems x len by (intro Cons.IH) auto
  have "length ?pre \<le> length (memory_map_buffer m)"
    using Cons.prems(1) x by simp
  then have bound: "length pre + descriptor_size m < usize_bound"
    using len assms(4) by linarith
  have "descriptor_at (memory_map_buffer m) (length pre) = Ok d"
    using Cons.prems(1) x by (simp add: descriptor_at_encode)
  with bound Cons.prems(3) assms(5)
  have "iter_next m (length pre) = Ok (Some d, length pre + descriptor_size m)"
    by (simp add: iter_next_def add_usize_def)
  with rest len x show ?case by (subst iter_from.simps) simp
qed

section \<open>Properties\<close>

text \<open>
  A memory map laid out by the firmware at a stride of at least 40 bytes is read back
  entry by entry: the iteration ends, reads nothing outside the buffer, and yields the
  descriptors in order.
\<close>

theorem memory_map_iter_roundtrip:
  assumes "memory_map_buffer m = concat (map (\<lambda>(d, pad). encode_descriptor d @ pad) entries) @ post"
    and "\<forall>(d, pad) \<in> set entries. 40 + length pad = descriptor_size m"
    and "memory_map_size m = length entries * descriptor_size m"
    and "length (memory_map_buffer m) < usize_bound"
    and "0 < descriptor_size m"
  shows "memory_map_iter m = Some (Ok (map fst entries))"
  unfolding memory_map_iter_def
  using iter_from_entries [of m "[]" entries post] assms by simp

definition example_descriptor :: EfiMemoryDescriptor where
  "example_descriptor = \<lparr>memory_type = CONVENTIONAL_MEMORY, physical_start = 0x100000,
     virtual_start = 0, number_of_pages = 16, attribute = 15\<rparr>"

definition example_memory_map :: MemoryMapHolder where
  "example_memory_map = \<lparr>memory_map_buffer =
       concat (map (\<lambda>(d, pad). encode_descriptor d @ pad)
         [(example_descriptor, replicate 8 0), (example_descriptor, replicate 8 1)]) @ replicate 100 0,
     memory_map_size = 96, map_key = 7, descriptor_size = 48, descriptor_version = 1\<rparr>"

theorem memory_map_iter_roundtrip_witness:
  "memory_map_iter example_memory_map = Some (Ok [example_descriptor, example_descriptor])"
  using memory_map_iter_roundtrip [of example_memory_map
      "[(example_descriptor, replicate 8 0), (example_descriptor, replicate 8 1)]" "replicate 100 0"]
  by (simp add: example_memory_map_def)

text \<open>
  When \<open>GetMemoryMap\<close> succeeds and \<open>ExitBootServices\<close> can refuse a key only finitely often
  (each refusal lowers a rank of the firmware's state), leaving the boot services returns,
  and the map it returns is the one whose key \<open>ExitBootServices\<close> accepted.
\<close>

theorem exit_from_efi_boot_services_returns:
  fixes rank :: "'fw \<Rightarrow> nat"
  assumes "\<And>fw m. fst (get_map fw m) = 0 \<and> rank (snd (snd (get_map fw m))) \<le> rank fw"
    and "\<And>fw k. fst (exit_bs fw h k) \<noteq> 0 \<Longrightarrow> rank (snd (exit_bs fw h k)) < rank fw"
  shows "\<exists>m' fw' fw1. exit_from_efi_boot_services get_map exit_bs h fw m = Some (Ok (m', fw')) \<and>
    (\<exists>fw0 m0. get_map fw0 m0 = (0, m', fw1)) \<and> exit_bs fw1 h (map_key m') = (0, fw')"
proof (induction fw arbitrary: m rule: measure_induct_rule [of rank])
  case (less fw)
  obtain m1 fw1 where g: "get_map fw m = (0, m1, fw1)" and r1: "rank fw1 \<le> rank fw"
    using assms(1) [of fw m] by (cases "get_map fw m") auto
  obtain st fw2 where e: "exit_bs fw1 h (map_key m1) = (st, fw2)"
    by (cases "exit_bs fw1 h (map_key m1)")
  note unfold = exit_from_efi_boot_services.simps [of get_map exit_bs h fw m]
  show ?case
  proof (cases "st = 0")
    case True
    have "\<exists>fw0 m0. get_map fw0 m0 = (0, m1, fw1)" using g by blast
    with g e True show ?thesis by (subst unfold) (simp, blast)
  next
    case False
    with assms(2) [of fw1 "map_key m1"] e r1 have "rank fw2 < rank fw" by simp
    from less [OF this, of m1] g e False show ?thesis by (subst unfold) simp
  qed
qed

theorem exit_from_efi_boot_services_returns_witness:
  "\<exists>m' fw' fw1. exit_from_efi_boot_services
      (\<lambda>fw m. (0, m\<lparr>map_key := fw\<rparr>, fw)) (\<lambda>fw h k. if fw = 0 then (0, 0) else (1, fw - 1))
      5 (2::nat) MemoryMapHolder_new = Some (Ok (m', fw')) \<and>
    (\<exists>fw0 m0. (0::u64, m0\<lparr>map_key := fw0\<rparr>, fw0) = (0, m', fw1)) \<and>
    (if fw1 = 0 then (0::u64, 0) else (1, fw1 - 1)) = (0, fw')"
  by (rule exit_from_efi_boot_services_returns [of "\<lambda>fw m. (0, m\<lparr>map_key := fw\<rparr>, fw)" "\<lambda>n. n"
      "\<lambda>fw h k. if fw = 0 then (0, 0) else (1, fw - 1)" 5 2 MemoryMapHolder_new])
     (auto split: if_splits)

end
