(* ===== verification/HeapSpec.thy ===== *)
theory HeapSpec
  imports Prelude
begin

text \<open>
  The contract between the kernel's heap and its clients (page tables, rings, contexts,
  stacks: everything the code puts into a \<open>Box\<close>): a locale over the operations a client
  calls. \<open>live\<close> gives the regions handed out and not yet given back, as pairs of an address
  and a usable size. What a client may conclude from the contract is proved once, here;
  \<open>Allocator\<close> interprets the locale on the model of \<open>FirstFitAllocator\<close>.
\<close>

text \<open>What \<open>Layout\<close> guarantees of a size and an alignment.\<close>

definition layout_ok :: "usize \<Rightarrow> usize \<Rightarrow> bool" where
  "layout_ok sz align \<longleftrightarrow> (\<exists>k. align = 2 ^ k) \<and> sz + align \<le> 2 ^ 63"

definition regions_apart :: "usize \<times> usize \<Rightarrow> usize \<times> usize \<Rightarrow> bool" where
  "regions_apart r q \<longleftrightarrow> fst r + snd r \<le> fst q \<or> fst q + snd q \<le> fst r"

lemma regions_apart_sym: "regions_apart r q \<longleftrightarrow> regions_apart q r"
  by (auto simp: regions_apart_def)

text \<open>A client that allocates a list of layouts and keeps the pointers.\<close>

fun alloc_all ::
  "('s \<Rightarrow> usize \<Rightarrow> usize \<Rightarrow> (usize \<times> 's) result option) \<Rightarrow> 's \<Rightarrow> (usize \<times> usize) list \<Rightarrow>
   (usize list \<times> 's) result option" where
  "alloc_all alloc s [] = Some (Ok ([], s))"
| "alloc_all alloc s ((sz, align) # ls) =
     Option.bind (alloc s sz align) (\<lambda>r. case r of
         Err e \<Rightarrow> Some (Err e)
       | Panic e \<Rightarrow> Some (Panic e)
       | Ok (p, s') \<Rightarrow> map_option (\<lambda>q. rbind q (\<lambda>(ps, s''). Ok (p # ps, s''))) (alloc_all alloc s' ls))"

text \<open>
  The pointers answer the layouts: one each, and the non-null ones are aligned, at least
  as large as asked, and apart from each other.
\<close>

fun answers :: "(usize \<times> usize) list \<Rightarrow> usize list \<Rightarrow> bool" where
  "answers [] [] \<longleftrightarrow> True"
| "answers ((sz, align) # ls) (p # ps) \<longleftrightarrow>
     (p = 0 \<or> align dvd p \<and> (\<forall>((sz', _), q) \<in> set (zip ls ps). q = 0 \<or> regions_apart (p, sz) (q, sz'))) \<and>
     answers ls ps"
| "answers _ _ \<longleftrightarrow> False"

locale heap_allocator =
  fixes alloc :: "'s \<Rightarrow> usize \<Rightarrow> usize \<Rightarrow> (usize \<times> 's) result option"
    and free :: "'s \<Rightarrow> usize \<Rightarrow> 's result"
    and inv :: "'s \<Rightarrow> bool"
    and live :: "'s \<Rightarrow> (usize \<times> usize) set"
  assumes alloc_returns: "inv s \<Longrightarrow> layout_ok sz align \<Longrightarrow> \<exists>p s'. alloc s sz align = Some (Ok (p, s'))"
    and alloc_null: "inv s \<Longrightarrow> layout_ok sz align \<Longrightarrow> alloc s sz align = Some (Ok (0, s')) \<Longrightarrow> s' = s"
    and alloc_fresh: "inv s \<Longrightarrow> layout_ok sz align \<Longrightarrow> alloc s sz align = Some (Ok (p, s')) \<Longrightarrow> p \<noteq> 0 \<Longrightarrow>
      inv s' \<and> align dvd p \<and>
      (\<exists>n \<ge> sz. live s' = insert (p, n) (live s) \<and> (\<forall>r \<in> live s. regions_apart (p, n) r))"
    and free_live: "inv s \<Longrightarrow> (p, n) \<in> live s \<Longrightarrow>
      \<exists>s'. free s p = Ok s' \<and> inv s' \<and> live s' = live s - {(p, n)}"
begin

lemma alloc_step:
  assumes "inv s" and "layout_ok sz align"
  shows "\<exists>p s'. alloc s sz align = Some (Ok (p, s')) \<and> inv s' \<and> live s \<subseteq> live s' \<and>
    (p \<noteq> 0 \<longrightarrow> align dvd p \<and> (\<exists>n \<ge> sz. (p, n) \<in> live s' \<and> (\<forall>r \<in> live s. regions_apart (p, n) r)))"
proof -
  obtain p s' where a: "alloc s sz align = Some (Ok (p, s'))" using alloc_returns [OF assms] by blast
  show ?thesis
  proof (cases "p = 0")
    case True
    with a alloc_null [OF assms] have "s' = s" by blast
    with a True assms(1) show ?thesis by blast
  next
    case False
    from alloc_fresh [OF assms a this] a show ?thesis by blast
  qed
qed

lemma alloc_all_answers_aux:
  assumes "inv s" and "\<forall>(sz, align) \<in> set ls. layout_ok sz align"
  shows "\<exists>ps s'. alloc_all alloc s ls = Some (Ok (ps, s')) \<and> inv s' \<and> answers ls ps \<and>
    (\<forall>r \<in> live s. \<forall>((sz, _), q) \<in> set (zip ls ps). q = 0 \<or> regions_apart r (q, sz))"
  using assms
proof (induction ls arbitrary: s)
  case (Cons l ls)
  obtain sz align where l: "l = (sz, align)" by (cases l)
  from Cons.prems l have "layout_ok sz align" by simp
  from alloc_step [OF Cons.prems(1) this]
  obtain p s' where a: "alloc s sz align = Some (Ok (p, s'))" "inv s'"
    and sub: "live s \<subseteq> live s'"
    and new: "p \<noteq> 0 \<Longrightarrow> align dvd p \<and> (\<exists>n \<ge> sz. (p, n) \<in> live s' \<and> (\<forall>r \<in> live s. regions_apart (p, n) r))"
    by blast
  obtain ps s'' where ps: "alloc_all alloc s' ls = Some (Ok (ps, s''))" "inv s''" "answers ls ps"
    and apart: "\<forall>r \<in> live s'. \<forall>((sz, _), q) \<in> set (zip ls ps). q = 0 \<or> regions_apart r (q, sz)"
    using Cons.IH [OF a(2)] Cons.prems(2) by auto
  have old: "\<forall>r \<in> live s. p = 0 \<or> regions_apart r (p, sz)"
    using new by (fastforce simp: regions_apart_def)
  have this_new: "p = 0 \<or> align dvd p \<and>
      (\<forall>((sz', _), q) \<in> set (zip ls ps). q = 0 \<or> regions_apart (p, sz) (q, sz'))"
  proof (cases "p = 0")
    case False
    then obtain n where n: "sz \<le> n" "(p, n) \<in> live s'" and al: "align dvd p" using new by blast
    from apart n(2) have "\<forall>((sz', _), q) \<in> set (zip ls ps). q = 0 \<or> regions_apart (p, n) (q, sz')" by blast
    with n(1) al show ?thesis by (fastforce simp: regions_apart_def)
  qed simp
  from a(1) ps(1) l have "alloc_all alloc s (l # ls) = Some (Ok (p # ps, s''))" by simp
  moreover have "answers (l # ls) (p # ps)" using this_new ps(3) l by simp
  moreover have "\<forall>r \<in> live s. \<forall>((sz, _), q) \<in> set (zip (l # ls) (p # ps)). q = 0 \<or> regions_apart r (q, sz)"
    using old apart sub l by auto
  ultimately show ?case using ps(2) by blast
qed simp

lemma alloc_all_answers:
  assumes "inv s" and "\<forall>(sz, align) \<in> set ls. layout_ok sz align"
  shows "\<exists>ps s'. alloc_all alloc s ls = Some (Ok (ps, s')) \<and> inv s' \<and> answers ls ps"
  using alloc_all_answers_aux [OF assms] by blast

text \<open>Giving back what was just allocated restores the set of live regions.\<close>

lemma alloc_free_live:
  assumes "inv s" and "layout_ok sz align" and "alloc s sz align = Some (Ok (p, s'))" and "p \<noteq> 0"
  shows "\<exists>s''. free s' p = Ok s'' \<and> inv s'' \<and> live s'' - live s = {}"
proof -
  from alloc_fresh [OF assms] obtain n where i: "inv s'" and l: "live s' = insert (p, n) (live s)" by blast
  with free_live [OF i, of p n] show ?thesis by auto
qed

end

end
