(* ===== verification/Allocator.thy ===== *)
theory Allocator
  imports Uefi HeapSpec
begin

text \<open>
  \<open>allocator.rs\<close>: the first-fit heap. A header is an object at an address; the memory that
  holds headers is a map from addresses to headers, and \<open>next_header\<close> is the address of the
  next header, as the \<open>Box<Header>\<close> is in the code. The list of blocks that the chain of
  headers represents (\<open>blocks\<close>), a first fit on that list (\<open>first_fit\<close>) and its invariant
  (\<open>wf_blocks\<close>) are the abstract specification that the pointer code refines.
\<close>

section \<open>Definitions\<close>

definition round_up_to_nearest_pow2 :: "usize \<Rightarrow> usize result" where
  "round_up_to_nearest_pow2 v =
     ok_or (checked_shl_usize 1 (64 - leading_zeros_usize (wrapping_sub_usize v 1))) ''Out of range''"

record Header =
  next_header :: "usize option"
  hdr_size :: usize
  is_allocated :: bool
  hdr_reserved :: usize

definition HEADER_SIZE :: usize where
  [field_defs]: "HEADER_SIZE = 32"

type_synonym heap = "usize \<rightharpoonup> Header"

definition can_provide :: "Header \<Rightarrow> usize \<Rightarrow> usize \<Rightarrow> bool result" where
  "can_provide h sz align =
     rbind (add_usize sz (HEADER_SIZE * 2)) (\<lambda>a. rbind (add_usize a align) (\<lambda>b. Ok (hdr_size h \<ge> b)))"

definition end_addr :: "usize \<Rightarrow> Header \<Rightarrow> usize result" where
  "end_addr addr h = add_usize addr (hdr_size h)"

definition new_header :: Header where
  "new_header = \<lparr>next_header = None, hdr_size = 0, is_allocated = False, hdr_reserved = 0\<rparr>"

definition new_from_addr :: "usize \<Rightarrow> heap \<Rightarrow> heap" where
  "new_from_addr addr m = m(addr \<mapsto> new_header)"

text \<open>
  The branch of \<open>Header::provide\<close> that carves a block off the end of the free block at
  \<open>addr\<close>: the header of the allocation, the header of the padding behind it if there is any,
  and the shortened block in front.
\<close>

definition provide_at :: "heap \<Rightarrow> usize \<Rightarrow> Header \<Rightarrow> usize \<Rightarrow> usize \<Rightarrow> (usize option \<times> heap) result" where
  "provide_at m addr h sz align =
     rbind (end_addr addr h) (\<lambda>self_end.
     rbind (sub_usize self_end sz) (\<lambda>top.
     rbind (sub_usize align 1) (\<lambda>align_mask.
     let allocated_addr = top AND not_usize align_mask in
     rbind (sub_usize allocated_addr HEADER_SIZE) (\<lambda>hdr_addr.
     rbind (add_usize sz HEADER_SIZE) (\<lambda>hdr_sz.
     let m1 = new_from_addr hdr_addr m;
         hdr = new_header\<lparr>is_allocated := True, hdr_size := hdr_sz, next_header := next_header h\<rparr> in
     rbind (end_addr hdr_addr hdr) (\<lambda>hdr_end.
     rbind (if hdr_end \<noteq> self_end
            then rbind (sub_usize self_end hdr_end) (\<lambda>pad_sz.
                 rbind (add_usize hdr_sz pad_sz) (\<lambda>used.
                   let m2 = new_from_addr hdr_end m1;
                       pad = new_header\<lparr>is_allocated := False, hdr_size := pad_sz, next_header := next_header hdr\<rparr>
                   in Ok (m2(hdr_end \<mapsto> pad), hdr\<lparr>next_header := Some hdr_end\<rparr>, used)))
            else Ok (m1, hdr, hdr_sz)) (\<lambda>(m2, hdr', size_used).
     rbind (add_usize size_used HEADER_SIZE) (\<lambda>need.
     if \<not> hdr_size h \<ge> need then Panic ''assertion failed: self.size >= size_used + HEADER_SIZE''
     else rbind (sub_usize (hdr_size h) size_used) (\<lambda>rest.
       Ok (Some allocated_addr,
           m2(hdr_addr \<mapsto> hdr', addr \<mapsto> h\<lparr>hdr_size := rest, next_header := Some hdr_addr\<rparr>)))))))))))"

definition provide :: "heap \<Rightarrow> usize \<Rightarrow> Header \<Rightarrow> usize \<Rightarrow> usize \<Rightarrow> (usize option \<times> heap) result" where
  "provide m addr h sz0 align0 =
     (case round_up_to_nearest_pow2 sz0 of
        Err _ \<Rightarrow> Ok (None, m)
      | Panic e \<Rightarrow> Panic e
      | Ok p \<Rightarrow>
          (let sz = max p HEADER_SIZE; align = max align0 HEADER_SIZE in
           if is_allocated h then Ok (None, m)
           else rbind (can_provide h sz align) (\<lambda>ok.
                if \<not> ok then Ok (None, m) else provide_at m addr h sz align)))"

text \<open>
  The walk of \<open>alloc_with_options\<close> along the chain. The chain of a corrupted heap may be
  cyclic, so the loop is a partial function; a \<open>next_header\<close> that points at no header is a
  dangling \<open>Box\<close>.
\<close>

partial_function (option) alloc_loop ::
  "heap \<Rightarrow> usize option \<Rightarrow> usize \<Rightarrow> usize \<Rightarrow> (usize \<times> heap) result option" where
  "alloc_loop m p sz align =
     (case p of
        None \<Rightarrow> Some (Ok (0, m))
      | Some addr \<Rightarrow>
          (case m addr of
             None \<Rightarrow> Some (Panic ''dangling header'')
           | Some h \<Rightarrow>
               (case provide m addr h sz align of
                  Err e \<Rightarrow> Some (Err e)
                | Panic e \<Rightarrow> Some (Panic e)
                | Ok (Some ptr, m') \<Rightarrow> Some (Ok (ptr, m'))
                | Ok (None, m') \<Rightarrow> alloc_loop m' (next_header h) sz align)))"

record FirstFitAllocator =
  first_header :: "usize option"
  heap_mem :: heap

definition alloc_with_options ::
  "FirstFitAllocator \<Rightarrow> usize \<Rightarrow> usize \<Rightarrow> (usize \<times> FirstFitAllocator) result option" where
  "alloc_with_options st sz align =
     map_option (\<lambda>r. rbind r (\<lambda>(p, m). Ok (p, st\<lparr>heap_mem := m\<rparr>)))
       (alloc_loop (heap_mem st) (first_header st) sz align)"

definition dealloc :: "FirstFitAllocator \<Rightarrow> usize \<Rightarrow> FirstFitAllocator result" where
  "dealloc st ptr =
     rbind (sub_usize ptr HEADER_SIZE) (\<lambda>addr.
       case heap_mem st addr of
         None \<Rightarrow> Panic ''no header in front of the region''
       | Some h \<Rightarrow> Ok (st\<lparr>heap_mem := (heap_mem st)(addr \<mapsto> h\<lparr>is_allocated := False\<rparr>)\<rparr>))"

definition add_free_from_descriptor ::
  "FirstFitAllocator \<Rightarrow> EfiMemoryDescriptor \<Rightarrow> FirstFitAllocator result" where
  "add_free_from_descriptor st desc =
     rbind (mul_usize (unat (number_of_pages desc)) 4096) (\<lambda>sz0.
       let start0 = unat (physical_start desc);
           start_addr = (if start0 = 0 then start0 + 4096 else start0);
           sz = (if start0 = 0 then sz0 - 4096 else sz0) in
       if sz \<le> 4096 then Ok st
       else let header = new_header\<lparr>next_header := None, is_allocated := False, hdr_size := sz\<rparr>;
                m1 = (new_from_addr start_addr (heap_mem st))(start_addr \<mapsto> header);
                prev_last = first_header st
            in Ok (st\<lparr>first_header := Some start_addr,
                      heap_mem := m1(start_addr \<mapsto> header\<lparr>next_header := prev_last\<rparr>)\<rparr>))"

fun add_free_all :: "FirstFitAllocator \<Rightarrow> EfiMemoryDescriptor list \<Rightarrow> FirstFitAllocator result" where
  "add_free_all st [] = Ok st"
| "add_free_all st (e # es) =
     (if memory_type e \<noteq> CONVENTIONAL_MEMORY then add_free_all st es
      else rbind (add_free_from_descriptor st e) (\<lambda>st'. add_free_all st' es))"

definition init_with_mmap :: "FirstFitAllocator \<Rightarrow> MemoryMapHolder \<Rightarrow> FirstFitAllocator result option" where
  "init_with_mmap st memory_map =
     map_option (\<lambda>r. rbind r (add_free_all st)) (memory_map_iter memory_map)"

definition ALLOCATOR_init :: FirstFitAllocator where
  "ALLOCATOR_init = \<lparr>first_header = None, heap_mem = Map.empty\<rparr>"

section \<open>The abstract heap\<close>

text \<open>
  A block is its address, its size including the header, and whether it is allocated.
  \<open>chain m p bs\<close>: following \<open>next_header\<close> from \<open>p\<close> runs through the blocks \<open>bs\<close> and ends.
\<close>

type_synonym block = "usize \<times> usize \<times> bool"

fun chain :: "heap \<Rightarrow> usize option \<Rightarrow> block list \<Rightarrow> bool" where
  "chain m p [] \<longleftrightarrow> p = None"
| "chain m p ((a, s, al) # bs) \<longleftrightarrow> p = Some a \<and>
     (case m a of None \<Rightarrow> False
      | Some h \<Rightarrow> hdr_size h = s \<and> is_allocated h = al \<and> chain m (next_header h) bs)"

fun wf_block :: "block \<Rightarrow> bool" where
  "wf_block (a, s, al) \<longleftrightarrow> 0 < a \<and> 32 dvd a \<and> 32 dvd s \<and> 32 \<le> s \<and> a + s < usize_bound"

fun block_disjoint :: "block \<Rightarrow> block \<Rightarrow> bool" where
  "block_disjoint (a, s, _) (b, t, _) \<longleftrightarrow> a + s \<le> b \<or> b + t \<le> a"

fun wf_blocks :: "block list \<Rightarrow> bool" where
  "wf_blocks [] \<longleftrightarrow> True"
| "wf_blocks (b # bs) \<longleftrightarrow> wf_block b \<and> list_all (block_disjoint b) bs \<and> wf_blocks bs"

definition carve :: "usize \<Rightarrow> usize \<Rightarrow> usize \<Rightarrow> usize \<Rightarrow> usize \<times> block list" where
  "carve sz align a s =
     (let p = (a + s - sz) div align * align in
      (p, (a, p - 32 - a, False) # (p - 32, sz + 32, True) #
          (if p + sz = a + s then [] else [(p + sz, a + s - (p + sz), False)])))"

fun first_fit :: "usize \<Rightarrow> usize \<Rightarrow> block list \<Rightarrow> (usize \<times> block list) option" where
  "first_fit sz align [] = None"
| "first_fit sz align ((a, s, al) # bs) =
     (if \<not> al \<and> s \<ge> sz + 64 + align
      then (case carve sz align a s of (p, new) \<Rightarrow> Some (p, new @ bs))
      else map_option (\<lambda>(p, bs'). (p, (a, s, al) # bs')) (first_fit sz align bs))"

section \<open>Rounding up to a power of two\<close>

lemma round_up_eq:
  assumes "v < usize_bound"
  shows "round_up_to_nearest_pow2 v =
    (if 1 \<le> v \<and> v \<le> 2 ^ 63 then Ok (2 ^ bit_length (v - 1)) else Err ''Out of range'')"
proof -
  let ?w = "wrapping_sub_usize v 1"
  have w: "?w < 2 ^ 64" by (simp add: wrapping_sub_usize_def)
  then have le: "bit_length ?w \<le> 64" by (simp only: bit_length_le_iff)
  then have shl: "round_up_to_nearest_pow2 v =
      (if bit_length ?w < 64 then Ok (2 ^ bit_length ?w mod usize_bound) else Err ''Out of range'')"
    by (simp add: round_up_to_nearest_pow2_def leading_zeros_usize_def checked_shl_usize_def
        push_bit_eq_mult)
  have lt: "bit_length ?w < 64 \<longleftrightarrow> ?w < 2 ^ 63"
    using bit_length_le_iff [of ?w 63] by linarith
  have small: "(2::nat) ^ bit_length ?w mod usize_bound = 2 ^ bit_length ?w" if "bit_length ?w < 64"
    using that by (intro mod_less power_strict_increasing) auto
  show ?thesis
  proof (cases "v = 0")
    case True
    then have "\<not> ?w < 2 ^ 63" by (simp add: wrapping_sub_usize_def)
    with True shl lt show ?thesis by simp
  next
    case False
    then have "v + usize_bound - 1 = (v - 1) + usize_bound" by linarith
    then have "?w = (v - 1) mod usize_bound"
      unfolding wrapping_sub_usize_def by (metis mod_add_self2)
    then have weq: "?w = v - 1" using assms by simp
    have "v - 1 < 2 ^ 63 \<longleftrightarrow> v \<le> 2 ^ 63" using False by linarith
    with shl lt small weq False show ?thesis by simp
  qed
qed

lemma round_up_bounds:
  assumes "1 \<le> v"
  shows "v \<le> 2 ^ bit_length (v - 1) \<and> 2 ^ bit_length (v - 1) < 2 * v"
proof
  show "v \<le> 2 ^ bit_length (v - 1)"
    using less_two_power_bit_length [of "v - 1"] by linarith
  show "2 ^ bit_length (v - 1) < 2 * v"
  proof (cases "v = 1")
    case False
    with assms have "2 ^ bit_length (v - 1) \<le> 2 * (v - 1)" by (intro two_power_bit_length_le) simp
    with assms show ?thesis by linarith
  qed simp
qed

text \<open>
  \<open>round_up_to_nearest_pow2\<close> returns the least power of two that is not below its
  argument for every argument from 1 to \<open>2 ^ 63\<close>, and the error for all others.
\<close>

theorem round_up_to_nearest_pow2_spec:
  assumes "v < usize_bound"
  shows "(1 \<le> v \<and> v \<le> 2 ^ 63 \<longrightarrow>
      (\<exists>n. round_up_to_nearest_pow2 v = Ok (2 ^ n) \<and> v \<le> 2 ^ n \<and> (\<forall>m. v \<le> 2 ^ m \<longrightarrow> n \<le> m))) \<and>
    (v = 0 \<or> 2 ^ 63 < v \<longrightarrow> round_up_to_nearest_pow2 v = Err ''Out of range'')"
proof (intro conjI impI)
  assume v: "1 \<le> v \<and> v \<le> 2 ^ 63"
  let ?n = "bit_length (v - 1)"
  have "?n \<le> m" if "v \<le> 2 ^ m" for m
    using that v bit_length_le_iff [of "v - 1" m] by linarith
  with v round_up_bounds [of v] assms
  show "\<exists>n. round_up_to_nearest_pow2 v = Ok (2 ^ n) \<and> v \<le> 2 ^ n \<and> (\<forall>m. v \<le> 2 ^ m \<longrightarrow> n \<le> m)"
    by (intro exI [of _ ?n]) (simp add: round_up_eq)
next
  assume "v = 0 \<or> 2 ^ 63 < v"
  with assms show "round_up_to_nearest_pow2 v = Err ''Out of range''" by (auto simp: round_up_eq)
qed

theorem round_up_to_nearest_pow2_spec_witness:
  "(\<exists>n. round_up_to_nearest_pow2 9 = Ok (2 ^ n) \<and> 9 \<le> (2::nat) ^ n \<and> (\<forall>m. 9 \<le> (2::nat) ^ m \<longrightarrow> n \<le> m)) \<and>
   round_up_to_nearest_pow2 0 = Err ''Out of range''"
  using round_up_to_nearest_pow2_spec [of 9] round_up_to_nearest_pow2_spec [of 0] by simp

section \<open>Carving a block\<close>

lemma layout_request:
  assumes "layout_ok sz0 align0" and "round_up_to_nearest_pow2 sz0 = Ok p"
  shows "\<exists>i k. max p HEADER_SIZE = 2 ^ i \<and> max align0 HEADER_SIZE = 2 ^ k \<and> 5 \<le> i \<and> 5 \<le> k \<and> k \<le> 63 \<and>
     sz0 \<le> max p HEADER_SIZE \<and> max p HEADER_SIZE + 64 + max align0 HEADER_SIZE < usize_bound"
proof -
  from assms(1) obtain k where k: "align0 = 2 ^ k" and sum: "sz0 + align0 \<le> 2 ^ 63"
    by (auto simp: layout_ok_def)
  then have bound: "sz0 < usize_bound" by simp
  with assms(2) have sz0: "1 \<le> sz0" and p: "p = 2 ^ bit_length (sz0 - 1)"
    by (auto simp: round_up_eq split: if_splits)
  have p_le: "sz0 \<le> p" "p < 2 * sz0" using round_up_bounds [OF sz0] p by auto
  have max5: "\<exists>j. max (2 ^ n) HEADER_SIZE = (2::nat) ^ j \<and> 5 \<le> j \<and> j = max n 5" for n
  proof -
    have "(2::nat) ^ n \<le> 2 ^ 5 \<longleftrightarrow> n \<le> 5" by (rule power_increasing_iff) simp
    then have "max (2 ^ n) ((2::nat) ^ 5) = 2 ^ max n 5" by (simp add: max_def)
    then show ?thesis by (simp add: HEADER_SIZE_def)
  qed
  have align: "align0 < 2 ^ 63" using sum sz0 by linarith
  then have "k < 63" using k power_less_imp_less_exp [of "2::nat" k 63] by simp
  moreover have "p \<le> 2 ^ 63"
  proof -
    have "sz0 - 1 < 2 ^ 63" using sum sz0 by linarith
    then have "bit_length (sz0 - 1) \<le> 63" by (simp only: bit_length_le_iff)
    then show ?thesis unfolding p by (intro power_increasing) auto
  qed
  moreover have "align0 \<le> 2 ^ 62"
    unfolding k using \<open>k < 63\<close> by (intro power_increasing) auto
  ultimately show ?thesis
    using max5 [of "bit_length (sz0 - 1)"] max5 [of k] p_le
    unfolding p [symmetric] k [symmetric] by (auto simp: HEADER_SIZE_def)
qed

text \<open>Where the allocated address lies in the block it is carved from.\<close>

lemma carve_bounds:
  fixes a s sz align :: nat
  assumes "sz + 64 + align \<le> s" and "0 < align"
  defines "p \<equiv> (a + s - sz) div align * align"
  shows "align dvd p" and "p \<le> a + s - sz" and "a + s - sz < p + align" and "a + 64 < p"
proof -
  show "align dvd p" by (simp add: p_def)
  show "p \<le> a + s - sz" by (simp add: p_def)
  have "a + s - sz = p + (a + s - sz) mod align" by (simp add: p_def)
  moreover have "(a + s - sz) mod align < align" using assms(2) by simp
  ultimately show "a + s - sz < p + align" by linarith
  with assms(1) show "a + 64 < p" by linarith
qed

lemma dvd32_pow: "5 \<le> k \<Longrightarrow> (32::nat) dvd 2 ^ k"
  using le_imp_power_dvd [of 5 k "2::nat"] by simp

lemma wf_blocks_append:
  "wf_blocks (xs @ ys) \<longleftrightarrow> wf_blocks xs \<and> wf_blocks ys \<and> (\<forall>x \<in> set xs. list_all (block_disjoint x) ys)"
  by (induction xs) (auto simp: list_all_iff)

lemma wf_carve:
  assumes wf: "wf_block (a, s, False)" and fit: "sz + 64 + align \<le> s"
    and pow: "sz = 2 ^ i" "5 \<le> i" "align = 2 ^ k" "5 \<le> k"
    and car: "carve sz align a s = (p, new)"
  shows "wf_blocks new" and "\<forall>(b, t, al) \<in> set new. a \<le> b \<and> b + t \<le> a + s"
    and "sum_list (map (fst \<circ> snd) new) = s"
proof -
  have pos: "0 < align" using pow by simp
  note b = carve_bounds [OF fit pos, of a]
  have p: "p = (a + s - sz) div align * align"
    and new: "new = (a, p - 32 - a, False) # (p - 32, sz + 32, True) #
          (if p + sz = a + s then [] else [(p + sz, a + s - (p + sz), False)])"
    using car by (auto simp: carve_def Let_def)
  have d: "32 dvd sz" "32 dvd p" "32 dvd a" "32 dvd s"
    using dvd32_pow [OF pow(2)] dvd32_pow [OF pow(4)] b(1) wf unfolding p pow
    by (auto intro: dvd_trans)
  have le: "p + sz \<le> a + s" "a + 64 < p" using b fit p by linarith+
  have pad: "32 \<le> a + s - (p + sz)" if "p + sz \<noteq> a + s"
    using that d le by (intro dvd_imp_le) auto
  have front: "32 \<le> p - 32 - a" using le by linarith
  show "wf_blocks new"
    unfolding new using wf d le pad front by auto
  show "\<forall>(b, t, al) \<in> set new. a \<le> b \<and> b + t \<le> a + s"
    unfolding new using le by auto
  show "sum_list (map (fst \<circ> snd) new) = s"
    unfolding new using le by auto
qed

lemma block_disjoint_inside:
  assumes "block_disjoint (a, s, al) c" and "a \<le> b" "b + t \<le> a + s"
  shows "block_disjoint (b, t, al') c"
  using assms by (cases c) auto

lemma first_fit_wf:
  assumes "wf_blocks bs" and "first_fit sz align bs = Some (p, bs')"
    and pow: "sz = 2 ^ i" "5 \<le> i" "align = 2 ^ k" "5 \<le> k"
  shows "wf_blocks bs' \<and> (\<forall>c. list_all (block_disjoint c) bs \<longrightarrow> list_all (block_disjoint c) bs')"
  using assms(1,2)
proof (induction bs arbitrary: bs')
  case (Cons x bs)
  obtain a s al where x: "x = (a, s, al)" by (cases x)
  show ?case
  proof (cases "\<not> al \<and> sz + 64 + align \<le> s")
    case True
    obtain new where car: "carve sz align a s = (p, new)" and bs': "bs' = new @ bs"
      using Cons.prems(2) True x by (auto split: prod.splits)
    note w = wf_carve [OF _ _ pow car]
    have "wf_blocks new" and ins: "\<forall>(b, t, al) \<in> set new. a \<le> b \<and> b + t \<le> a + s"
      using w Cons.prems(1) x True by auto
    moreover have "\<forall>y \<in> set new. list_all (block_disjoint y) bs"
      using ins Cons.prems(1) x by (fastforce simp: list_all_iff)
    moreover have "list_all (block_disjoint c) new" if "block_disjoint c x" for c
      using that ins x by (cases c) (fastforce simp: list_all_iff)
    ultimately show ?thesis
      using Cons.prems(1) bs' by (auto simp: wf_blocks_append)
  next
    case False
    then obtain bs1 where ff: "first_fit sz align bs = Some (p, bs1)" and bs': "bs' = x # bs1"
      using Cons.prems(2) x by auto
    from Cons.IH [OF _ ff] Cons.prems(1) bs' show ?thesis by (simp del: split_paired_All)
  qed
qed simp

section \<open>The pointer code refines the abstract heap\<close>

lemma provide_at_eq:
  assumes wf: "wf_block (a, hdr_size h, False)" and fit: "sz + 64 + align \<le> hdr_size h"
    and pow: "align = 2 ^ k" "k \<le> 63"
    and car: "p = (a + hdr_size h - sz) div align * align"
  shows "\<exists>m'. provide_at m a h sz align = Ok (Some p, m') \<and>
    m' a = Some (h\<lparr>hdr_size := p - 32 - a, next_header := Some (p - 32)\<rparr>) \<and>
    m' (p - 32) = Some (new_header\<lparr>is_allocated := True, hdr_size := sz + 32,
      next_header := (if p + sz = a + hdr_size h then next_header h else Some (p + sz))\<rparr>) \<and>
    (p + sz \<noteq> a + hdr_size h \<longrightarrow> m' (p + sz) = Some (new_header\<lparr>is_allocated := False,
      hdr_size := a + hdr_size h - (p + sz), next_header := next_header h\<rparr>)) \<and>
    (\<forall>x. x < a \<or> a + hdr_size h \<le> x \<longrightarrow> m' x = m x)"
proof -
  have pos: "0 < align" using pow by simp
  note b = carve_bounds [OF fit pos, of a, folded car]
  have bound: "a + hdr_size h < usize_bound" using wf by simp
  have le: "p + sz \<le> a + hdr_size h" "a + 64 < p" using b fit by linarith+
  have mask: "(a + hdr_size h - sz) AND not_usize (align - 1) = p"
    unfolding pow car using bound pow(2) by (intro and_not_usize_mask) linarith+
  have end2: "end_addr (p - 32) H = Ok (p + sz)" if "hdr_size H = sz + 32" for H
    using that le bound by (simp add: end_addr_def add_usize_def)
  have checks: "end_addr a h = Ok (a + hdr_size h)" "sub_usize (a + hdr_size h) sz = Ok (a + hdr_size h - sz)"
    "sub_usize align 1 = Ok (align - 1)" "sub_usize p 32 = Ok (p - 32)" "add_usize sz 32 = Ok (sz + 32)"
    using le bound fit pos by (auto simp: end_addr_def add_usize_def sub_usize_def)
  have apart: "p - 32 \<noteq> a" "a \<noteq> p - 32" "p + sz \<noteq> a" "p + sz \<noteq> p - 32" "a < p - 32" "p - 32 < a + hdr_size h"
    "\<not> p + sz < a"
    using le by linarith+
  show ?thesis
  proof (cases "p + sz = a + hdr_size h")
    case True
    have more: "add_usize (sz + 32) 32 = Ok (sz + 64)" "sub_usize (hdr_size h) (sz + 32) = Ok (p - 32 - a)"
      "sz + 64 \<le> hdr_size h"
      using True le fit bound by (auto simp: add_usize_def sub_usize_def)
    show ?thesis
      using True apart
      by (simp add: provide_at_def Let_def HEADER_SIZE_def new_from_addr_def checks mask end2 more
          del: One_nat_def rbind_eq_Ok)
  next
    case False
    define pad where "pad = a + hdr_size h - (p + sz)"
    then have diff: "a + hdr_size h - (p + sz) = pad" and pad: "a + hdr_size h = p + sz + pad"
      using le by linarith+
    have more: "sub_usize (a + hdr_size h) (p + sz) = Ok pad"
      "add_usize (sz + 32) pad = Ok (sz + 32 + pad)"
      "add_usize (sz + 32 + pad) 32 = Ok (sz + 64 + pad)" "sz + 64 + pad \<le> hdr_size h"
      "sub_usize (hdr_size h) (sz + 32 + pad) = Ok (p - 32 - a)"
      using le fit bound pad by (auto simp: add_usize_def sub_usize_def)
    have "p + sz < a + hdr_size h" using False le by linarith
    then show ?thesis
      using False apart
      by (simp add: provide_at_def Let_def HEADER_SIZE_def new_from_addr_def checks mask end2 more diff
          del: One_nat_def rbind_eq_Ok)
  qed
qed

lemma chain_frame:
  "(\<forall>x \<in> fst ` set bs. m' x = m x) \<Longrightarrow> chain m' p bs = chain m p bs"
proof (induction bs arbitrary: p)
  case (Cons b bs)
  obtain a s al where "b = (a, s, al)" by (cases b)
  with Cons show ?case by (auto split: option.splits)
qed simp

lemma chain_upd: "a \<notin> fst ` set bs \<Longrightarrow> chain (m(a := v)) p bs = chain m p bs"
  by (rule chain_frame) auto

lemma chain_unique: "chain m p bs \<Longrightarrow> chain m p cs \<Longrightarrow> bs = cs"
proof (induction bs arbitrary: p cs)
  case Nil
  then show ?case by (cases cs) auto
next
  case (Cons b bs)
  obtain a s al where b: "b = (a, s, al)" by (cases b)
  with Cons.prems obtain c cs' where cs: "cs = c # cs'" by (cases cs) auto
  obtain a' s' al' where "c = (a', s', al')" by (cases c)
  with Cons b cs show ?case by (auto split: option.splits)
qed

lemma wf_block_pos: "wf_block (a, s, al) \<Longrightarrow> 0 < s"
  by auto

lemma wf_blocks_in: "wf_blocks bs \<Longrightarrow> b \<in> set bs \<Longrightarrow> wf_block b"
  by (induction bs) auto

text \<open>Addresses of other blocks lie outside a block.\<close>

lemma outside_block:
  assumes "list_all (block_disjoint (a, s, al)) bs" and "wf_blocks bs" and "0 < s" and "x \<in> fst ` set bs"
  shows "x < a \<or> a + s \<le> x"
proof -
  from assms(4) obtain t al' where "(x, t, al') \<in> set bs" by auto
  with assms wf_blocks_in [OF assms(2)] show ?thesis by (fastforce simp: list_all_iff)
qed

lemma provide_refines:
  assumes wf: "wf_blocks ((a, s, al) # bs)" and ch: "chain m (Some a) ((a, s, al) # bs)"
    and h: "m a = Some h" and free: "\<not> al" and fit: "sz + 64 + align \<le> s"
    and pow: "align = 2 ^ k" "k \<le> 63" and car: "carve sz align a s = (p, new)"
  shows "\<exists>m'. provide_at m a h sz align = Ok (Some p, m') \<and> chain m' (Some a) (new @ bs) \<and>
    (\<forall>x. x < a \<or> a + s \<le> x \<longrightarrow> m' x = m x)"
proof -
  have s: "hdr_size h = s" and al: "is_allocated h = al" and rest: "chain m (next_header h) bs"
    using ch h by auto
  have wfb: "wf_block (a, hdr_size h, False)" using wf s by auto
  have p: "p = (a + hdr_size h - sz) div align * align"
    and new: "new = (a, p - 32 - a, False) # (p - 32, sz + 32, True) #
          (if p + sz = a + s then [] else [(p + sz, a + s - (p + sz), False)])"
    using car s by (auto simp: carve_def Let_def)
  obtain m' where pr: "provide_at m a h sz align = Ok (Some p, m')"
    and m1: "m' a = Some (h\<lparr>hdr_size := p - 32 - a, next_header := Some (p - 32)\<rparr>)"
    and m2: "m' (p - 32) = Some (new_header\<lparr>is_allocated := True, hdr_size := sz + 32,
      next_header := (if p + sz = a + s then next_header h else Some (p + sz))\<rparr>)"
    and m3: "p + sz \<noteq> a + s \<Longrightarrow> m' (p + sz) = Some (new_header\<lparr>is_allocated := False,
      hdr_size := a + s - (p + sz), next_header := next_header h\<rparr>)"
    and frame: "\<forall>x. x < a \<or> a + s \<le> x \<longrightarrow> m' x = m x"
    using provide_at_eq [OF wfb _ pow p, of m] fit s by auto
  have "\<forall>x \<in> fst ` set bs. m' x = m x"
    using frame outside_block [of a s al bs] wf wf_block_pos [of a s al] by auto
  then have "chain m' (next_header h) bs" using rest by (simp only: chain_frame)
  then have "chain m' (Some a) (new @ bs)"
    unfolding new using m1 m2 m3 free al by (simp add: new_header_def)
  with pr frame show ?thesis by blast
qed

text \<open>The size and the alignment that \<open>provide\<close> works with; \<open>None\<close> when the rounding fails.\<close>

definition request :: "usize \<Rightarrow> usize \<Rightarrow> (usize \<times> usize) option" where
  "request sz0 align0 =
     (case round_up_to_nearest_pow2 sz0 of
        Ok p \<Rightarrow> Some (max p HEADER_SIZE, max align0 HEADER_SIZE) | _ \<Rightarrow> None)"

definition spec_alloc :: "usize \<Rightarrow> usize \<Rightarrow> block list \<Rightarrow> (usize \<times> block list) option" where
  "spec_alloc sz0 align0 bs = Option.bind (request sz0 align0) (\<lambda>(sz, align). first_fit sz align bs)"

lemma round_up_no_panic: "round_up_to_nearest_pow2 v \<noteq> Panic e"
  by (cases "checked_shl_usize 1 (64 - leading_zeros_usize (wrapping_sub_usize v 1))")
     (simp_all add: round_up_to_nearest_pow2_def)

lemma request_None: "request sz0 align0 = None \<Longrightarrow> provide m a h sz0 align0 = Ok (None, m)"
  using round_up_no_panic [of sz0]
  by (auto simp: request_def provide_def split: result.splits)

lemma request_Some:
  assumes "layout_ok sz0 align0" and "request sz0 align0 = Some (sz, align)"
  shows "\<exists>i k. sz = 2 ^ i \<and> align = 2 ^ k \<and> 5 \<le> i \<and> 5 \<le> k \<and> k \<le> 63 \<and> sz0 \<le> sz \<and> align0 \<le> align \<and>
     sz + 64 + align < usize_bound"
    and "provide m a h sz0 align0 =
      (if \<not> is_allocated h \<and> sz + 64 + align \<le> hdr_size h then provide_at m a h sz align else Ok (None, m))"
proof -
  obtain p where p: "round_up_to_nearest_pow2 sz0 = Ok p"
    and sz: "sz = max p HEADER_SIZE" and align: "align = max align0 HEADER_SIZE"
    using assms(2) by (auto simp: request_def split: result.splits)
  note lr = layout_request [OF assms(1) p, folded sz align]
  then show "\<exists>i k. sz = 2 ^ i \<and> align = 2 ^ k \<and> 5 \<le> i \<and> 5 \<le> k \<and> k \<le> 63 \<and> sz0 \<le> sz \<and> align0 \<le> align \<and>
     sz + 64 + align < usize_bound"
    using align by auto
  from lr have "sz + 64 + align < usize_bound" by blast
  then show "provide m a h sz0 align0 =
      (if \<not> is_allocated h \<and> sz + 64 + align \<le> hdr_size h then provide_at m a h sz align else Ok (None, m))"
    using p by (simp add: provide_def Let_def can_provide_def add_usize_def HEADER_SIZE_def
        flip: sz [unfolded HEADER_SIZE_def] align [unfolded HEADER_SIZE_def])
qed

lemma alloc_loop_None:
  assumes "chain m p bs" and "request sz0 align0 = None"
  shows "alloc_loop m p sz0 align0 = Some (Ok (0, m))"
  using assms(1)
proof (induction bs arbitrary: p)
  case (Cons b bs)
  obtain a s al where "b = (a, s, al)" by (cases b)
  with Cons request_None [OF assms(2)] show ?case
    by (subst alloc_loop.simps) (auto split: option.splits)
qed (simp add: alloc_loop.simps)

lemma alloc_loop_refines:
  assumes "chain m p bs" and "wf_blocks bs" and lay: "layout_ok sz0 align0"
    and req: "request sz0 align0 = Some (sz, align)"
  shows "case first_fit sz align bs of
      None \<Rightarrow> alloc_loop m p sz0 align0 = Some (Ok (0, m))
    | Some (ptr, bs') \<Rightarrow> \<exists>m'. alloc_loop m p sz0 align0 = Some (Ok (ptr, m')) \<and> chain m' p bs' \<and>
        (\<forall>x. (\<forall>(b, t, al) \<in> set bs. x < b \<or> b + t \<le> x) \<longrightarrow> m' x = m x)"
  using assms(1,2)
proof (induction bs arbitrary: p)
  case Nil
  then show ?case by (simp add: alloc_loop.simps)
next
  case (Cons x bs)
  obtain a s al where x: "x = (a, s, al)" by (cases x)
  obtain h where p: "p = Some a" and h: "m a = Some h" "hdr_size h = s" "is_allocated h = al"
    and rest: "chain m (next_header h) bs"
    using Cons.prems(1) x by (auto split: option.splits)
  note loop = alloc_loop.simps [of m p sz0 align0]
  note r = request_Some [OF lay req]
  obtain k where pow: "align = 2 ^ k" "k \<le> 63" using r(1) by blast
  show ?case
  proof (cases "\<not> al \<and> sz + 64 + align \<le> s")
    case True
    obtain ptr new where car: "carve sz align a s = (ptr, new)" by (cases "carve sz align a s")
    obtain m' where m': "provide_at m a h sz align = Ok (Some ptr, m')" "chain m' (Some a) (new @ bs)"
      "\<forall>x. x < a \<or> a + s \<le> x \<longrightarrow> m' x = m x"
      using provide_refines [of a s al bs m h sz align k ptr new] Cons.prems x p h True pow car by blast
    with True h x p car r(2) [of m a h] loop show ?thesis by (auto intro!: exI [of _ m'])
  next
    case False
    have step: "alloc_loop m p sz0 align0 = alloc_loop m (next_header h) sz0 align0"
      using False h p r(2) [of m a h] loop by auto
    from Cons.IH [OF rest] Cons.prems(2)
    have IH: "case first_fit sz align bs of
        None \<Rightarrow> alloc_loop m (next_header h) sz0 align0 = Some (Ok (0, m))
      | Some (ptr, bs') \<Rightarrow> \<exists>m'. alloc_loop m (next_header h) sz0 align0 = Some (Ok (ptr, m')) \<and>
          chain m' (next_header h) bs' \<and>
          (\<forall>x. (\<forall>(b, t, al) \<in> set bs. x < b \<or> b + t \<le> x) \<longrightarrow> m' x = m x)"
      by simp
    have out: "\<forall>(b, t, al) \<in> set bs. a < b \<or> b + t \<le> a"
      using Cons.prems(2) x by (fastforce simp: list_all_iff)
    show ?thesis
    proof (cases "first_fit sz align bs")
      case None
      with IH step False x show ?thesis by auto
    next
      case (Some r')
      obtain ptr bs' where r': "r' = (ptr, bs')" by (cases r')
      from IH Some r' obtain m' where m': "alloc_loop m (next_header h) sz0 align0 = Some (Ok (ptr, m'))"
        "chain m' (next_header h) bs'" and fr: "\<forall>x. (\<forall>(b, t, al) \<in> set bs. x < b \<or> b + t \<le> x) \<longrightarrow> m' x = m x"
        by auto
      from fr out h have "m' a = Some h" by simp
      with m' fr step False x p h Some r' show ?thesis by (auto intro!: exI [of _ m'])
    qed
  qed
qed

section \<open>The invariant of the allocator\<close>

definition represents :: "FirstFitAllocator \<Rightarrow> block list \<Rightarrow> bool" where
  "represents st bs \<longleftrightarrow> chain (heap_mem st) (first_header st) bs \<and> wf_blocks bs"

lemma represents_unique: "represents st bs \<Longrightarrow> represents st cs \<Longrightarrow> bs = cs"
  by (auto simp: represents_def dest: chain_unique)

lemma alloc_refines:
  assumes "represents st bs" and "layout_ok sz align"
  shows "case spec_alloc sz align bs of
      None \<Rightarrow> alloc_with_options st sz align = Some (Ok (0, st))
    | Some (p, bs') \<Rightarrow> \<exists>st'. alloc_with_options st sz align = Some (Ok (p, st')) \<and> represents st' bs'"
proof (cases "request sz align")
  case None
  from assms(1) alloc_loop_None [OF _ None]
  have "alloc_loop (heap_mem st) (first_header st) sz align = Some (Ok (0, heap_mem st))"
    by (auto simp: represents_def)
  with None show ?thesis by (simp add: spec_alloc_def alloc_with_options_def)
next
  case (Some r)
  obtain s a where r: "r = (s, a)" by (cases r)
  have req: "request sz align = Some (s, a)" using Some r by simp
  obtain i k where pow: "s = 2 ^ i" "5 \<le> i" "a = 2 ^ k" "5 \<le> k"
    using request_Some(1) [OF assms(2) req] by blast
  from assms(1) have ch: "chain (heap_mem st) (first_header st) bs" and wf: "wf_blocks bs"
    by (auto simp: represents_def)
  note ref = alloc_loop_refines [OF ch wf assms(2) req]
  show ?thesis
  proof (cases "first_fit s a bs")
    case None
    with ref req show ?thesis by (simp add: spec_alloc_def alloc_with_options_def)
  next
    case (Some q)
    obtain p bs' where q: "q = (p, bs')" by (cases q)
    from ref Some q obtain m' where m': "alloc_loop (heap_mem st) (first_header st) sz align = Some (Ok (p, m'))"
      "chain m' (first_header st) bs'" by auto
    have "wf_blocks bs'" using first_fit_wf [OF wf _ pow] Some q by blast
    with m' Some q req show ?thesis
      by (auto simp: spec_alloc_def alloc_with_options_def represents_def)
  qed
qed

section \<open>Live regions\<close>

definition live_blocks :: "block list \<Rightarrow> (usize \<times> usize) set" where
  "live_blocks bs = {(a + HEADER_SIZE, s - HEADER_SIZE) | a s. (a, s, True) \<in> set bs}"

definition live :: "FirstFitAllocator \<Rightarrow> (usize \<times> usize) set" where
  "live st = \<Union> {live_blocks bs | bs. represents st bs}"

definition heap_inv :: "FirstFitAllocator \<Rightarrow> bool" where
  "heap_inv st \<longleftrightarrow> (\<exists>bs. represents st bs)"

lemma live_eq: "represents st bs \<Longrightarrow> live st = live_blocks bs"
  unfolding live_def using represents_unique by blast

lemma live_blocks_simps [simp]:
  "live_blocks [] = {}"
  "live_blocks ((a, s, True) # bs) = insert (a + 32, s - 32) (live_blocks bs)"
  "live_blocks ((a, s, False) # bs) = live_blocks bs"
  "live_blocks (xs @ ys) = live_blocks xs \<union> live_blocks ys"
  by (auto simp: live_blocks_def HEADER_SIZE_def)

lemma live_blocks_Cons: "live_blocks ((a, s, al) # bs) = (if al then {(a + 32, s - 32)} else {}) \<union> live_blocks bs"
  by (cases al) auto

lemma first_fit_place:
  assumes "first_fit sz align bs = Some (p, bs')" and "0 < align"
  shows "align dvd p \<and> 64 < p \<and> live_blocks bs' = insert (p, sz) (live_blocks bs) \<and>
    (\<exists>b t. (b, t, False) \<in> set bs \<and> b + 64 < p \<and> p + sz \<le> b + t)"
  using assms(1)
proof (induction bs arbitrary: bs')
  case (Cons x bs)
  obtain a s al where x: "x = (a, s, al)" by (cases x)
  show ?case
  proof (cases "\<not> al \<and> sz + 64 + align \<le> s")
    case True
    then have fit: "sz + 64 + align \<le> s" by simp
    note b = carve_bounds [OF fit assms(2), of a]
    from Cons.prems True x have p: "p = (a + s - sz) div align * align"
      and bs': "bs' = (a, p - 32 - a, False) # (p - 32, sz + 32, True) #
          (if p + sz = a + s then [] else [(p + sz, a + s - (p + sz), False)]) @ bs"
      by (auto simp: carve_def Let_def)
    have le: "p + sz \<le> a + s" "a + 64 < p" using b fit p by linarith+
    with b(1) p show ?thesis unfolding bs' using True x by (auto intro: exI [of _ a])
  next
    case False
    then obtain bs1 where ff: "first_fit sz align bs = Some (p, bs1)" and bs': "bs' = x # bs1"
      using Cons.prems x by auto
    from Cons.IH [OF ff] bs' x show ?thesis by (auto simp: live_blocks_Cons)
  qed
qed simp

lemma wf_blocks_disjoint:
  "wf_blocks bs \<Longrightarrow> x \<in> set bs \<Longrightarrow> y \<in> set bs \<Longrightarrow> x \<noteq> y \<Longrightarrow> block_disjoint x y"
proof (induction bs)
  case (Cons b bs)
  have sym: "block_disjoint u v \<Longrightarrow> block_disjoint v u" for u v by (cases u; cases v) auto
  from Cons show ?case by (auto simp: list_all_iff intro: sym)
qed simp

lemma first_fit_apart:
  assumes "wf_blocks bs" and "first_fit sz align bs = Some (p, bs')" and "0 < align"
    and "r \<in> live_blocks bs"
  shows "regions_apart (p, sz) r"
proof -
  obtain b t where f: "(b, t, False) \<in> set bs" "b + 64 < p" "p + sz \<le> b + t"
    using first_fit_place [OF assms(2,3)] by blast
  obtain a s where r: "r = (a + 32, s - 32)" "(a, s, True) \<in> set bs"
    using assms(4) by (auto simp: live_blocks_def HEADER_SIZE_def)
  have "block_disjoint (b, t, False) (a, s, True)"
    using wf_blocks_disjoint [OF assms(1) f(1) r(2)] by simp
  with f r wf_blocks_in [OF assms(1) r(2)] show ?thesis by (auto simp: regions_apart_def)
qed

lemma spec_alloc_fresh:
  assumes "wf_blocks bs" and "layout_ok sz align" and "spec_alloc sz align bs = Some (p, bs')"
  shows "p \<noteq> 0 \<and> align dvd p \<and> (\<exists>n \<ge> sz. live_blocks bs' = insert (p, n) (live_blocks bs) \<and>
    (\<forall>r \<in> live_blocks bs. regions_apart (p, n) r))"
proof -
  obtain n a where req: "request sz align = Some (n, a)" and ff: "first_fit n a bs = Some (p, bs')"
    using assms(3) by (auto simp: spec_alloc_def bind_eq_Some_conv)
  obtain k j where k: "a = 2 ^ k" "sz \<le> n" "align \<le> a" and j: "align = 2 ^ j"
    using request_Some(1) [OF assms(2) req] assms(2) by (auto simp: layout_ok_def)
  then have "(2::nat) ^ j \<le> 2 ^ k" by simp
  then have "j \<le> k" by (rule power_le_imp_le_exp [rotated]) simp
  then have dvd: "align dvd a" unfolding k j by (rule le_imp_power_dvd)
  have pos: "0 < a" using k by simp
  note pl = first_fit_place [OF ff pos]
  moreover have "align dvd p" using pl dvd by (meson dvd_trans)
  moreover have "\<forall>r \<in> live_blocks bs. regions_apart (p, n) r"
    using first_fit_apart [OF assms(1) ff pos] by blast
  ultimately show ?thesis using k(2) by auto
qed

section \<open>Freeing\<close>

definition free_block :: "usize \<Rightarrow> block list \<Rightarrow> block list" where
  "free_block a bs = map (\<lambda>(b, t, al). (b, t, al \<and> b \<noteq> a)) bs"

lemma free_block_simps [simp]:
  "free_block a [] = []"
  "free_block a ((b, t, al) # bs) = (b, t, al \<and> b \<noteq> a) # free_block a bs"
  by (simp_all add: free_block_def)

lemma free_block_disjoint: "list_all (block_disjoint c) (free_block a bs) = list_all (block_disjoint c) bs"
  by (induction bs) (auto simp: free_block_def, (cases c; auto)+)

lemma wf_free_block: "wf_blocks (free_block a bs) = wf_blocks bs"
proof (induction bs)
  case (Cons x bs)
  obtain b t al where x: "x = (b, t, al)" by (cases x)
  have "block_disjoint (b, t, al \<and> b \<noteq> a) y = block_disjoint (b, t, al) y" for y by (cases y) auto
  then have "list_all (block_disjoint (b, t, al \<and> b \<noteq> a)) bs = list_all (block_disjoint (b, t, al)) bs"
    by (simp add: list_all_iff)
  with Cons x show ?case by (simp add: free_block_disjoint)
qed simp

lemma chain_free:
  "chain m p bs \<Longrightarrow> m a = Some h \<Longrightarrow> chain (m(a \<mapsto> h\<lparr>is_allocated := False\<rparr>)) p (free_block a bs)"
proof (induction bs arbitrary: p)
  case (Cons x bs)
  obtain b t al where "x = (b, t, al)" by (cases x)
  with Cons show ?case by (auto split: option.splits)
qed simp

lemma chain_member: "chain m p bs \<Longrightarrow> (a, s, al) \<in> set bs \<Longrightarrow>
    \<exists>h. m a = Some h \<and> hdr_size h = s \<and> is_allocated h = al"
proof (induction bs arbitrary: p)
  case (Cons x bs)
  obtain b t al' where "x = (b, t, al')" by (cases x)
  with Cons show ?case by (auto split: option.splits)
qed simp

lemma wf_blocks_same_addr:
  "wf_blocks bs \<Longrightarrow> (a, s, al) \<in> set bs \<Longrightarrow> (a, t, al') \<in> set bs \<Longrightarrow> s = t \<and> al = al'"
  using wf_blocks_disjoint [of bs "(a, s, al)" "(a, t, al')"] wf_blocks_in [of bs] by fastforce

lemma free_block_True: "(b, t, True) \<in> set (free_block a bs) \<longleftrightarrow> (b, t, True) \<in> set bs \<and> b \<noteq> a"
  by (force simp: free_block_def)

lemma live_free_block:
  assumes "wf_blocks bs" and "(a, s, True) \<in> set bs"
  shows "live_blocks (free_block a bs) = live_blocks bs - {(a + 32, s - 32)}"
  using wf_blocks_same_addr [OF assms(1,2)]
  by (auto simp: live_blocks_def free_block_True HEADER_SIZE_def)

lemma dealloc_refines:
  assumes "represents st bs" and "(a, s, True) \<in> set bs"
  shows "\<exists>st'. dealloc st (a + HEADER_SIZE) = Ok st' \<and> represents st' (free_block a bs)"
proof -
  from assms(1) have ch: "chain (heap_mem st) (first_header st) bs" and wf: "wf_blocks bs"
    by (auto simp: represents_def)
  from chain_member [OF ch assms(2)] obtain h where h: "heap_mem st a = Some h" by blast
  from chain_free [OF ch h] wf show ?thesis
    using h by (simp add: dealloc_def sub_usize_def represents_def wf_free_block)
qed

section \<open>The heap contract\<close>

lemma heap_inv_alloc_cases:
  assumes "heap_inv st" and "layout_ok sz align"
  shows "\<exists>bs. represents st bs \<and>
    (spec_alloc sz align bs = None \<and> alloc_with_options st sz align = Some (Ok (0, st)) \<or>
     (\<exists>p bs' st'. spec_alloc sz align bs = Some (p, bs') \<and> p \<noteq> 0 \<and>
        alloc_with_options st sz align = Some (Ok (p, st')) \<and> represents st' bs'))"
proof -
  obtain bs where bs: "represents st bs" using assms(1) by (auto simp: heap_inv_def)
  then have wf: "wf_blocks bs" by (simp add: represents_def)
  from alloc_refines [OF bs assms(2)] bs show ?thesis
    by (cases "spec_alloc sz align bs") (auto dest: spec_alloc_fresh [OF wf assms(2)])
qed

interpretation first_fit_heap: heap_allocator alloc_with_options dealloc heap_inv live
proof
  fix st sz align
  assume inv: "heap_inv st" and lay: "layout_ok sz align"
  note cs = heap_inv_alloc_cases [OF inv lay]
  then show "\<exists>p st'. alloc_with_options st sz align = Some (Ok (p, st'))" by blast
  show "st' = st" if "alloc_with_options st sz align = Some (Ok (0, st'))" for st'
    using cs that by auto
  show "heap_inv st' \<and> align dvd p \<and> (\<exists>n \<ge> sz. live st' = insert (p, n) (live st) \<and>
      (\<forall>r \<in> live st. regions_apart (p, n) r))"
    if a: "alloc_with_options st sz align = Some (Ok (p, st'))" and "p \<noteq> 0" for p st'
  proof -
    from cs a \<open>p \<noteq> 0\<close> obtain bs bs' where r: "represents st bs" "represents st' bs'"
      and sp: "spec_alloc sz align bs = Some (p, bs')" by auto
    then have "wf_blocks bs" by (simp add: represents_def)
    from spec_alloc_fresh [OF this lay sp] r show ?thesis
      by (auto simp: live_eq heap_inv_def)
  qed
next
  fix st p n
  assume inv: "heap_inv st" and l: "(p, n) \<in> live st"
  then obtain bs where r: "represents st bs" by (auto simp: heap_inv_def)
  with l obtain a s where p: "p = a + HEADER_SIZE" "n = s - HEADER_SIZE" "(a, s, True) \<in> set bs"
    by (auto simp: live_eq live_blocks_def)
  from dealloc_refines [OF r p(3)] obtain st' where d: "dealloc st p = Ok st'" "represents st' (free_block a bs)"
    using p(1) by auto
  moreover have "live st' = live st - {(p, n)}"
    using d r p live_free_block [of bs a s] by (simp add: live_eq represents_def HEADER_SIZE_def)
  ultimately show "\<exists>st'. dealloc st p = Ok st' \<and> heap_inv st' \<and> live st' = live st - {(p, n)}"
    by (auto simp: heap_inv_def)
qed

section \<open>Initialisation from the memory map\<close>

text \<open>The free block a descriptor contributes; the page at address 0 is left out.\<close>

definition usable_region :: "EfiMemoryDescriptor \<Rightarrow> block option" where
  "usable_region d =
     (let lo = (if unat (physical_start d) = 0 then 4096 else unat (physical_start d));
          hi = unat (physical_start d) + unat (number_of_pages d) * 4096
      in if lo + 4096 < hi then Some (lo, hi - lo, False) else None)"

definition desc_ok :: "EfiMemoryDescriptor \<Rightarrow> bool" where
  "desc_ok d \<longleftrightarrow> 4096 dvd unat (physical_start d) \<and>
     unat (physical_start d) + unat (number_of_pages d) * 4096 < usize_bound"

fun regions_ok :: "block list \<Rightarrow> bool" where
  "regions_ok [] \<longleftrightarrow> True"
| "regions_ok (b # bs) \<longleftrightarrow> list_all (block_disjoint b) bs \<and> regions_ok bs"

definition free_regions :: "EfiMemoryDescriptor list \<Rightarrow> block list" where
  "free_regions es = List.map_filter usable_region (filter (\<lambda>e. memory_type e = CONVENTIONAL_MEMORY) es)"

lemma usable_region_wf:
  assumes "desc_ok d" and "usable_region d = Some b"
  shows "wf_block b"
proof -
  have "32 dvd n" if "4096 dvd n" for n :: nat
    using that by (rule dvd_trans [rotated]) simp
  then have "32 dvd unat (physical_start d)" "32 dvd unat (number_of_pages d) * 4096"
    using assms(1) by (auto simp: desc_ok_def)
  then show ?thesis using assms
    by (auto simp: usable_region_def desc_ok_def Let_def split: if_splits)
qed

lemma add_free_refines:
  assumes "represents st bs" and "desc_ok d"
  shows "\<exists>st'. add_free_from_descriptor st d = Ok st' \<and>
    (case usable_region d of None \<Rightarrow> st' = st
     | Some b \<Rightarrow> list_all (block_disjoint b) bs \<longrightarrow> represents st' (b # bs))"
proof -
  let ?sz = "unat (number_of_pages d) * 4096" and ?ph = "unat (physical_start d)"
  have bound: "?sz < usize_bound" using assms(2) by (simp add: desc_ok_def)
  show ?thesis
  proof (cases "usable_region d")
    case None
    then show ?thesis using bound
      by (auto simp: usable_region_def add_free_from_descriptor_def mul_usize_def Let_def
          unsigned_eq_0_iff split: if_splits)
  next
    case (Some b)
    let ?a = "if ?ph = 0 then 4096 else ?ph" and ?s = "if ?ph = 0 then ?sz - 4096 else ?sz"
    let ?st = "st\<lparr>first_header := Some ?a, heap_mem := (heap_mem st)(?a \<mapsto>
        new_header\<lparr>is_allocated := False, hdr_size := ?s, next_header := first_header st\<rparr>)\<rparr>"
    have b: "b = (?a, ?s, False)" and big: "4096 < ?s"
      using Some by (auto simp: usable_region_def Let_def unsigned_eq_0_iff split: if_splits)
    have wfb: "wf_block b" using usable_region_wf [OF assms(2) Some] .
    have "add_free_from_descriptor st d = Ok ?st"
      using bound big
      by (auto simp: add_free_from_descriptor_def mul_usize_def Let_def new_from_addr_def new_header_def)
    moreover have "represents ?st (b # bs)" if dis: "list_all (block_disjoint b) bs"
    proof -
      from assms(1) have ch: "chain (heap_mem st) (first_header st) bs" and wf: "wf_blocks bs"
        by (auto simp: represents_def)
      have "?a \<notin> fst ` set bs"
        using outside_block [OF dis [unfolded b] wf] big by fastforce
      then have "chain (heap_mem ?st) (first_header st) bs"
        using ch by (simp add: chain_upd)
      then show ?thesis using wf wfb dis b by (simp add: represents_def new_header_def)
    qed
    ultimately show ?thesis using Some by auto
  qed
qed

lemma add_free_all_refines:
  assumes "represents st bs" and "list_all desc_ok es" and "regions_ok (rev (free_regions es) @ bs)"
  shows "\<exists>st'. add_free_all st es = Ok st' \<and> represents st' (rev (free_regions es) @ bs)"
  using assms
proof (induction es arbitrary: st bs)
  case (Cons d es)
  have app: "regions_ok (xs @ ys) \<Longrightarrow> regions_ok ys" for xs ys by (induction xs) auto
  show ?case
  proof (cases "memory_type d = CONVENTIONAL_MEMORY")
    case True
    obtain st' where st': "add_free_from_descriptor st d = Ok st'"
      "case usable_region d of None \<Rightarrow> st' = st
       | Some b \<Rightarrow> list_all (block_disjoint b) bs \<longrightarrow> represents st' (b # bs)"
      using add_free_refines [OF Cons.prems(1)] Cons.prems(2) by auto
    show ?thesis
    proof (cases "usable_region d")
      case None
      then have "free_regions (d # es) = free_regions es"
        using True by (simp add: free_regions_def List.map_filter_simps)
      with Cons None st' True show ?thesis by simp
    next
      case (Some b)
      then have fr: "free_regions (d # es) = b # free_regions es"
        using True by (simp add: free_regions_def List.map_filter_simps)
      with Cons.prems(3) have ok: "regions_ok (rev (free_regions es) @ b # bs)" by simp
      from app [OF ok] have "list_all (block_disjoint b) bs" by simp
      with st'(2) Some have "represents st' (b # bs)" by simp
      from Cons.IH [OF this] Cons.prems(2) ok fr st'(1) True show ?thesis by simp
    qed
  next
    case False
    then have "free_regions (d # es) = free_regions es" by (simp add: free_regions_def)
    with Cons False show ?thesis by simp
  qed
qed (simp add: free_regions_def List.map_filter_simps)

lemma represents_init: "represents ALLOCATOR_init []"
  by (simp add: represents_def ALLOCATOR_init_def)

section \<open>Properties\<close>

lemma first_fit_None_iff:
  "first_fit sz align bs = None \<longleftrightarrow> (\<forall>(a, s, al) \<in> set bs. al \<or> s < sz + 64 + align)"
  by (induction sz align bs rule: first_fit.induct) (auto split: prod.splits)

lemma first_fit_total:
  assumes "first_fit sz align bs = Some (p, bs')" and "wf_blocks bs"
    and "sz = 2 ^ i" "5 \<le> i" "align = 2 ^ k" "5 \<le> k"
  shows "sum_list (map (fst \<circ> snd) bs') = sum_list (map (fst \<circ> snd) bs)"
  using assms(1,2)
proof (induction bs arbitrary: bs')
  case (Cons x bs)
  obtain a s al where x: "x = (a, s, al)" by (cases x)
  show ?case
  proof (cases "\<not> al \<and> sz + 64 + align \<le> s")
    case True
    obtain new where car: "carve sz align a s = (p, new)" and bs': "bs' = new @ bs"
      using Cons.prems(1) True x by (auto split: prod.splits)
    from wf_carve(3) [OF _ _ assms(3-6) car] Cons.prems(2) True x bs' show ?thesis by (auto simp: comp_def)
  next
    case False
    with Cons x show ?thesis by auto
  qed
qed simp

text \<open>A heap of one free block of 64 KiB at 1 MiB, for the witnesses.\<close>

definition example_heap :: FirstFitAllocator where
  "example_heap = \<lparr>first_header = Some 0x100000,
     heap_mem = [0x100000 \<mapsto> new_header\<lparr>hdr_size := 0x10000\<rparr>]\<rparr>"

lemma example_heap_represents: "represents example_heap [(0x100000, 0x10000, False)]"
  by (simp add: represents_def example_heap_def new_header_def)

lemma layout_ok_pow: "align = 2 ^ k \<Longrightarrow> sz + align \<le> 2 ^ 63 \<Longrightarrow> layout_ok sz align"
  by (auto simp: layout_ok_def)

lemma example_request: "request 100 64 = Some (128, 64)"
  by (simp add: request_def round_up_eq bit_length.simps HEADER_SIZE_def)

lemma example_spec_alloc: "spec_alloc 100 64 [(0x100000, 0x10000, False)] =
   Some (0x10FF80, [(0x100000, 0xFF60, False), (0x10FF60, 160, True)])"
  by (simp add: spec_alloc_def example_request carve_def)

text \<open>
  C10. For every valid layout, \<open>alloc_with_options\<close> returns without a panic and does what first
  fit does on the list of blocks that the chain of headers represents: the null pointer and
  an unchanged heap when no block fits, and otherwise the address carved off the end of the
  first fitting block and a chain that represents the carved list.
\<close>

theorem alloc_with_options_refines_first_fit:
  assumes "represents st bs" and "layout_ok sz align"
  shows "case spec_alloc sz align bs of
      None \<Rightarrow> alloc_with_options st sz align = Some (Ok (0, st))
    | Some (p, bs') \<Rightarrow> \<exists>st'. alloc_with_options st sz align = Some (Ok (p, st')) \<and> represents st' bs'"
  using assms by (rule alloc_refines)

theorem alloc_with_options_refines_first_fit_witness:
  "\<exists>st'. alloc_with_options example_heap 100 64 = Some (Ok (0x10FF80, st')) \<and>
     represents st' [(0x100000, 0xFF60, False), (0x10FF60, 160, True)]"
  using alloc_with_options_refines_first_fit [OF example_heap_represents, of 100 64]
    layout_ok_pow [of 64 6 100]
  by (simp add: example_spec_alloc)

text \<open>
  C11. Whatever list of valid layouts a client asks for, every request returns, every non-null
  pointer has the alignment asked for, and no two of the regions handed out overlap.
\<close>

theorem alloc_all_no_overlap:
  assumes "heap_inv st" and "\<forall>(sz, align) \<in> set ls. layout_ok sz align"
  shows "\<exists>ps st'. alloc_all alloc_with_options st ls = Some (Ok (ps, st')) \<and> heap_inv st' \<and> answers ls ps"
  using assms by (rule first_fit_heap.alloc_all_answers)

theorem alloc_all_no_overlap_witness:
  "\<exists>ps st'. alloc_all alloc_with_options example_heap [(128, 128), (3, 64), (6000, 64)] =
     Some (Ok (ps, st')) \<and> heap_inv st' \<and> answers [(128, 128), (3, 64), (6000, 64)] ps"
  using example_heap_represents layout_ok_pow [of 128 7 128] layout_ok_pow [of 64 6 3]
    layout_ok_pow [of 64 6 6000]
  by (intro alloc_all_no_overlap) (auto simp: heap_inv_def)

text \<open>
  An allocation returns null exactly when the size has no power of two in range or no free
  block holds the rounded size, two headers and the alignment.
\<close>

theorem alloc_null_iff:
  assumes "represents st bs" and "layout_ok sz align"
  shows "alloc_with_options st sz align = Some (Ok (0, st)) \<longleftrightarrow>
    (case request sz align of None \<Rightarrow> True
     | Some (n, a) \<Rightarrow> \<forall>(b, s, al) \<in> set bs. al \<or> s < n + 64 + a)"
proof -
  from assms(1) have wf: "wf_blocks bs" by (simp add: represents_def)
  have "spec_alloc sz align bs = None \<longleftrightarrow> (case request sz align of None \<Rightarrow> True
     | Some (n, a) \<Rightarrow> \<forall>(b, s, al) \<in> set bs. al \<or> s < n + 64 + a)"
    by (auto simp: spec_alloc_def first_fit_None_iff split: option.splits)
  with alloc_refines [OF assms] spec_alloc_fresh [OF wf assms(2)] show ?thesis
    by (cases "spec_alloc sz align bs") auto
qed

theorem alloc_null_iff_witness:
  "alloc_with_options example_heap 100 64 \<noteq> Some (Ok (0, example_heap)) \<and>
   alloc_with_options example_heap 0x10000 1 = Some (Ok (0, example_heap))"
  using alloc_null_iff [OF example_heap_represents, of 100 64] layout_ok_pow [of 64 6 100]
    alloc_null_iff [OF example_heap_represents, of "0x10000" 1] layout_ok_pow [of 1 0 "0x10000"]
  by (simp add: example_request request_def [of "0x10000"] round_up_eq bit_length.simps HEADER_SIZE_def)

text \<open>
  C15. Giving a live region back returns, keeps the invariant and removes exactly that region
  from the live ones.
\<close>

theorem dealloc_live:
  assumes "heap_inv st" and "(p, n) \<in> live st"
  shows "\<exists>st'. dealloc st p = Ok st' \<and> heap_inv st' \<and> live st' = live st - {(p, n)}"
  using assms by (rule first_fit_heap.free_live)

definition example_heap_used :: FirstFitAllocator where
  "example_heap_used = \<lparr>first_header = Some 0x100000,
     heap_mem = [0x100000 \<mapsto> new_header\<lparr>hdr_size := 0xFF60, next_header := Some 0x10FF60\<rparr>,
                 0x10FF60 \<mapsto> new_header\<lparr>hdr_size := 160, is_allocated := True\<rparr>]\<rparr>"

lemma example_heap_used_represents:
  "represents example_heap_used [(0x100000, 0xFF60, False), (0x10FF60, 160, True)]"
  by (simp add: represents_def example_heap_used_def new_header_def)

theorem dealloc_live_witness:
  "\<exists>st'. dealloc example_heap_used 0x10FF80 = Ok st' \<and> heap_inv st' \<and> live st' = {}"
  using dealloc_live [of example_heap_used "0x10FF80" 128] example_heap_used_represents
  by (auto simp: live_eq [OF example_heap_used_represents] heap_inv_def)

text \<open>
  No byte of the heap is lost or gained: the blocks after an allocation have the same
  total size as the blocks before it.
\<close>

theorem alloc_conserves_bytes:
  assumes "represents st bs" and "layout_ok sz align" and "alloc_with_options st sz align = Some (Ok (p, st'))"
  shows "\<exists>bs'. represents st' bs' \<and> sum_list (map (fst \<circ> snd) bs') = sum_list (map (fst \<circ> snd) bs)"
proof (cases "spec_alloc sz align bs")
  case None
  with alloc_refines [OF assms(1,2)] assms(1,3) show ?thesis by auto
next
  case (Some r)
  obtain q bs' where r: "r = (q, bs')" by (cases r)
  from Some r obtain n a where req: "request sz align = Some (n, a)" and ff: "first_fit n a bs = Some (q, bs')"
    by (auto simp: spec_alloc_def bind_eq_Some_conv)
  obtain i k where pow: "n = 2 ^ i" "5 \<le> i" "a = 2 ^ k" "5 \<le> k"
    using request_Some(1) [OF assms(2) req] by blast
  have "wf_blocks bs" using assms(1) by (simp add: represents_def)
  from first_fit_total [OF ff this pow] alloc_refines [OF assms(1,2)] assms(3) Some r
  show ?thesis by auto
qed

theorem alloc_conserves_bytes_witness:
  "\<exists>p st' bs'. alloc_with_options example_heap 100 64 = Some (Ok (p, st')) \<and> represents st' bs' \<and>
     sum_list (map (fst \<circ> snd) bs') = 0x10000"
proof -
  have lay: "layout_ok 100 64" using layout_ok_pow [of 64 6 100] by simp
  obtain st' where "alloc_with_options example_heap 100 64 = Some (Ok (0x10FF80, st'))"
    using alloc_refines [OF example_heap_represents lay] by (auto simp: example_spec_alloc)
  with alloc_conserves_bytes [OF example_heap_represents lay this] show ?thesis by auto
qed

text \<open>
  A block that has been given back never serves the size it was carved for again: first
  fit asks for one header and the alignment more than the block has.
\<close>

theorem freed_block_not_reused:
  assumes "layout_ok sz align" and "request sz align = Some (n, a)" and "hdr_size h = n + HEADER_SIZE"
  shows "provide m addr h sz align = Ok (None, m)"
  using request_Some(2) [OF assms(1,2), of m addr h] assms(3) by (simp add: HEADER_SIZE_def)

theorem freed_block_not_reused_witness:
  "provide Map.empty 0x10FF60 (new_header\<lparr>hdr_size := 160\<rparr>) 100 64 = Ok (None, Map.empty)"
  using freed_block_not_reused [of 100 64 128 64 "new_header\<lparr>hdr_size := 160\<rparr>"] layout_ok_pow [of 64 6 100]
  by (simp add: example_request HEADER_SIZE_def)

text \<open>
  C12. From a memory map whose conventional regions are page-aligned, below \<open>2 ^ 64\<close> and
  apart, \<open>init_with_mmap\<close> builds without a panic a heap that represents exactly those regions of
  more than one page (the page at address 0 left out), all free, the last one first.
\<close>

theorem init_with_mmap_establishes_heap:
  assumes "memory_map_iter mmap = Some (Ok es)" and "list_all desc_ok es" and "regions_ok (rev (free_regions es))"
  shows "\<exists>st. init_with_mmap ALLOCATOR_init mmap = Some (Ok st) \<and> represents st (rev (free_regions es))"
  using add_free_all_refines [OF represents_init assms(2)] assms(1,3) by (simp add: init_with_mmap_def)

definition one_entry_map :: MemoryMapHolder where
  "one_entry_map = \<lparr>memory_map_buffer = encode_descriptor example_descriptor,
     memory_map_size = 40, map_key = 7, descriptor_size = 40, descriptor_version = 1\<rparr>"

lemma one_entry_map_iter: "memory_map_iter one_entry_map = Some (Ok [example_descriptor])"
  using iter_from_entries [of one_entry_map "[]" "[(example_descriptor, [])]" "[]"]
  by (simp add: memory_map_iter_def one_entry_map_def)

theorem init_with_mmap_establishes_heap_witness:
  "\<exists>st. init_with_mmap ALLOCATOR_init one_entry_map = Some (Ok st) \<and> represents st [(0x100000, 0x10000, False)]"
proof -
  have "free_regions [example_descriptor] = [(0x100000, 0x10000, False)]" "list_all desc_ok [example_descriptor]"
    by (simp_all add: free_regions_def List.map_filter_simps usable_region_def example_descriptor_def desc_ok_def)
  with init_with_mmap_establishes_heap [OF one_entry_map_iter] show ?thesis by simp
qed

end
