(* ===== verification/HeapBox.thy ===== *)
theory HeapBox
  imports Allocator
begin

text \<open>
  Boxes on the kernel's heap: \<open>Box::new\<close>, \<open>Box::pin\<close> and \<open>Box::from\<close> of a slice ask the global allocator
  for a region of the value's size and alignment and call the allocation error handler, which
  panics, when they get the null pointer. The lemmas say what a sequence of boxes leaves: the heap
  invariant, the regions that were live, and new regions apart from all of them; and that it
  succeeds when the first block of the heap is large enough.
\<close>

type_synonym 'a on_heap = "FirstFitAllocator \<Rightarrow> ('a result \<times> FirstFitAllocator) option"

definition heap_box :: "usize \<Rightarrow> usize \<Rightarrow> usize on_heap" where
  "heap_box sz align h =
     Option.bind (alloc_with_options h sz align) (\<lambda>r. Some (case r of
         Ok (p, h') \<Rightarrow> if p = 0 then (Panic ''memory allocation failed'', h) else (Ok p, h')
       | Err e \<Rightarrow> (Err e, h)
       | Panic e \<Rightarrow> (Panic e, h)))"

text \<open>\<open>Layout::from_size_align\<close>.\<close>

definition is_pow2 :: "nat \<Rightarrow> bool" where
  "is_pow2 n \<longleftrightarrow> n \<noteq> 0 \<and> n AND (n - 1) = 0"

definition layout_from_size_align :: "usize \<Rightarrow> usize \<Rightarrow> string \<Rightarrow> (usize \<times> usize) result" where
  "layout_from_size_align sz align e = (if is_pow2 align \<and> sz \<le> 2 ^ 63 - align then Ok (sz, align) else Err e)"

section \<open>What allocating code leaves\<close>

text \<open>
  Code that allocates returns, keeps the heap invariant and the live regions, and either runs out
  of memory or ends with a value that satisfies \<open>Q\<close>.
\<close>

definition allocates :: "('a result \<times> FirstFitAllocator) option \<Rightarrow> FirstFitAllocator \<Rightarrow> ('a \<Rightarrow> FirstFitAllocator \<Rightarrow> bool) \<Rightarrow> bool" where
  "allocates m h Q \<longleftrightarrow> (\<exists>r h'. m = Some (r, h') \<and> heap_inv h' \<and> live h \<subseteq> live h' \<and>
     (case r of Ok x \<Rightarrow> Q x h' | Err e \<Rightarrow> False | Panic e \<Rightarrow> e = ''memory allocation failed''))"

lemma allocates_bind:
  assumes "allocates m h R" and "\<And>x h'. heap_inv h' \<Longrightarrow> live h \<subseteq> live h' \<Longrightarrow> R x h' \<Longrightarrow> allocates (f x h') h' Q"
  shows "allocates (sbind m f) h Q"
proof -
  obtain r h1 where m: "m = Some (r, h1)" "heap_inv h1" "live h \<subseteq> live h1"
    and r: "case r of Ok x \<Rightarrow> R x h1 | Err e \<Rightarrow> False | Panic e \<Rightarrow> e = ''memory allocation failed''"
    using assms(1) by (auto simp: allocates_def)
  show ?thesis
  proof (cases r)
    case (Ok x)
    with assms(2) [OF m(2,3), of x] r have "allocates (f x h1) h1 Q" by simp
    with m(1,3) Ok show ?thesis by (fastforce simp: allocates_def)
  qed (use m r in \<open>auto simp: allocates_def\<close>)
qed

lemma allocates_Ok: "heap_inv h \<Longrightarrow> Q x h \<Longrightarrow> allocates (Some (Ok x, h)) h Q"
  by (simp add: allocates_def)

lemma allocates_weaken: "allocates m h Q \<Longrightarrow> (\<And>x h'. Q x h' \<Longrightarrow> Q' x h') \<Longrightarrow> allocates m h Q'"
  unfolding allocates_def by (fastforce split: result.splits)

text \<open>A region that is handed out, and apart from the regions that were live before it.\<close>

definition new_region :: "FirstFitAllocator \<Rightarrow> usize \<times> usize \<Rightarrow> FirstFitAllocator \<Rightarrow> bool" where
  "new_region h r h' \<longleftrightarrow> (\<exists>n \<ge> snd r. (fst r, n) \<in> live h') \<and> (\<forall>q \<in> live h. regions_apart r q)"

lemma new_region_later: "new_region h r h1 \<Longrightarrow> live h1 \<subseteq> live h2 \<Longrightarrow> new_region h r h2"
  by (auto simp: new_region_def)

lemma new_region_earlier: "new_region h1 r h2 \<Longrightarrow> live h \<subseteq> live h1 \<Longrightarrow> new_region h r h2"
  by (auto simp: new_region_def)

lemma new_region_apart: "new_region h r h1 \<Longrightarrow> new_region h1 q h2 \<Longrightarrow> regions_apart r q"
  by (auto simp: new_region_def regions_apart_def)

lemma heap_box_allocates:
  assumes "heap_inv h" and "layout_ok sz align"
  shows "allocates (heap_box sz align h) h (\<lambda>p h'. p \<noteq> 0 \<and> align dvd p \<and> new_region h (p, sz) h')"
proof -
  from first_fit_heap.alloc_step [OF assms] obtain p h' where
    a: "alloc_with_options h sz align = Some (Ok (p, h'))" "heap_inv h'" "live h \<subseteq> live h'"
    and new: "p \<noteq> 0 \<Longrightarrow> align dvd p \<and> (\<exists>n \<ge> sz. (p, n) \<in> live h' \<and> (\<forall>r \<in> live h. regions_apart (p, n) r))" by blast
  show ?thesis
  proof (cases "p = 0")
    case False
    with new obtain n where "align dvd p" "sz \<le> n" "(p, n) \<in> live h'" "\<forall>r \<in> live h. regions_apart (p, n) r" by blast
    then have "new_region h (p, sz) h'" by (fastforce simp: new_region_def regions_apart_def)
    with False a \<open>align dvd p\<close> show ?thesis by (simp add: allocates_def heap_box_def)
  qed (use a assms(1) in \<open>simp add: allocates_def heap_box_def\<close>)
qed

section \<open>Room in the first block\<close>

text \<open>The first block of the heap is free and has at least \<open>n\<close> bytes.\<close>

definition roomy :: "FirstFitAllocator \<Rightarrow> nat \<Rightarrow> bool" where
  "roomy h n \<longleftrightarrow> (\<exists>a s bs. represents h ((a, s, False) # bs) \<and> n \<le> s)"

lemma roomy_mono: "roomy h n \<Longrightarrow> m \<le> n \<Longrightarrow> roomy h m"
  by (fastforce simp: roomy_def)

lemma roomy_heap_inv: "roomy h n \<Longrightarrow> heap_inv h"
  by (auto simp: roomy_def heap_inv_def)

text \<open>
  An allocation served by the first block takes the region off its end: the new end of the
  block is the header of the region.
\<close>

lemma alloc_first_block:
  assumes rep: "represents h ((a, s, False) # bs)" and lay: "layout_ok sz align"
    and req: "request sz align = Some (n, al)" and fit: "n + 64 + al \<le> s"
  shows "\<exists>p h' bs'. alloc_with_options h sz align = Some (Ok (p, h')) \<and> p = (a + s - n) div al * al \<and>
    represents h' ((a, p - 32 - a, False) # bs') \<and> s - n - al - 32 \<le> p - 32 - a \<and> a + 64 < p"
proof -
  obtain k where "al = 2 ^ k" using request_Some(1) [OF lay req] by blast
  then have pos: "0 < al" by simp
  obtain p rest where c: "carve n al a s = (p, (a, p - 32 - a, False) # rest)" and p: "p = (a + s - n) div al * al"
    by (simp add: carve_def Let_def)
  note b = carve_bounds [OF fit pos, of a, folded p]
  have "spec_alloc sz align ((a, s, False) # bs) = Some (p, (a, p - 32 - a, False) # rest @ bs)"
    using fit c by (simp add: spec_alloc_def req)
  with alloc_refines [OF rep lay] obtain h' where
    "alloc_with_options h sz align = Some (Ok (p, h'))" "represents h' ((a, p - 32 - a, False) # rest @ bs)" by auto
  moreover have "s - n - al - 32 \<le> p - 32 - a" using b(3,4) fit by linarith
  ultimately show ?thesis using p b(4) by blast
qed

lemma heap_box_roomy:
  assumes "roomy h (n + al + 64 + m)" and "layout_ok sz align" and "request sz align = Some (n, al)"
  shows "\<exists>p h'. heap_box sz align h = Some (Ok p, h') \<and> roomy h' m"
proof -
  obtain a s bs where rep: "represents h ((a, s, False) # bs)" and s: "n + al + 64 + m \<le> s"
    using assms(1) by (auto simp: roomy_def)
  with alloc_first_block [OF rep assms(2,3)] obtain p h' bs' where
    a: "alloc_with_options h sz align = Some (Ok (p, h'))" "represents h' ((a, p - 32 - a, False) # bs')"
      "s - n - al - 32 \<le> p - 32 - a" "a + 64 < p" by auto
  then have "roomy h' m" using s by (force simp: roomy_def)
  with a(1,4) show ?thesis by (simp add: heap_box_def)
qed

lemma is_pow2_exp: "is_pow2 (2 ^ k)"
proof -
  have "(2 :: nat) ^ k AND mask k = 0"
    by (rule bit_eqI) (simp add: bit_and_iff bit_exp_iff bit_mask_iff)
  then have "(2 :: nat) ^ k AND (2 ^ k - 1) = 0" by (simp only: mask_eq_exp_minus_1)
  then show ?thesis by (simp add: is_pow2_def)
qed

lemma round_up_exp: "k \<le> 63 \<Longrightarrow> round_up_to_nearest_pow2 (2 ^ k) = Ok (2 ^ k)"
proof -
  assume k: "k \<le> 63"
  have "bit_length (2 ^ k - 1) \<le> k" by (simp add: bit_length_le_iff)
  moreover have "k \<le> bit_length (2 ^ k - 1)"
  proof (rule ccontr)
    assume "\<not> k \<le> bit_length (2 ^ k - 1)"
    then obtain j where "k = Suc j" "bit_length (2 ^ k - 1) \<le> j" by (cases k) auto
    then have "2 ^ k - 1 < (2 :: nat) ^ j" "(2 :: nat) ^ k = 2 * 2 ^ j" by (simp_all add: bit_length_le_iff)
    moreover have "1 \<le> (2 :: nat) ^ j" by simp
    ultimately show False by linarith
  qed
  moreover have "(2::nat) ^ k \<le> 2 ^ 63" using k by (intro power_increasing) simp_all
  ultimately show ?thesis by (simp add: round_up_eq)
qed

text \<open>The first block is free; what an allocation that it serves leaves of it.\<close>

definition first_block :: "FirstFitAllocator \<Rightarrow> usize \<Rightarrow> usize \<Rightarrow> bool" where
  "first_block h a s \<longleftrightarrow> (\<exists>bs. represents h ((a, s, False) # bs))"

text \<open>\<open>leaves a s h h'\<close>: the heap \<open>h'\<close> has a first block of size \<open>s\<close> at \<open>a\<close>, and nothing that was live in \<open>h\<close> is lost.\<close>

definition leaves :: "usize \<Rightarrow> usize \<Rightarrow> FirstFitAllocator \<Rightarrow> FirstFitAllocator \<Rightarrow> bool" where
  "leaves a s h h' \<longleftrightarrow> first_block h' a s \<and> live h \<subseteq> live h'"

lemma leavesI: "first_block h' a s \<Longrightarrow> live h \<subseteq> live h' \<Longrightarrow> leaves a s h h'"
  by (simp add: leaves_def)

lemma leaves_trans: "leaves a s h h1 \<Longrightarrow> leaves a t h1 h2 \<Longrightarrow> leaves a t h h2"
  by (auto simp: leaves_def)

lemma leavesD: "leaves a s h h' \<Longrightarrow> first_block h' a s"
  by (simp add: leaves_def)

lemma first_block_inv: "first_block h a s \<Longrightarrow> heap_inv h"
  by (auto simp: first_block_def heap_inv_def)

lemma alloc_in_first_block:
  assumes "first_block h a s" and "layout_ok sz align" and "request sz align = Some (n, al)" and "n + 64 + al \<le> s"
  shows "\<exists>p h'. alloc_with_options h sz align = Some (Ok (p, h')) \<and> p = (a + s - n) div al * al \<and> p \<noteq> 0 \<and>
    leaves a (p - 32 - a) h h' \<and> s - n - al - 32 \<le> p - 32 - a \<and> a + 64 < p \<and> p + n \<le> a + s"
proof -
  obtain bs where "represents h ((a, s, False) # bs)" using assms(1) by (auto simp: first_block_def)
  from alloc_first_block [OF this assms(2-4)] obtain p h' bs' where
    a: "alloc_with_options h sz align = Some (Ok (p, h'))" "p = (a + s - n) div al * al"
    "represents h' ((a, p - 32 - a, False) # bs')" "s - n - al - 32 \<le> p - 32 - a" "a + 64 < p" by blast
  moreover have "first_block h' a (p - 32 - a)" unfolding first_block_def using a(3) by blast
  moreover have "live h \<subseteq> live h'" using first_fit_heap.alloc_step [OF first_block_inv [OF assms(1)] assms(2)] a(1) by auto
  moreover have "p \<le> a + s - n" using a(2) by simp
  then have "p + n \<le> a + s" using assms(4) by linarith
  ultimately show ?thesis using leavesI by (metis add_is_0 less_nat_zero_code)
qed

end
