(* ===== verification/BitFields.thy ===== *)
theory BitFields
  imports Prelude
begin

text \<open>
  \<open>bits.rs\<close> and \<open>volatile.rs\<close>: extraction of a bit range from an integer, and the bit-field
  accessors \<open>write_bits\<close> and \<open>read_bits\<close> of a \<open>Volatile<T>\<close> cell. The cell is the word it
  holds; \<open>write_bits\<close> returns its new content, and leaves it as it is on an error. The word
  length stands for the type parameter \<open>T\<close> (\<open>u8\<close>, \<open>u16\<close>, \<open>u32\<close>, \<open>u64\<close>).
\<close>

section \<open>Definitions\<close>

definition extract_bits :: "'a::len word \<Rightarrow> usize \<Rightarrow> usize \<Rightarrow> 'a word" where
  "extract_bits val shift width =
     (let msk = push_bit (min 63 width) (1::u64) - 1;
          v = (ucast val :: u64);
          s = shift mod 2 ^ 32;
          v' = (if s < 64 then drop_bit s v else 0) AND msk
      in if unat v' < 2 ^ LENGTH('a) then ucast v' else 0)"

definition write_bits :: "'a::len word \<Rightarrow> usize \<Rightarrow> usize \<Rightarrow> 'a word \<Rightarrow> 'a word result" where
  "write_bits cell shift width val =
     rbind (rbind (shl_word 1 width) (\<lambda>m. sub_word m 1)) (\<lambda>msk.
       if msk AND val \<noteq> val then Err ''Value out of range''
       else rbind (shl_word msk shift) (\<lambda>msk'.
            rbind (shl_word val shift) (\<lambda>val'.
              Ok (val' OR (cell AND NOT msk')))))"

definition read_bits :: "'a::len word \<Rightarrow> usize \<Rightarrow> usize \<Rightarrow> 'a word result" where
  "read_bits cell shift width =
     rbind (rbind (shl_word 1 width) (\<lambda>m. sub_word m 1)) (\<lambda>msk.
     rbind (shr_word cell shift) (\<lambda>v. Ok (v AND msk)))"

text \<open>
  What the accessors compute when no shift overflows: the field \<open>[shift, shift + width)\<close> of
  a word replaced, and the field read. They are the reference the code is compared with.
\<close>

definition set_field :: "'a::len word \<Rightarrow> nat \<Rightarrow> nat \<Rightarrow> 'a word \<Rightarrow> 'a word" where
  "set_field cell shift width val = push_bit shift val OR (cell AND NOT (push_bit shift (mask width)))"

definition get_field :: "'a::len word \<Rightarrow> nat \<Rightarrow> nat \<Rightarrow> 'a word" where
  "get_field cell shift width = take_bit width (drop_bit shift cell)"

section \<open>Bits of the fields\<close>

lemma one_shl_minus_one: "push_bit n (1::'a::len word) - 1 = mask n"
  by (simp add: mask_eq_exp_minus_1 push_bit_eq_mult)

lemma mask_and_eq_iff: "mask n AND (w::'a::len word) = w \<longleftrightarrow> take_bit n w = w"
  by (simp add: take_bit_eq_mask and.commute)

lemma take_bit_eq_self_unat:
  fixes w :: "'a::len word"
  shows "take_bit n w = w \<longleftrightarrow> unat w < 2 ^ n"
  by (simp add: word_unat_eq_iff unsigned_take_bit_eq take_bit_nat_eq_self_iff)

lemma bit_set_field:
  fixes cell :: "'a::len word"
  shows "bit (set_field cell shift width val) n \<longleftrightarrow> n < LENGTH('a) \<and>
     (if shift \<le> n \<and> n < shift + width then bit val (n - shift)
      else (shift \<le> n \<and> bit val (n - shift)) \<or> bit cell n)"
  by (auto simp: set_field_def bit_simps dest: bit_imp_le_length)

lemma bit_get_field:
  fixes cell :: "'a::len word"
  shows "bit (get_field cell shift width) n \<longleftrightarrow> n < width \<and> bit cell (shift + n)"
  by (auto simp: get_field_def bit_simps)

lemma bit_field_value:
  fixes val :: "'a::len word"
  assumes "take_bit width val = val" and "bit val n"
  shows "n < width"
  using assms by (metis bit_take_bit_iff)

lemma get_set_field:
  fixes cell :: "'a::len word"
  assumes "shift + width \<le> LENGTH('a)" and "take_bit width val = val"
  shows "get_field (set_field cell shift width val) shift width = val"
  using assms by (intro bit_word_eqI) (auto simp: bit_get_field bit_set_field dest: bit_field_value)

lemma get_set_field_other:
  fixes cell :: "'a::len word"
  assumes "take_bit width val = val" and "s + w \<le> shift \<or> shift + width \<le> s"
  shows "get_field (set_field cell shift width val) s w = get_field cell s w"
  using assms
  by (intro bit_word_eqI) (auto simp: bit_get_field bit_set_field dest: bit_field_value bit_imp_le_length)

lemma set_set_field:
  fixes cell :: "'a::len word"
  assumes "take_bit width u = u" and "take_bit width v = v"
  shows "set_field (set_field cell shift width u) shift width v = set_field cell shift width v"
  using assms by (intro bit_word_eqI) (auto simp: bit_set_field dest: bit_field_value bit_imp_le_length)

section \<open>The accessors against the reference\<close>

lemma field_mask:
  assumes "width < LENGTH('a::len)"
  shows "rbind (shl_word (1::'a word) width) (\<lambda>m. sub_word m 1) = Ok (mask width)"
proof -
  have "push_bit width (1::'a word) \<noteq> 0"
    using assms by simp
  then have "(1::'a word) \<le> push_bit width 1"
    by (metis linorder_le_less_linear word_less_1)
  with assms show ?thesis by (simp add: checked_defs mask_eq_exp_minus_1)
qed

lemma write_bits_eq:
  fixes cell :: "'a::len word"
  assumes "width < LENGTH('a)" and "shift < LENGTH('a)"
  shows "write_bits cell shift width val =
    (if unat val < 2 ^ width then Ok (set_field cell shift width val) else Err ''Value out of range'')"
  using assms(2) unfolding write_bits_def field_mask [OF assms(1)]
  by (simp add: mask_and_eq_iff take_bit_eq_self_unat checked_defs set_field_def)

lemma read_bits_eq:
  fixes cell :: "'a::len word"
  assumes "width < LENGTH('a)" and "shift < LENGTH('a)"
  shows "read_bits cell shift width = Ok (get_field cell shift width)"
  using assms(2) unfolding read_bits_def field_mask [OF assms(1)]
  by (simp add: checked_defs get_field_def take_bit_eq_mask)

lemma unat_word_less_64:
  fixes w :: "'a::len word"
  assumes "LENGTH('a) \<le> 64"
  shows "unat w < 2 ^ 64"
proof -
  have "unat w < 2 ^ LENGTH('a)" by (rule unsigned_less)
  also have "\<dots> \<le> (2::nat) ^ 64" using assms by (intro power_increasing) auto
  finally show ?thesis .
qed

lemma extract_bits_intermediate:
  fixes v :: "'a::len word"
  assumes "LENGTH('a) \<le> 64" and "shift < 2 ^ 32"
  shows "unat ((if shift < 64 then drop_bit shift (ucast v :: u64) else 0) AND (push_bit (min 63 width) 1 - 1))
    = unat v div 2 ^ shift mod 2 ^ min 63 width"
proof -
  have v64: "unat (ucast v :: u64) = unat v"
    using unat_word_less_64 [OF assms(1), of v] by (simp add: unsigned_ucast_eq take_bit_nat_eq_self)
  have "unat v div 2 ^ shift = 0" if "\<not> shift < 64"
  proof -
    from that have "(2::nat) ^ 64 \<le> 2 ^ shift" by (intro power_increasing) auto
    with unat_word_less_64 [OF assms(1), of v] show ?thesis by simp
  qed
  moreover have "unat (drop_bit shift (ucast v :: u64)) = unat v div 2 ^ shift"
    by (simp only: unsigned_drop_bit_eq v64)
       (use unat_word_less_64 [OF assms(1), of v] in \<open>simp add: drop_bit_eq_div take_bit_nat_eq_self\<close>)
  ultimately show ?thesis
    by (simp only: one_shl_minus_one unsigned_take_bit_eq flip: take_bit_eq_mask)
       (simp add: take_bit_eq_mod)
qed

lemma extract_bits_value:
  fixes v :: "'a::len word"
  assumes "LENGTH('a) \<le> 64" and "shift < 2 ^ 32"
  shows "unat (extract_bits v shift width) = unat v div 2 ^ shift mod 2 ^ min 63 width"
proof -
  let ?r = "unat v div 2 ^ shift mod 2 ^ min 63 width"
  have "?r \<le> unat v"
    by (meson div_le_dividend mod_less_eq_dividend order_trans)
  then have less: "?r < 2 ^ LENGTH('a)"
    using unsigned_less [of v] by (meson le_less_trans)
  show ?thesis
    using extract_bits_intermediate [OF assms, of v width] less assms(2)
    by (simp add: extract_bits_def Let_def unsigned_ucast_eq take_bit_nat_eq_self)
qed

section \<open>Properties\<close>

text \<open>
  \<open>extract_bits\<close> on an integer of at most 64 bits is the quotient by \<open>2 ^ shift\<close> modulo
  \<open>2 ^ width\<close>, with the width cut to 63: no conversion back to the type fails, and a width of
  64 or more loses the top bit of a \<open>u64\<close>.
\<close>

theorem extract_bits_spec:
  fixes v :: "'a::len word"
  assumes "LENGTH('a) \<le> 64" and "shift < 2 ^ 32"
  shows "unat (extract_bits v shift width) = unat v div 2 ^ shift mod 2 ^ min 63 width"
  using assms by (rule extract_bits_value)

theorem extract_bits_spec_witness:
  "unat (extract_bits (0x1E000000 :: u32) 24 8) = 30 \<and>
   unat (extract_bits (0x8000000000000000 :: u64) 0 64) = 0"
  using extract_bits_spec [of 24 "0x1E000000 :: u32" 8]
    extract_bits_spec [of 0 "0x8000000000000000 :: u64" 64]
  by simp

text \<open>
  A value that fits the field is stored by \<open>write_bits\<close>, is what \<open>read_bits\<close> returns
  afterwards, and no bit outside the field changes.
\<close>

theorem write_bits_read_bits:
  fixes cell :: "'a::len word"
  assumes "width < LENGTH('a)" and "shift < LENGTH('a)" and "shift + width \<le> LENGTH('a)"
    and "unat val < 2 ^ width"
  shows "\<exists>cell'. write_bits cell shift width val = Ok cell' \<and> read_bits cell' shift width = Ok val \<and>
    (\<forall>n. n < shift \<or> shift + width \<le> n \<longrightarrow> bit cell' n = bit cell n)"
proof -
  from assms(4) have fits: "take_bit width val = val" by (simp add: take_bit_eq_self_unat)
  have "bit (set_field cell shift width val) n = bit cell n"
    if "n < shift \<or> shift + width \<le> n" for n
    using that fits by (auto simp: bit_set_field dest: bit_field_value bit_imp_le_length)
  with assms fits show ?thesis
    by (simp add: write_bits_eq read_bits_eq get_set_field)
qed

theorem write_bits_read_bits_witness:
  "\<exists>cell'. write_bits (0x0001 :: u16) 8 4 0xA = Ok cell' \<and> read_bits cell' 8 4 = Ok 0xA \<and>
    (\<forall>n. n < 8 \<or> 8 + 4 \<le> n \<longrightarrow> bit cell' n = bit (0x0001 :: u16) n)"
  using write_bits_read_bits [of 4 8 "0xA :: u16" "0x0001"] by simp

end
