(* ===== verification/UnitTests.thy ===== *)
theory UnitTests
  imports HeapBox BitFields
begin

text \<open>
  The unit tests of the kernel (\<open>#[test_case]\<close> functions of \<open>bits.rs\<close>, \<open>volatile.rs\<close> and \<open>allocator.rs\<close>) as
  functions of the model, and the proof that they pass: those of the allocator on every heap whose first block is
  free and has four million bytes. A failed assertion is a panic. The bytes that the last test writes to its objects
  are a memory of their own beside the headers.
\<close>

section \<open>Assertions\<close>

definition assert :: "bool \<Rightarrow> unit result" where
  "assert b = (if b then Ok () else Panic ''assertion failed'')"

definition assert_eq :: "'a \<Rightarrow> 'a \<Rightarrow> unit result" where
  "assert_eq x y = assert (x = y)"

primrec in_turn :: "unit result list \<Rightarrow> unit result" where
  "in_turn [] = Ok ()"
| "in_turn (r # rs) = rbind r (\<lambda>_. in_turn rs)"

lemma assert_simps [simp]: "assert True = Ok ()" "assert_eq x x = Ok ()"
  by (simp_all add: assert_def assert_eq_def)

lemma in_turn_Ok: "list_all (\<lambda>r. r = Ok ()) rs \<Longrightarrow> in_turn rs = Ok ()"
  by (induction rs) simp_all

section \<open>Bits\<close>

definition round_up_to_nearest_pow2_tests :: "unit result" where
  "round_up_to_nearest_pow2_tests = in_turn (map (\<lambda>(v, r). assert_eq (round_up_to_nearest_pow2 v) r)
     [(0, Err ''Out of range''), (1, Ok 1), (2, Ok 2), (3, Ok 4), (4, Ok 4), (5, Ok 8), (6, Ok 8), (7, Ok 8), (8, Ok 8),
      (9, Ok 16), (9, Ok 16)])"

definition extract_bits_tests :: "unit result" where
  "extract_bits_tests = in_turn
     [assert_eq (extract_bits (push_bit 24 30 :: u32) 24 8) 30,
      assert_eq (extract_bits (0x123 :: u64) 0 12) 0x123,
      assert_eq (extract_bits (0x123 :: u64) 4 12) 0x12,
      assert_eq (extract_bits (0x123 :: u64) 4 8) 0x12,
      assert_eq (extract_bits (0x123 :: u64) 4 4) 0x2,
      assert_eq (extract_bits (0x123 :: u64) 4 0) 0x0,
      assert_eq (extract_bits (0x1234567812345678 :: u64) 60 4) 0x1,
      assert_eq (extract_bits (0x1234567812345678 :: u64) 64 0) 0x0,
      assert_eq (extract_bits (0x1234567812345678 :: u64) 0 64) 0x1234567812345678,
      assert_eq (extract_bits (0x1234567812345678 :: u64) 0 65) 0x1234567812345678]"

text \<open>A write that is to succeed or to fail, and the content that is read after it.\<close>

definition write_step :: "bool \<times> usize \<times> usize \<times> 'a::len word \<times> 'a word \<Rightarrow> 'a word \<Rightarrow> 'a word result" where
  "write_step t cell =
     (case t of (succeeds, shift, width, val, content) \<Rightarrow>
        rbind (case write_bits cell shift width val of
            Ok c \<Rightarrow> rbind (assert succeeds) (\<lambda>_. Ok c)
          | Err e \<Rightarrow> rbind (assert (\<not> succeeds)) (\<lambda>_. Ok cell)
          | Panic e \<Rightarrow> Panic e) (\<lambda>c.
        rbind (assert_eq c content) (\<lambda>_. Ok c)))"

primrec write_steps :: "(bool \<times> usize \<times> usize \<times> 'a::len word \<times> 'a word) list \<Rightarrow> 'a word \<Rightarrow> 'a word result" where
  "write_steps [] cell = Ok cell"
| "write_steps (t # ts) cell = rbind (write_step t cell) (write_steps ts)"

definition write_bits_tests :: "unit result" where
  "write_bits_tests =
     rbind (write_steps [(True, 0, 1, 0, 0), (True, 0, 1, 1, 1), (False, 0, 1, 2, 1), (True, 1, 1, 0, 1), (True, 1, 1, 1, 3),
       (True, 1, 1, 0, 1), (False, 1, 1, 2, 1), (True, 8, 4, 10, 0xA01)] (0 :: u16)) (\<lambda>v.
     rbind (read_bits v 8 4) (\<lambda>f. rbind (assert_eq f 10) (\<lambda>_.
     rbind (write_steps [(True, 24, 8, 0xAA, 0xAA000000)] (0 :: u32)) (\<lambda>_. Ok ()))))"

lemma round_up_tests_pass: "round_up_to_nearest_pow2_tests = Ok ()"
  by (simp add: round_up_to_nearest_pow2_tests_def round_up_eq bit_length.simps assert_eq_def)

lemma extract_bits_tests_pass: "extract_bits_tests = Ok ()"
  by (simp add: extract_bits_tests_def assert_eq_def word_unat_eq_iff extract_bits_value)

lemma write_bits_tests_pass: "write_bits_tests = Ok ()"
  by (simp add: write_bits_tests_def write_step_def write_bits_eq read_bits_eq set_field_def get_field_def
      mask_eq_exp_minus_1 assert_eq_def take_bit_eq_mask drop_bit_eq_div)

section \<open>Allocations\<close>

text \<open>A call of the allocator whose pointer may be null, the end of a box, and an allocation with its two assertions.\<close>

definition raw_alloc :: "usize \<Rightarrow> usize \<Rightarrow> usize on_heap" where
  "raw_alloc sz align h =
     map_option (\<lambda>r. case r of Ok (p, h') \<Rightarrow> (Ok p, h') | Err e \<Rightarrow> (Err e, h) | Panic e \<Rightarrow> (Panic e, h)) (alloc_with_options h sz align)"

definition free_box :: "usize \<Rightarrow> unit on_heap" where
  "free_box p h = Some (case dealloc h p of Ok h' \<Rightarrow> (Ok (), h') | Err e \<Rightarrow> (Err e, h) | Panic e \<Rightarrow> (Panic e, h))"

definition with_box :: "usize \<Rightarrow> usize \<Rightarrow> unit on_heap \<Rightarrow> unit on_heap" where
  "with_box sz align body h = sbind (heap_box sz align h) (\<lambda>p h. sbind (body h) (\<lambda>_. free_box p))"

definition alloc_checked :: "usize \<Rightarrow> usize \<Rightarrow> unit on_heap" where
  "alloc_checked sz align h =
     sbind (Some (unwrap (layout_from_size_align sz align ''failed to create layout''), h)) (\<lambda>(sz, al) h.
     sbind (raw_alloc sz al h) (\<lambda>p h. Some (in_turn [assert (p \<noteq> 0), assert (p mod align = 0)], h)))"

definition malloc_align :: "unit on_heap" where
  "malloc_align = for_each (\<lambda>align. for_each (\<lambda>_. alloc_checked 1234 align) [0..<100]) [1, 2, 4, 8, 16, 32, 4096]"

definition malloc_align_random_order :: "unit on_heap" where
  "malloc_align_random_order =
     for_each (\<lambda>align. with_box 800 8 (for_each (\<lambda>_. alloc_checked 1234 align) [0..<100])) [32, 4096, 8, 4, 16, 2, 1]"

text \<open>
  \<open>uses c f\<close>: on a heap whose first block is free and has \<open>c\<close> bytes, \<open>f\<close> succeeds, keeps what is live, and takes
  at most \<open>c\<close> bytes of the block.
\<close>

definition uses :: "usize \<Rightarrow> unit on_heap \<Rightarrow> bool" where
  "uses c f \<longleftrightarrow> (\<forall>a h s. first_block h a s \<longrightarrow> c \<le> s \<longrightarrow> (\<exists>h' s'. f h = Some (Ok (), h') \<and> leaves a s' h h' \<and> s \<le> s' + c))"

lemma usesD: "uses c f \<Longrightarrow> first_block h a s \<Longrightarrow> c \<le> s \<Longrightarrow> \<exists>h' s'. f h = Some (Ok (), h') \<and> leaves a s' h h' \<and> s \<le> s' + c"
  by (simp add: uses_def)

lemma uses_mono: "uses c f \<Longrightarrow> c \<le> d \<Longrightarrow> uses d f"
  unfolding uses_def by (meson add_le_mono le_refl order_trans)

lemma uses_for_each: "(\<And>x. x \<in> set xs \<Longrightarrow> uses (c x) (f x)) \<Longrightarrow> uses (sum_list (map c xs)) (for_each f xs)"
proof (induction xs)
  case Nil
  show ?case by (auto simp: uses_def leaves_def)
next
  case (Cons x xs)
  show ?case unfolding uses_def
  proof (intro allI impI)
    fix a h s assume fb: "first_block h a s" and s: "sum_list (map c (x # xs)) \<le> s"
    from usesD [OF Cons.prems fb, of x] s obtain h1 s1 where
      1: "f x h = Some (Ok (), h1)" "leaves a s1 h h1" "s \<le> s1 + c x" by auto
    have "sum_list (map c xs) \<le> s1" using s 1(3) by simp
    from usesD [OF Cons.IH leavesD [OF 1(2)] this] Cons.prems obtain h2 s2 where
      2: "for_each f xs h1 = Some (Ok (), h2)" "leaves a s2 h1 h2" "s1 \<le> s2 + sum_list (map c xs)" by auto
    show "\<exists>h' s'. for_each f (x # xs) h = Some (Ok (), h') \<and> leaves a s' h h' \<and> s \<le> s' + sum_list (map c (x # xs))"
      using 1 2 leaves_trans [OF 1(2) 2(2)] by (intro exI [of _ h2] exI [of _ s2]) simp
  qed
qed

text \<open>What is live lies apart.\<close>

lemma live_apart:
  assumes "heap_inv h" and "(p, n) \<in> live h" and "(q, m) \<in> live h"
  shows "p \<noteq> q \<Longrightarrow> regions_apart (p, n) (q, m)" and "p = q \<Longrightarrow> n = m"
proof -
  obtain bs where bs: "represents h bs" using assms(1) by (auto simp: heap_inv_def)
  then have wf: "wf_blocks bs" by (simp add: represents_def)
  obtain a s b t where p: "p = a + 32" "n = s - 32" "(a, s, True) \<in> set bs" and q: "q = b + 32" "m = t - 32" "(b, t, True) \<in> set bs"
    using assms(2,3) by (auto simp: live_eq [OF bs] live_blocks_def HEADER_SIZE_def)
  show "n = m" if "p = q" using wf_blocks_same_addr [OF wf p(3), of t True] p q that by simp
  show "regions_apart (p, n) (q, m)" if "p \<noteq> q"
    using wf_blocks_disjoint [OF wf p(3) q(3)] wf_blocks_in [OF wf p(3)] wf_blocks_in [OF wf q(3)] p q that
    by (auto simp: regions_apart_def)
qed

lemma dealloc_in_first_block:
  assumes "first_block h a s" and "(p, n) \<in> live h"
  shows "\<exists>h'. free_box p h = Some (Ok (), h') \<and> first_block h' a s \<and> live h' = live h - {(p, n)}"
proof -
  obtain bs where bs: "represents h ((a, s, False) # bs)" using assms(1) by (auto simp: first_block_def)
  obtain b t where p: "p = b + HEADER_SIZE" "(b, t, True) \<in> set ((a, s, False) # bs)"
    using assms(2) by (auto simp: live_eq [OF bs] live_blocks_def)
  from dealloc_refines [OF bs p(2)] obtain h' where
    d: "dealloc h p = Ok h'" "represents h' ((a, s, False) # free_block b bs)" using p(1) by auto
  moreover have "live h' = live h - {(p, n)}"
    using first_fit_heap.free_live [OF first_block_inv [OF assms(1)] assms(2)] d(1) by simp
  ultimately show ?thesis by (auto simp: free_box_def first_block_def)
qed

lemma alloc_first_fresh:
  assumes "first_block h a s" and "layout_ok sz align" and "request sz align = Some (n, al)" and "n + 64 + al \<le> s"
  shows "\<exists>p h' s' m. alloc_with_options h sz align = Some (Ok (p, h')) \<and> p \<noteq> 0 \<and> align dvd p \<and> leaves a s' h h' \<and>
    s \<le> s' + (n + 64 + al) \<and> sz \<le> m \<and> live h' = insert (p, m) (live h) \<and> (\<forall>r \<in> live h. regions_apart (p, m) r)"
proof -
  from alloc_in_first_block [OF assms] obtain p h' where
    1: "alloc_with_options h sz align = Some (Ok (p, h'))" "p \<noteq> 0" "leaves a (p - 32 - a) h h'" "s - n - al - 32 \<le> p - 32 - a" by blast
  have "s \<le> (p - 32 - a) + (n + 64 + al)" using 1(4) by simp
  with 1 first_fit_heap.alloc_fresh [OF first_block_inv [OF assms(1)] assms(2) 1(1,2)] show ?thesis by blast
qed

lemma uses_alloc_checked:
  assumes "layout_ok 1234 align" and "is_pow2 align" and "align \<le> 2 ^ 62" and "request 1234 align = Some (n, al)"
  shows "uses (n + 64 + al) (alloc_checked 1234 align)"
  unfolding uses_def
proof (intro allI impI)
  fix a h s assume fb: "first_block h a s" and s: "n + 64 + al \<le> s"
  from alloc_first_fresh [OF fb assms(1,4) s] obtain p h' s' where
    "alloc_with_options h 1234 align = Some (Ok (p, h'))" "p \<noteq> 0" "align dvd p" "leaves a s' h h'" "s \<le> s' + (n + 64 + al)" by blast
  moreover have "layout_from_size_align 1234 align e = Ok (1234, align)" for e
    using assms(2,3) by (simp add: layout_from_size_align_def)
  ultimately show "\<exists>h' s'. alloc_checked 1234 align h = Some (Ok (), h') \<and> leaves a s' h h' \<and> s \<le> s' + (n + 64 + al)"
    by (auto simp: alloc_checked_def raw_alloc_def)
qed

lemma uses_with_box:
  assumes "layout_ok sz align" and "request sz align = Some (n, al)" and "0 < sz" and body: "uses c body"
  shows "uses (n + 64 + al + c) (with_box sz align body)"
  unfolding uses_def
proof (intro allI impI)
  fix a h s assume fb: "first_block h a s" and s: "n + 64 + al + c \<le> s"
  then have "n + 64 + al \<le> s" by simp
  from alloc_first_fresh [OF fb assms(1,2) this] obtain p h1 s1 m where
    1: "alloc_with_options h sz align = Some (Ok (p, h1))" "p \<noteq> 0" "leaves a s1 h h1" "s \<le> s1 + (n + 64 + al)" "sz \<le> m"
      "live h1 = insert (p, m) (live h)" "\<forall>r \<in> live h. regions_apart (p, m) r" by blast
  have "c \<le> s1" using s 1(4) by simp
  from usesD [OF body leavesD [OF 1(3)] this] obtain h2 s2 where
    2: "body h1 = Some (Ok (), h2)" "leaves a s2 h1 h2" "s1 \<le> s2 + c" by blast
  have "(p, m) \<in> live h2" "(p, m) \<notin> live h" using 1(5-7) 2(2) assms(3) by (auto simp: leaves_def regions_apart_def)
  moreover from dealloc_in_first_block [OF leavesD [OF 2(2)] this(1)] obtain h3 where
    "free_box p h2 = Some (Ok (), h3)" "first_block h3 a s2" "live h3 = live h2 - {(p, m)}" by blast
  ultimately show "\<exists>h' s'. with_box sz align body h = Some (Ok (), h') \<and> leaves a s' h h' \<and> s \<le> s' + (n + 64 + al + c)"
    using 1 2 by (intro exI [of _ h3] exI [of _ s2]) (auto simp: with_box_def heap_box_def leaves_def)
qed

lemma test_aligns:
  assumes "align \<in> {1, 2, 4, 8, 16, 32, 4096}"
  shows "layout_ok 1234 align" and "is_pow2 align" and "align \<le> 2 ^ 62" and "request 1234 align = Some (2048, max align 32)"
proof -
  have "\<exists>k \<le> 12. align = 2 ^ k"
    using assms by (auto intro: exI [of _ "0 :: nat"] exI [of _ "1 :: nat"] exI [of _ "2 :: nat"] exI [of _ "3 :: nat"] exI [of _ "4 :: nat"]
      exI [of _ "5 :: nat"] exI [of _ "12 :: nat"])
  then obtain k where k: "k \<le> 12" "align = 2 ^ k" by blast
  show "layout_ok 1234 align" "align \<le> 2 ^ 62" using assms k(2) layout_ok_pow [of align k 1234] by auto
  show "is_pow2 align" using k(2) is_pow2_exp by simp
  show "request 1234 align = Some (2048, max align 32)"
    by (simp add: request_def round_up_eq bit_length.simps HEADER_SIZE_def)
qed

lemma uses_alloc_test: "align \<in> {1, 2, 4, 8, 16, 32, 4096} \<Longrightarrow> uses (2112 + max align 32) (alloc_checked 1234 align)"
  using uses_alloc_checked [OF test_aligns] by simp

lemma uses_hundred:
  assumes "align \<in> {1, 2, 4, 8, 16, 32, 4096}"
  shows "uses (100 * (2112 + max align 32)) (for_each (\<lambda>_. alloc_checked 1234 align) [0..<100])"
proof -
  have "uses (sum_list (map (\<lambda>_. 2112 + max align 32) [0..<100])) (for_each (\<lambda>_. alloc_checked 1234 align) [0..<100])"
    using uses_alloc_test [OF assms] by (rule uses_for_each)
  then show ?thesis by (simp add: sum_list_triv)
qed

lemma malloc_align_uses: "uses 2000000 malloc_align"
proof -
  have "uses (sum_list (map (\<lambda>align. 100 * (2112 + max align 32)) [1, 2, 4, 8, 16, 32, 4096])) malloc_align"
    unfolding malloc_align_def by (rule uses_for_each) (use uses_hundred in simp)
  then show ?thesis by (rule uses_mono) simp
qed

lemma malloc_align_random_order_uses: "uses 2000000 malloc_align_random_order"
proof -
  have vec: "layout_ok 800 8" "request 800 8 = Some (1024, 32)"
    using layout_ok_pow [of 8 3 800] by (simp_all add: request_def round_up_eq bit_length.simps HEADER_SIZE_def)
  have "uses (sum_list (map (\<lambda>align. 1024 + 64 + 32 + 100 * (2112 + max align 32)) [32, 4096, 8, 4, 16, 2, 1])) malloc_align_random_order"
    unfolding malloc_align_random_order_def
    by (rule uses_for_each, rule uses_with_box [OF vec]) (use uses_hundred in auto)
  then show ?thesis by (rule uses_mono) simp
qed

section \<open>Objects that do not overlap\<close>

record Objects =
  o_heap :: FirstFitAllocator
  o_bytes :: "usize \<Rightarrow> u8"
  o_pointers :: "usize list"

definition on_objects :: "'a on_heap \<Rightarrow> Objects \<Rightarrow> ('a result \<times> Objects) option" where
  "on_objects f s = map_option (\<lambda>(r, h). (r, s\<lparr>o_heap := h\<rparr>)) (f (o_heap s))"

text \<open>The layouts of the test, by size and alignment.\<close>

definition object_sizes :: "(usize \<times> usize) list" where
  "object_sizes =
     [(128, 128), (32, 32), (8, 8), (16, 16), (6000, 64), (4, 4), (2, 2), (600000, 64), (64, 64), (1, 1)] @
     replicate 6 (6000, 64) @ replicate 10 (3, 64) @
     [(6000, 64), (6000, 64), (600000, 64), (6000, 64), (60000, 64), (60000, 64), (60000, 64), (60000, 64)]"

primrec layouts :: "(usize \<times> usize) list \<Rightarrow> (usize \<times> usize) list result" where
  "layouts [] = Ok []"
| "layouts (l # ls) =
     rbind (unwrap (layout_from_size_align (fst l) (snd l) ''LayoutError'')) (\<lambda>x. rbind (layouts ls) (\<lambda>xs. Ok (x # xs)))"

text \<open>The bodies of the loops: allocate and fill with the index, compare with the index, give back.\<close>

definition fill :: "usize \<Rightarrow> usize \<Rightarrow> u8 \<Rightarrow> (usize \<Rightarrow> u8) \<Rightarrow> usize \<Rightarrow> u8" where
  "fill p n v m = fold (\<lambda>k m. m(p + k := v)) [0..<n] m"

fun place :: "nat \<times> usize \<times> usize \<Rightarrow> Objects \<Rightarrow> (unit result \<times> Objects) option" where
  "place (i, sz, align) s =
     sbind (on_objects (raw_alloc sz align) s) (\<lambda>p s.
       Some (Ok (), s\<lparr>o_pointers := (o_pointers s)[i := p], o_bytes := fill p sz (of_nat i) (o_bytes s)\<rparr>))"

fun compare_bytes :: "nat \<times> usize \<times> usize \<Rightarrow> Objects \<Rightarrow> (unit result \<times> Objects) option" where
  "compare_bytes (i, sz, align) s =
     Some (in_turn (map (\<lambda>k. assert (o_bytes s (o_pointers s ! i + k) = of_nat i)) [0..<sz]), s)"

fun give_back :: "nat \<times> usize \<times> usize \<Rightarrow> Objects \<Rightarrow> (unit result \<times> Objects) option" where
  "give_back (i, sz, align) s = on_objects (free_box (o_pointers s ! i)) s"

definition objects_loops :: "(usize \<times> usize) list \<Rightarrow> Objects \<Rightarrow> (unit result \<times> Objects) option" where
  "objects_loops ls s =
     (let es = List.enumerate 0 ls; evens = filter (\<lambda>(i, _). even i) es; odds = filter (\<lambda>(i, _). odd i) es in
     sbind (for_each place es s) (\<lambda>_ s.
     sbind (for_each compare_bytes es s) (\<lambda>_ s.
     sbind (for_each give_back evens s) (\<lambda>_ s.
     sbind (for_each compare_bytes odds s) (\<lambda>_ s.
     sbind (for_each place evens s) (\<lambda>_. for_each compare_bytes es))))))"

definition allocated_objects_have_no_overlap :: "Objects \<Rightarrow> (unit result \<times> Objects) option" where
  "allocated_objects_have_no_overlap s =
     sbind (on_objects (heap_box (16 * length object_sizes) 8) s) (\<lambda>v s.
     sbind (Some (layouts object_sizes, s)) (\<lambda>ls s.
     sbind (on_objects (heap_box (8 * length ls) 8) s) (\<lambda>w s.
     sbind (objects_loops ls (s\<lparr>o_pointers := replicate (length ls) 0\<rparr>)) (\<lambda>_ s.
     sbind (on_objects (free_box w) s) (\<lambda>_. on_objects (free_box v))))))"

text \<open>
  The invariant of the loops: the objects of the entries \<open>L\<close> are live, apart from the two vectors and from each other,
  and hold their indices.
\<close>

type_synonym entry = "nat \<times> usize \<times> usize"

definition holds :: "Objects \<Rightarrow> entry \<Rightarrow> bool" where
  "holds s e \<longleftrightarrow> (case e of (i, sz, align) \<Rightarrow> i < length (o_pointers s) \<and> (\<exists>n \<ge> sz. (o_pointers s ! i, n) \<in> live (o_heap s)) \<and>
     (\<forall>k < sz. o_bytes s (o_pointers s ! i + k) = of_nat i))"

definition kept :: "usize set \<Rightarrow> usize \<Rightarrow> entry set \<Rightarrow> Objects \<Rightarrow> bool" where
  "kept V a L s \<longleftrightarrow> (\<exists>z. first_block (o_heap s) a z) \<and> (\<forall>e \<in> L. holds s e \<and> o_pointers s ! fst e \<notin> V) \<and>
     (\<forall>e \<in> L. \<forall>f \<in> L. fst e \<noteq> fst f \<longrightarrow> o_pointers s ! fst e \<noteq> o_pointers s ! fst f) \<and>
     (\<forall>p \<in> V. \<exists>n > 0. (p, n) \<in> live (o_heap s))"

lemma keptI:
  assumes "first_block (o_heap s) a z" and "\<And>e. e \<in> L \<Longrightarrow> holds s e \<and> o_pointers s ! fst e \<notin> V"
    and "\<And>e f. e \<in> L \<Longrightarrow> f \<in> L \<Longrightarrow> fst e \<noteq> fst f \<Longrightarrow> o_pointers s ! fst e \<noteq> o_pointers s ! fst f"
    and "\<And>p. p \<in> V \<Longrightarrow> \<exists>n > 0. (p, n) \<in> live (o_heap s)"
  shows "kept V a L s"
  using assms unfolding kept_def by blast

lemma keptD:
  assumes "kept V a L s"
  shows "\<exists>z. first_block (o_heap s) a z" and "e \<in> L \<Longrightarrow> holds s e" and "e \<in> L \<Longrightarrow> o_pointers s ! fst e \<notin> V"
    and "e \<in> L \<Longrightarrow> f \<in> L \<Longrightarrow> fst e \<noteq> fst f \<Longrightarrow> o_pointers s ! fst e \<noteq> o_pointers s ! fst f"
    and "p \<in> V \<Longrightarrow> \<exists>n > 0. (p, n) \<in> live (o_heap s)"
  using assms unfolding kept_def by blast+

lemma fill_eq: "fill p n v m = (\<lambda>x. if p \<le> x \<and> x < p + n then v else m x)"
proof (induction n)
  case (Suc n)
  have "fill p (Suc n) v m = (fill p n v m)(p + n := v)" by (simp add: fill_def)
  with Suc show ?case by (auto simp: fun_eq_iff)
qed (auto simp: fill_def fun_eq_iff)

lemma place_kept:
  assumes kept: "kept V a L s" and fb: "first_block (o_heap s) a z" and fit: "n + 64 + al \<le> z"
    and lay: "layout_ok sz align" "request sz align = Some (n, al)" "0 < sz"
    and i: "i < length (o_pointers s)" "i \<notin> fst ` L" and pos: "\<forall>(j, sz', _) \<in> L. 0 < sz'"
  shows "\<exists>s' z'. place (i, sz, align) s = Some (Ok (), s') \<and> kept V a (insert (i, sz, align) L) s' \<and>
    first_block (o_heap s') a z' \<and> z \<le> z' + (n + 64 + al) \<and> length (o_pointers s') = length (o_pointers s)"
proof -
  from alloc_first_fresh [OF fb lay(1,2) fit] obtain p h' z' m where
    1: "alloc_with_options (o_heap s) sz align = Some (Ok (p, h'))" "first_block h' a z'" "z \<le> z' + (n + 64 + al)" "sz \<le> m"
      "live h' = insert (p, m) (live (o_heap s))" "\<forall>r \<in> live (o_heap s). regions_apart (p, m) r"
    by (auto simp: leaves_def)
  define s' where "s' = s\<lparr>o_heap := h', o_pointers := (o_pointers s)[i := p], o_bytes := fill p sz (of_nat i) (o_bytes s)\<rparr>"
  have run: "place (i, sz, align) s = Some (Ok (), s')" using 1(1) by (simp add: on_objects_def raw_alloc_def s'_def)
  have other: "p \<noteq> q \<and> (\<forall>k < t. \<not> (p \<le> q + k \<and> q + k < p + sz))" if "(q, t') \<in> live (o_heap s)" "t \<le> t'" "0 < t" for q t t'
    using 1(4,6) lay(3) that by (fastforce simp: regions_apart_def)
  have old: "holds s' e \<and> o_pointers s' ! fst e = o_pointers s ! fst e \<and> o_pointers s ! fst e \<noteq> p" if e: "e \<in> L" for e
  proof -
    obtain j t al' where [simp]: "e = (j, t, al')" by (cases e)
    have "0 < t" "j \<noteq> i" using pos e i(2) by force+
    note holds = keptD(2) [OF kept e]
    then obtain t' where t': "t \<le> t'" "(o_pointers s ! j, t') \<in> live (o_heap s)" using holds by (auto simp: holds_def)
    from other [OF t'(2,1) \<open>0 < t\<close>] show ?thesis using holds \<open>j \<noteq> i\<close> t' 1(5)
      by (auto simp: holds_def s'_def fill_eq)
  qed
  have new: "holds s' (i, sz, align)" "o_pointers s' ! i = p" using i(1) 1(4,5) by (auto simp: holds_def s'_def fill_eq)
  have vecs: "q \<noteq> p \<and> (\<exists>n > 0. (q, n) \<in> live (o_heap s'))" if q: "q \<in> V" for q
  proof -
    obtain t where t: "0 < t" "(q, t) \<in> live (o_heap s)" using keptD(5) [OF kept q] by blast
    with other [OF t(2) le_refl t(1)] 1(5) show ?thesis by (auto simp: s'_def)
  qed
  have "kept V a (insert (i, sz, align) L) s'"
  proof (rule keptI)
    show "first_block (o_heap s') a z'" using 1(2) by (simp add: s'_def)
    show "holds s' e \<and> o_pointers s' ! fst e \<notin> V" if "e \<in> insert (i, sz, align) L" for e
    proof (cases "e = (i, sz, align)")
      case True
      with new vecs show ?thesis by auto
    next
      case False
      with that have "e \<in> L" by simp
      with old [OF this] keptD(3) [OF kept this] show ?thesis by simp
    qed
    show "o_pointers s' ! fst e \<noteq> o_pointers s' ! fst f"
      if "e \<in> insert (i, sz, align) L" "f \<in> insert (i, sz, align) L" "fst e \<noteq> fst f" for e f
    proof (cases "e = (i, sz, align) \<or> f = (i, sz, align)")
      case True
      with that old new(2) show ?thesis by (metis fst_conv insertE)
    next
      case False
      with that have "e \<in> L" "f \<in> L" by simp_all
      with that(3) old [OF this(1)] old [OF this(2)] keptD(4) [OF kept this] show ?thesis by simp
    qed
  qed (use vecs in blast)
  with run 1(2,3) show ?thesis by (intro exI [of _ s'] exI [of _ z']) (simp add: s'_def)
qed

lemma compare_kept: "kept V a L s \<Longrightarrow> e \<in> L \<Longrightarrow> compare_bytes e s = Some (Ok (), s)"
  using keptD(2) [of V a L s e] by (cases e) (auto simp: holds_def list_all_iff intro!: in_turn_Ok)

lemma give_back_kept:
  assumes kept: "kept V a L s" and fb: "first_block (o_heap s) a z" and e: "e \<in> L"
  shows "\<exists>s'. give_back e s = Some (Ok (), s') \<and> kept V a {f \<in> L. fst f \<noteq> fst e} s' \<and> first_block (o_heap s') a z \<and>
    o_pointers s' = o_pointers s"
proof -
  obtain i sz al where [simp]: "e = (i, sz, al)" by (cases e)
  obtain n where n: "(o_pointers s ! i, n) \<in> live (o_heap s)" using keptD(2) [OF kept e] by (auto simp: holds_def)
  from dealloc_in_first_block [OF fb n(1)] obtain h' where
    h': "free_box (o_pointers s ! i) (o_heap s) = Some (Ok (), h')" "first_block h' a z"
      "live h' = live (o_heap s) - {(o_pointers s ! i, n)}" by blast
  have "kept V a {f \<in> L. fst f \<noteq> fst e} (s\<lparr>o_heap := h'\<rparr>)"
  proof (rule keptI)
    show "holds (s\<lparr>o_heap := h'\<rparr>) f \<and> o_pointers (s\<lparr>o_heap := h'\<rparr>) ! fst f \<notin> V" if f: "f \<in> {f \<in> L. fst f \<noteq> fst e}" for f
      using keptD(2,3) [OF kept, of f] keptD(4) [OF kept _ e, of f] f h'(3) by (force simp: holds_def)
    show "\<exists>n > 0. (p, n) \<in> live (o_heap (s\<lparr>o_heap := h'\<rparr>))" if "p \<in> V" for p
      using keptD(5) [OF kept that] keptD(3) [OF kept e] that h'(3) by force
  qed (use h'(2) keptD(4) [OF kept] in auto)
  with h'(1,2) show ?thesis by (auto simp: on_objects_def)
qed

text \<open>What an entry costs the first block, and the loops over entries.\<close>

definition cost :: "usize \<times> usize \<Rightarrow> nat" where
  "cost l = (case request (fst l) (snd l) of Some (n, al) \<Rightarrow> n + 64 + al | None \<Rightarrow> 0)"

definition good :: "usize \<times> usize \<Rightarrow> bool" where
  "good l \<longleftrightarrow> layout_ok (fst l) (snd l) \<and> 0 < fst l \<and> request (fst l) (snd l) \<noteq> None"

lemma place_all:
  assumes "kept V a L s" and "first_block (o_heap s) a z" and "sum_list (map (cost \<circ> snd) es) \<le> z"
    and "\<forall>e \<in> set es \<union> L. good (snd e)" and "distinct (map fst es)" and "fst ` set es \<inter> fst ` L = {}"
    and "\<forall>e \<in> set es. fst e < length (o_pointers s)"
  shows "\<exists>s' z'. for_each place es s = Some (Ok (), s') \<and> kept V a (L \<union> set es) s' \<and> first_block (o_heap s') a z' \<and>
    z \<le> z' + sum_list (map (cost \<circ> snd) es) \<and> length (o_pointers s') = length (o_pointers s)"
  using assms
proof (induction es arbitrary: L s z)
  case Nil
  then show ?case by auto
next
  case (Cons e es)
  obtain i sz align where e: "e = (i, sz, align)" by (cases e)
  with Cons.prems(4) obtain n al where good: "layout_ok sz align" "0 < sz" "request sz align = Some (n, al)"
    by (auto simp: good_def)
  then have c: "cost (sz, align) = n + 64 + al" by (simp add: cost_def)
  have fit: "n + 64 + al \<le> z" using Cons.prems(3) e c by simp
  have "\<forall>f \<in> L. 0 < fst (snd f)" using Cons.prems(4) by (simp add: good_def)
  then have i: "i < length (o_pointers s)" "i \<notin> fst ` L" "\<forall>(j, sz', _) \<in> L. 0 < sz'"
    using Cons.prems(6,7) e by auto
  from place_kept [OF Cons.prems(1,2) fit good(1,3,2) i] obtain s1 z1 where
    1: "place e s = Some (Ok (), s1)" "kept V a (insert e L) s1" "first_block (o_heap s1) a z1" "z \<le> z1 + (n + 64 + al)"
      "length (o_pointers s1) = length (o_pointers s)" unfolding e by blast
  have "sum_list (map (cost \<circ> snd) es) \<le> z1" using 1(4) Cons.prems(3) e c by (simp add: o_def)
  moreover have "\<forall>e \<in> set es \<union> insert e L. good (snd e)" "distinct (map fst es)" "fst ` set es \<inter> fst ` insert e L = {}"
    "\<forall>e \<in> set es. fst e < length (o_pointers s1)" using Cons.prems(4-7) 1(5) by auto
  ultimately obtain s2 z2 where 2: "for_each place es s1 = Some (Ok (), s2)" "kept V a (insert e L \<union> set es) s2"
    "first_block (o_heap s2) a z2" "z1 \<le> z2 + sum_list (map (cost \<circ> snd) es)" "length (o_pointers s2) = length (o_pointers s1)"
    using Cons.IH [OF 1(2,3)] by blast
  show ?case using 1 2 e c by (intro exI [of _ s2] exI [of _ z2]) (simp add: insert_commute o_def)
qed

lemma compare_all: "kept V a L s \<Longrightarrow> set es \<subseteq> L \<Longrightarrow> for_each compare_bytes es s = Some (Ok (), s)"
  by (induction es) (auto simp: compare_kept simp del: compare_bytes.simps)

lemma give_back_all:
  assumes "kept V a L s" and "first_block (o_heap s) a z" and "set es \<subseteq> L" and "distinct (map fst es)"
  shows "\<exists>s'. for_each give_back es s = Some (Ok (), s') \<and> kept V a {f \<in> L. fst f \<notin> fst ` set es} s' \<and>
    first_block (o_heap s') a z \<and> o_pointers s' = o_pointers s"
  using assms
proof (induction es arbitrary: L s)
  case (Cons e es)
  from give_back_kept [OF Cons.prems(1,2), of e] Cons.prems(3) obtain s1 where
    1: "give_back e s = Some (Ok (), s1)" "kept V a {f \<in> L. fst f \<noteq> fst e} s1" "first_block (o_heap s1) a z"
      "o_pointers s1 = o_pointers s" by auto
  have "set es \<subseteq> {f \<in> L. fst f \<noteq> fst e}" "distinct (map fst es)" using Cons.prems(3,4) by (auto simp: image_iff)
  from Cons.IH [OF 1(2,3) this] obtain s2 where
    2: "for_each give_back es s1 = Some (Ok (), s2)" "kept V a {f \<in> {f \<in> L. fst f \<noteq> fst e}. fst f \<notin> fst ` set es} s2"
      "first_block (o_heap s2) a z" "o_pointers s2 = o_pointers s1" by blast
  have "{f \<in> {f \<in> L. fst f \<noteq> fst e}. fst f \<notin> fst ` set es} = {f \<in> L. fst f \<notin> fst ` set (e # es)}" by auto
  with 1 2 show ?case by auto
qed auto

lemma enumerate_entries:
  shows "distinct (map fst (filter P (List.enumerate 0 ls)))" and "e \<in> set (List.enumerate 0 ls) \<Longrightarrow> fst e < length ls \<and> snd e \<in> set ls"
proof -
  have "distinct (map fst (List.enumerate 0 ls))" by simp
  then show "distinct (map fst (filter P (List.enumerate 0 ls)))" by (rule distinct_map_filter)
  assume "e \<in> set (List.enumerate 0 ls)"
  then have "fst e < length ls" "ls ! fst e = snd e" by (simp_all add: in_set_enumerate_eq)
  then show "fst e < length ls \<and> snd e \<in> set ls" using nth_mem by metis
qed

lemma objects_loops_pass:
  assumes kept: "kept V a {} s" and fb: "first_block (o_heap s) a z" and len: "length (o_pointers s) = length ls"
    and good: "\<forall>l \<in> set ls. good l" and fit: "2 * sum_list (map cost ls) \<le> z"
  shows "\<exists>s' L z'. objects_loops ls s = Some (Ok (), s') \<and> kept V a L s' \<and> first_block (o_heap s') a z' \<and>
    z \<le> z' + 2 * sum_list (map cost ls)"
proof -
  let ?es = "List.enumerate 0 ls"
  let ?evens = "filter (\<lambda>(i, _). even i) ?es" and ?odds = "filter (\<lambda>(i, _). odd i) ?es"
  let ?cost = "\<lambda>es. sum_list (map (cost \<circ> snd) es)"
  have all: "?cost ?es = sum_list (map cost ls)" by (simp flip: map_map)
  have part: "?cost ?evens \<le> ?cost ?es" by (rule sum_list_filter_le_nat)
  note e = enumerate_entries
  have entries: "\<forall>e \<in> set ?es. good (snd e) \<and> fst e < length ls" using good e(2) [of _ ls] by blast
  have "?cost ?es \<le> z" "\<forall>e \<in> set ?es \<union> {}. good (snd e)" "distinct (map fst ?es)" "fst ` set ?es \<inter> fst ` {} = {}"
    "\<forall>e \<in> set ?es. fst e < length (o_pointers s)" using all fit entries len by simp_all
  from place_all [OF kept fb this] obtain s1 z1 where
    1: "for_each place ?es s = Some (Ok (), s1)" "kept V a (set ?es) s1" "first_block (o_heap s1) a z1" "z \<le> z1 + ?cost ?es"
      "length (o_pointers s1) = length ls" unfolding len by auto
  have "set ?evens \<subseteq> set ?es" by auto
  from give_back_all [OF 1(2,3) this e(1)] obtain s2 where
    2: "for_each give_back ?evens s1 = Some (Ok (), s2)" "kept V a {f \<in> set ?es. fst f \<notin> fst ` set ?evens} s2"
      "first_block (o_heap s2) a z1" "o_pointers s2 = o_pointers s1" by blast
  have odds: "{f \<in> set ?es. fst f \<notin> fst ` set ?evens} = set ?odds" by (force simp: in_set_enumerate_eq)
  have "?cost ?evens \<le> z1" using 1(4) all fit part by linarith
  moreover have "\<forall>e \<in> set ?evens \<union> set ?odds. good (snd e)" "fst ` set ?evens \<inter> fst ` set ?odds = {}"
    "\<forall>e \<in> set ?evens. fst e < length (o_pointers s2)" using entries 1(5) 2(4) by fastforce+
  ultimately obtain s3 z3 where 3: "for_each place ?evens s2 = Some (Ok (), s3)" "kept V a (set ?odds \<union> set ?evens) s3"
      "first_block (o_heap s3) a z3" "z1 \<le> z3 + ?cost ?evens"
    using place_all [OF 2(2) [unfolded odds] 2(3), of ?evens] e(1) by blast
  have "for_each compare_bytes ?es s1 = Some (Ok (), s1)" by (rule compare_all [OF 1(2)]) simp
  moreover have "for_each compare_bytes ?odds s2 = Some (Ok (), s2)" by (rule compare_all [OF 2(2) [unfolded odds]]) simp
  moreover have "for_each compare_bytes ?es s3 = Some (Ok (), s3)" by (rule compare_all [OF 3(2)]) auto
  ultimately have "objects_loops ls s = Some (Ok (), s3)" using 1(1) 2(1) 3(1) by (simp add: objects_loops_def Let_def)
  moreover have "z \<le> z3 + 2 * sum_list (map cost ls)" using 1(4) 3(4) all part by linarith
  ultimately show ?thesis using 3(2,3) by blast
qed

text \<open>The layouts of the test are valid, and twice their cost is less than six million bytes.\<close>

lemma object_sizes_range:
  assumes "l \<in> set object_sizes"
  shows "\<exists>k \<le> 7. snd l = 2 ^ k" and "0 < fst l" and "fst l \<le> 600000"
proof -
  have "snd l \<in> {2 ^ 0, 2 ^ 1, 2 ^ 2, 2 ^ 3, 2 ^ 4, 2 ^ 5, 2 ^ 6, 2 ^ 7}" using assms by (auto simp: object_sizes_def)
  moreover have "(2::nat) ^ k = 2 ^ k \<and> k \<le> 7" if "k \<in> {0, 1, 2, 3, 4, 5, 6, 7}" for k :: nat using that by auto
  ultimately show "\<exists>k \<le> 7. snd l = 2 ^ k" by (metis insert_iff empty_iff)
  show "0 < fst l" "fst l \<le> 600000" using assms by (auto simp: object_sizes_def)
qed

lemma object_sizes_good: "l \<in> set object_sizes \<Longrightarrow> good l \<and> is_pow2 (snd l) \<and> fst l \<le> 2 ^ 63 - snd l"
proof -
  assume l: "l \<in> set object_sizes"
  obtain k where k: "k \<le> 7" "snd l = 2 ^ k" using object_sizes_range(1) [OF l] by blast
  then have "snd l \<le> 2 ^ 7" using power_increasing [of k 7 "2 :: nat"] by simp
  moreover obtain p where "round_up_to_nearest_pow2 (fst l) = Ok p"
    using object_sizes_range(2,3) [OF l] round_up_eq [of "fst l"] by (cases "round_up_to_nearest_pow2 (fst l)") (auto split: if_splits)
  ultimately show ?thesis using k(2) object_sizes_range(2,3) [OF l] layout_ok_pow [OF k(2), of "fst l"] is_pow2_exp [of k]
    by (auto simp: good_def request_def)
qed

lemma object_costs: "2 * sum_list (map cost object_sizes) + 10000 \<le> 6000000"
  by (simp add: object_sizes_def cost_def request_def round_up_eq bit_length.simps HEADER_SIZE_def sum_list_replicate)

lemma layouts_Ok: "\<forall>l \<in> set ls. is_pow2 (snd l) \<and> fst l \<le> 2 ^ 63 - snd l \<Longrightarrow> layouts ls = Ok ls"
  by (induction ls) (auto simp: layout_from_size_align_def)

text \<open>The two vectors of the test: a box in front of a loop, and its end.\<close>

lemma vector_box:
  assumes "first_block (o_heap s) a z" and "n + 64 + al \<le> z" and "layout_ok sz align" "request sz align = Some (n, al)" "0 < sz"
  shows "\<exists>p s' z' m. on_objects (heap_box sz align) s = Some (Ok p, s') \<and> first_block (o_heap s') a z' \<and> z \<le> z' + (n + 64 + al) \<and>
    0 < m \<and> (p, m) \<in> live (o_heap s') \<and> live (o_heap s) \<subseteq> live (o_heap s') \<and> (\<forall>q k. 0 < k \<longrightarrow> (q, k) \<in> live (o_heap s) \<longrightarrow> q \<noteq> p)"
proof -
  from alloc_first_fresh [OF assms(1,3,4,2)] obtain p h' z' m where
    1: "alloc_with_options (o_heap s) sz align = Some (Ok (p, h'))" "p \<noteq> 0" "leaves a z' (o_heap s) h'" "z \<le> z' + (n + 64 + al)" "sz \<le> m"
      "live h' = insert (p, m) (live (o_heap s))" "\<forall>r \<in> live (o_heap s). regions_apart (p, m) r" by blast
  have "q \<noteq> p" if "0 < k" "(q, k) \<in> live (o_heap s)" for q k
    using 1(5,7) that assms(5) by (fastforce simp: regions_apart_def)
  with 1 assms(5) show ?thesis
    by (intro exI [of _ p] exI [of _ "s\<lparr>o_heap := h'\<rparr>"] exI [of _ z'] exI [of _ m])
       (auto simp: on_objects_def heap_box_def leaves_def)
qed

lemma vector_free:
  assumes "kept V a L s" and "p \<in> V" and fb: "first_block (o_heap s) a z"
  shows "\<exists>s'. on_objects (free_box p) s = Some (Ok (), s') \<and> kept (V - {p}) a {} s' \<and> first_block (o_heap s') a z"
proof -
  obtain n where "(p, n) \<in> live (o_heap s)" using keptD(5) [OF assms(1)] assms(2) by blast
  from dealloc_in_first_block [OF fb this] obtain h' where
    h': "free_box p (o_heap s) = Some (Ok (), h')" "first_block h' a z" "live h' = live (o_heap s) - {(p, n)}" by blast
  have "kept (V - {p}) a {} (s\<lparr>o_heap := h'\<rparr>)"
    using h'(2,3) keptD(5) [OF assms(1)] by (intro keptI) fastforce+
  with h'(1,2) show ?thesis by (auto simp: on_objects_def)
qed

lemma objects_test_passes:
  assumes "first_block (o_heap s) a z" and "6000000 \<le> z"
  shows "\<exists>s' z'. allocated_objects_have_no_overlap s = Some (Ok (), s') \<and> first_block (o_heap s') a z' \<and> z \<le> z' + 6000000"
proof -
  have ls: "layouts object_sizes = Ok object_sizes" "\<forall>l \<in> set object_sizes. good l" "length object_sizes = 34"
    using object_sizes_good layouts_Ok by (blast, blast, simp add: object_sizes_def)
  have vec: "layout_ok 544 8" "request 544 8 = Some (1024, 32)" "layout_ok 272 8" "request 272 8 = Some (512, 32)"
    using layout_ok_pow [of 8 3] by (simp_all add: request_def round_up_eq bit_length.simps HEADER_SIZE_def)
  have "1024 + 64 + 32 \<le> z" using assms(2) by simp
  from vector_box [OF assms(1) this vec(1,2)] obtain v s1 z1 m1 where
    1: "on_objects (heap_box 544 8) s = Some (Ok v, s1)" "first_block (o_heap s1) a z1" "z \<le> z1 + 1120" "0 < m1" "(v, m1) \<in> live (o_heap s1)"
    by auto
  have "512 + 64 + 32 \<le> z1" using 1(3) assms(2) by simp
  from vector_box [OF 1(2) this vec(3,4)] obtain w s2 z2 m2 where
    2: "on_objects (heap_box 272 8) s1 = Some (Ok w, s2)" "first_block (o_heap s2) a z2" "z1 \<le> z2 + 608" "0 < m2" "(w, m2) \<in> live (o_heap s2)"
      "live (o_heap s1) \<subseteq> live (o_heap s2)" "\<forall>q k. 0 < k \<longrightarrow> (q, k) \<in> live (o_heap s1) \<longrightarrow> q \<noteq> w" by auto
  define s3 where "s3 = s2\<lparr>o_pointers := replicate 34 0\<rparr>"
  have "v \<noteq> w" using 1(4,5) 2(7) by blast
  have "kept {v, w} a {} s3" using 1 2 by (intro keptI) (auto simp: s3_def)
  moreover have "first_block (o_heap s3) a z2" "length (o_pointers s3) = length object_sizes" using 2(2) ls(3) by (simp_all add: s3_def)
  moreover have "2 * sum_list (map cost object_sizes) \<le> z2" using object_costs assms(2) 1(3) 2(3) by linarith
  ultimately obtain s4 L z4 where 4: "objects_loops object_sizes s3 = Some (Ok (), s4)" "kept {v, w} a L s4"
      "first_block (o_heap s4) a z4" "z2 \<le> z4 + 2 * sum_list (map cost object_sizes)"
    using objects_loops_pass ls(2) by blast
  have "{v, w} - {w} = {v}" using \<open>v \<noteq> w\<close> by auto
  with vector_free [OF 4(2) _ 4(3), of w] obtain s5 where
    5: "on_objects (free_box w) s4 = Some (Ok (), s5)" "kept {v} a {} s5" "first_block (o_heap s5) a z4" by auto
  from vector_free [OF 5(2) _ 5(3), of v] obtain s6 where 6: "on_objects (free_box v) s5 = Some (Ok (), s6)" "first_block (o_heap s6) a z4"
    by auto
  have "z \<le> z4 + 6000000" using 1(3) 2(3) 4(4) object_costs by linarith
  with 1(1) 2(1) 4(1) 5(1) 6 ls(1,3) show ?thesis by (auto simp: allocated_objects_have_no_overlap_def s3_def)
qed

text \<open>
  The tests by their names, each on the heap it runs on; what memory holds when the last one starts is arbitrary.
  \<open>io_box_new\<close> of \<open>mmio.rs\<close>, which changes page tables, is not among them.
\<close>

definition objects_test :: "(usize \<Rightarrow> u8) \<Rightarrow> unit on_heap" where
  "objects_test m h = map_option (\<lambda>(r, s). (r, o_heap s)) (allocated_objects_have_no_overlap \<lparr>o_heap = h, o_bytes = m, o_pointers = []\<rparr>)"

definition unit_tests :: "(usize \<Rightarrow> u8) \<Rightarrow> (string \<times> unit on_heap) list" where
  "unit_tests m =
     [(''mushix::allocator::round_down_to_nearest_pow2'', \<lambda>h. Some (Ok (), h)),
      (''mushix::allocator::round_up_to_nearest_pow2_tests'', \<lambda>h. Some (round_up_to_nearest_pow2_tests, h)),
      (''mushix::allocator::test::malloc_align'', malloc_align),
      (''mushix::allocator::test::malloc_align_random_order'', malloc_align_random_order),
      (''mushix::allocator::test::allocated_objects_have_no_overlap'', objects_test m),
      (''mushix::bits::extract_bits_tests'', \<lambda>h. Some (extract_bits_tests, h)),
      (''mushix::volatile::write_bits_tests'', \<lambda>h. Some (write_bits_tests, h))]"

text \<open>Every test passes on a first block of six million bytes and leaves the block, shorter by at most as much.\<close>

lemma unit_test_passes:
  assumes "t \<in> set (unit_tests m)" and fb: "first_block h a z" and z: "6000000 \<le> z"
  shows "\<exists>h' z'. snd t h = Some (Ok (), h') \<and> first_block h' a z' \<and> z \<le> z' + 6000000"
proof -
  have used: "\<exists>h' z'. f h = Some (Ok (), h') \<and> first_block h' a z' \<and> z \<le> z' + 6000000" if "uses 2000000 f" for f
    using usesD [OF that fb] z by (fastforce simp: leaves_def)
  have objects: "\<exists>h' z'. objects_test m h = Some (Ok (), h') \<and> first_block h' a z' \<and> z \<le> z' + 6000000"
    using objects_test_passes [of "\<lparr>o_heap = h, o_bytes = m, o_pointers = []\<rparr>" a z] fb z by (auto simp: objects_test_def)
  have "snd t = malloc_align \<or> snd t = malloc_align_random_order \<or> snd t = objects_test m \<or> snd t = (\<lambda>h. Some (Ok (), h))"
    using assms(1) by (auto simp: unit_tests_def round_up_tests_pass extract_bits_tests_pass write_bits_tests_pass)
  then show ?thesis
    using used [OF malloc_align_uses] used [OF malloc_align_random_order_uses] objects fb by fastforce
qed

end
