(* ===== verification/XhciContexts.thy ===== *)
theory XhciContexts
  imports BitFields
begin

text \<open>
  The contexts that \<open>xhci.rs\<close> shares with the controller: endpoint contexts, the slot context
  inside the device context, the input context, and the array of device context pointers.
  The 32-bit words are changed with masks, as the code does; \<open>masked_write\<close> ties that to the
  fields of \<open>BitFields\<close>.
\<close>

section \<open>Endpoint contexts\<close>

datatype EndpointType = IsochOut | BulkOut | InterruptOut | Control | IsochIn | BulkIn | InterruptIn

primrec endpoint_type_code :: "EndpointType \<Rightarrow> u32" where
  "endpoint_type_code IsochOut = 1"
| "endpoint_type_code BulkOut = 2"
| "endpoint_type_code InterruptOut = 3"
| "endpoint_type_code Control = 4"
| "endpoint_type_code IsochIn = 5"
| "endpoint_type_code BulkIn = 6"
| "endpoint_type_code InterruptIn = 7"

datatype UsbMode = UnknownMode u32 | FullSpeed | LowSpeed | HighSpeed | SuperSpeed

primrec psi :: "UsbMode \<Rightarrow> u32" where
  "psi FullSpeed = 1"
| "psi LowSpeed = 2"
| "psi HighSpeed = 3"
| "psi SuperSpeed = 4"
| "psi (UnknownMode v) = v"

record EndpointContext =
  ep_data0 :: u32
  ep_data1 :: u32
  tr_deque_ptr :: u64
  average_trb_length :: u16

definition EndpointContext_new :: EndpointContext where
  "EndpointContext_new = \<lparr>ep_data0 = 0, ep_data1 = 0, tr_deque_ptr = 0, average_trb_length = 0\<rparr>"

text \<open>\<open>word &= !(m << s); word |= v << s\<close>.\<close>

definition mask_and_or :: "u32 \<Rightarrow> nat \<Rightarrow> u32 \<Rightarrow> u32 \<Rightarrow> u32" where
  "mask_and_or m s v w = (w AND NOT (push_bit s m)) OR push_bit s v"

definition set_max_burst_size :: "u8 \<Rightarrow> EndpointContext \<Rightarrow> EndpointContext result" where
  "set_max_burst_size burst_size ep =
     (if burst_size \<le> 15 then Ok (ep\<lparr>ep_data1 := mask_and_or 15 8 (ucast burst_size) (ep_data1 ep)\<rparr>)
      else Err ''Invalid max burst size'')"

definition set_ring_deque_pointer :: "u64 \<Rightarrow> EndpointContext \<Rightarrow> EndpointContext result" where
  "set_ring_deque_pointer p ep =
     rbind (write_bits (tr_deque_ptr ep) 4 60 (drop_bit 4 p)) (\<lambda>v. Ok (ep\<lparr>tr_deque_ptr := v\<rparr>))"

definition set_max_packet_size :: "u16 \<Rightarrow> EndpointContext \<Rightarrow> EndpointContext" where
  "set_max_packet_size mps ep = ep\<lparr>ep_data1 := mask_and_or 0xFFFF 16 (ucast mps) (ep_data1 ep)\<rparr>"

definition set_error_count :: "u32 \<Rightarrow> EndpointContext \<Rightarrow> EndpointContext result" where
  "set_error_count n ep =
     (if n AND NOT 3 = 0 then Ok (ep\<lparr>ep_data1 := mask_and_or 3 1 n (ep_data1 ep)\<rparr>) else Err ''Invalid error count'')"

definition set_dequeue_cycle_state :: "bool \<Rightarrow> EndpointContext \<Rightarrow> EndpointContext result" where
  "set_dequeue_cycle_state dcs ep =
     rbind (write_bits (tr_deque_ptr ep) 0 1 (of_bool dcs)) (\<lambda>v. Ok (ep\<lparr>tr_deque_ptr := v\<rparr>))"

definition set_ep_type :: "EndpointType \<Rightarrow> EndpointContext \<Rightarrow> EndpointContext result" where
  "set_ep_type ty ep =
     (if endpoint_type_code ty < 8 then Ok (ep\<lparr>ep_data1 := mask_and_or 7 3 (endpoint_type_code ty) (ep_data1 ep)\<rparr>)
      else Err ''Invalid endpoint type'')"

definition new_control_endpoint :: "u16 \<Rightarrow> u64 \<Rightarrow> EndpointContext result" where
  "new_control_endpoint mps p =
     rbind (set_ep_type Control EndpointContext_new) (\<lambda>ep.
     rbind (set_dequeue_cycle_state True ep) (\<lambda>ep.
     rbind (set_error_count 3 ep) (\<lambda>ep.
     rbind (set_ring_deque_pointer p (set_max_packet_size mps ep)) (\<lambda>ep.
       Ok (ep\<lparr>average_trb_length := 8\<rparr>)))))"

definition new_bulk_endpoint :: "u16 \<Rightarrow> u64 \<Rightarrow> EndpointType \<Rightarrow> EndpointContext result" where
  "new_bulk_endpoint mps p ty =
     rbind (set_ep_type ty EndpointContext_new) (\<lambda>ep.
     rbind (set_dequeue_cycle_state True ep) (\<lambda>ep.
     rbind (set_error_count 3 ep) (\<lambda>ep.
     rbind (set_ring_deque_pointer p (set_max_packet_size mps ep)) (\<lambda>ep.
     rbind (set_max_burst_size 0 (ep\<lparr>average_trb_length := mps\<rparr>)) (\<lambda>ep.
       Ok (ep\<lparr>ep_data0 := (ep_data0 ep AND NOT (push_bit 0 3)) OR push_bit 0 0\<rparr>))))))"

section \<open>Device and input contexts\<close>

record DeviceContext =
  slot_ctx :: "u32 list"
  ep_ctx :: "EndpointContext list"

definition DeviceContext_default :: DeviceContext where
  "DeviceContext_default = \<lparr>slot_ctx = replicate 8 0, ep_ctx = replicate 31 EndpointContext_new\<rparr>"

definition set_port_speed :: "UsbMode \<Rightarrow> DeviceContext \<Rightarrow> DeviceContext result" where
  "set_port_speed mode d =
     (if psi mode < 16 then Ok (d\<lparr>slot_ctx := (slot_ctx d)[0 := mask_and_or 15 20 (psi mode) (slot_ctx d ! 0)]\<rparr>)
      else Err ''Invalid port speed'')"

definition set_last_valid_dci :: "usize \<Rightarrow> DeviceContext \<Rightarrow> DeviceContext result" where
  "set_last_valid_dci dci d =
     (if dci \<le> 31 then Ok (d\<lparr>slot_ctx := (slot_ctx d)[0 := mask_and_or 31 27 (of_nat dci) (slot_ctx d ! 0)]\<rparr>)
      else Err ''num_ep_ctx out of range'')"

definition set_root_hub_port_number :: "usize \<Rightarrow> DeviceContext \<Rightarrow> DeviceContext result" where
  "set_root_hub_port_number port d =
     (if 0 < port \<and> port < 256
      then Ok (d\<lparr>slot_ctx := (slot_ctx d)[1 := mask_and_or 255 16 (of_nat port) (slot_ctx d ! 1)]\<rparr>)
      else Err ''Port out of range'')"

record InputControlContext =
  drop_context_bitmap :: u32
  add_context_bitmap :: u32

definition InputControlContext_default :: InputControlContext where
  "InputControlContext_default = \<lparr>drop_context_bitmap = 0, add_context_bitmap = 0\<rparr>"

definition add_context :: "usize \<Rightarrow> InputControlContext \<Rightarrow> InputControlContext result" where
  "add_context ici c =
     (if ici < 32 then Ok (c\<lparr>add_context_bitmap := add_context_bitmap c OR push_bit ici 1\<rparr>)
      else Err ''Input context index out of range'')"

record InputContext =
  input_ctrl_ctx :: InputControlContext
  device_ctx :: DeviceContext

definition InputContext_default :: InputContext where
  "InputContext_default = \<lparr>input_ctrl_ctx = InputControlContext_default, device_ctx = DeviceContext_default\<rparr>"

definition set_ep_ctx :: "usize \<Rightarrow> EndpointContext \<Rightarrow> InputContext \<Rightarrow> InputContext result" where
  "set_ep_ctx dci ep ic =
     rbind (sub_usize dci 1) (\<lambda>i.
       if i < length (ep_ctx (device_ctx ic))
       then Ok (ic\<lparr>device_ctx := (device_ctx ic)\<lparr>ep_ctx := (ep_ctx (device_ctx ic))[i := ep]\<rparr>\<rparr>)
       else Panic ''index out of bounds'')"

definition set_input_ctrl_ctx :: "InputControlContext \<Rightarrow> InputContext \<Rightarrow> InputContext result" where
  "set_input_ctrl_ctx c ic = Ok (ic\<lparr>input_ctrl_ctx := c\<rparr>)"

definition on_device_ctx :: "(DeviceContext \<Rightarrow> DeviceContext result) \<Rightarrow> InputContext \<Rightarrow> InputContext result" where
  "on_device_ctx f ic = rbind (f (device_ctx ic)) (\<lambda>d. Ok (ic\<lparr>device_ctx := d\<rparr>))"

text \<open>
  What \<open>address_device\<close> writes into the input context before the command: the contexts to
  add, the port, its speed, and the control endpoint with its ring.
\<close>

definition address_input_context :: "usize \<Rightarrow> UsbMode \<Rightarrow> u16 \<Rightarrow> u64 \<Rightarrow> InputContext result" where
  "address_input_context port mode mps ring =
     rbind (add_context 0 InputControlContext_default) (\<lambda>c.
     rbind (add_context 1 c) (\<lambda>c.
     rbind (set_input_ctrl_ctx c InputContext_default) (\<lambda>ic.
     rbind (on_device_ctx (set_root_hub_port_number port) ic) (\<lambda>ic.
     rbind (on_device_ctx (set_last_valid_dci 1) ic) (\<lambda>ic.
     rbind (on_device_ctx (set_port_speed mode) ic) (\<lambda>ic.
     rbind (new_control_endpoint mps ring) (\<lambda>ep. set_ep_ctx 1 ep ic)))))))"

text \<open>
  What \<open>configure_bulk_endpoint\<close> writes before its command: the slot context and the endpoint's
  context to add, and the endpoint's type from the direction bit of its address.
\<close>

definition bulk_type :: "u8 \<Rightarrow> EndpointType" where
  "bulk_type endpoint_address = (if endpoint_address AND 0x80 \<noteq> 0 then BulkIn else BulkOut)"

definition bulk_input_context :: "u8 \<Rightarrow> u16 \<Rightarrow> usize \<Rightarrow> u64 \<Rightarrow> InputContext result" where
  "bulk_input_context endpoint_address mps dci ring =
     rbind (add_context 0 InputControlContext_default) (\<lambda>c.
     rbind (add_context dci c) (\<lambda>c.
     rbind (set_input_ctrl_ctx c InputContext_default) (\<lambda>ic.
     rbind (new_bulk_endpoint mps ring (bulk_type endpoint_address)) (\<lambda>ep.
     rbind (set_ep_ctx dci ep ic) (\<lambda>ic.
       let current_max_dci = (if dci > 1 then dci else 1) in
       on_device_ctx (set_last_valid_dci (max dci current_max_dci)) ic)))))"

section \<open>The device context base address array\<close>

text \<open>
  \<open>context\<close> keeps the output contexts alive, \<open>raw\<close> is what the controller reads: the address of
  the context of each slot.
\<close>

record DeviceContextBaseAddressArray =
  scratchpad_table_ptr :: u64
  raw_context :: "u64 list"
  output_context :: "u64 option list"

definition DeviceContextBaseAddressArray_new :: "u64 \<Rightarrow> DeviceContextBaseAddressArray" where
  "DeviceContextBaseAddressArray_new table =
     \<lparr>scratchpad_table_ptr = table, raw_context = replicate 255 0, output_context = replicate 255 None\<rparr>"

definition set_output_context :: "u8 \<Rightarrow> u64 \<Rightarrow> DeviceContextBaseAddressArray \<Rightarrow> DeviceContextBaseAddressArray result" where
  "set_output_context slot ctx a =
     rbind (sub_usize (unat slot) 1) (\<lambda>i.
       if i < length (output_context a)
       then Ok (a\<lparr>output_context := (output_context a)[i := Some ctx], raw_context := (raw_context a)[i := ctx]\<rparr>)
       else Panic ''index out of bounds'')"

section \<open>Masks and fields\<close>

lemma mask_and_or_field:
  "m = mask width \<Longrightarrow> unat v < 2 ^ width \<Longrightarrow> mask_and_or m s v w = set_field w s width v"
  by (simp add: mask_and_or_def set_field_def or.commute)

lemmas mask_numerals = mask_eq_exp_minus_1

lemma unat_ucast_u16: "unat (ucast (x :: u16) :: u32) < 2 ^ 16"
proof -
  have "unat x < 2 ^ LENGTH(16)" by (rule unsigned_less)
  then show ?thesis by (simp add: unsigned_ucast_eq take_bit_nat_eq_self)
qed

lemma set_max_packet_size_field:
  "set_max_packet_size mps ep = ep\<lparr>ep_data1 := set_field (ep_data1 ep) 16 16 (ucast mps)\<rparr>"
  using mask_and_or_field [of "0xFFFF" 16 "ucast mps" 16] unat_ucast_u16 [of mps]
  by (simp add: set_max_packet_size_def mask_numerals)

lemma set_ep_type_field: "set_ep_type ty ep = Ok (ep\<lparr>ep_data1 := set_field (ep_data1 ep) 3 3 (endpoint_type_code ty)\<rparr>)"
proof -
  have "endpoint_type_code ty < 8" "unat (endpoint_type_code ty) < 2 ^ 3" by (cases ty; simp)+
  then show ?thesis using mask_and_or_field [of 7 3 "endpoint_type_code ty" 3] by (simp add: set_ep_type_def mask_numerals)
qed

lemma set_error_count_field: "set_error_count 3 ep = Ok (ep\<lparr>ep_data1 := set_field (ep_data1 ep) 1 2 3\<rparr>)"
  using mask_and_or_field [of 3 2 3 1] by (simp add: set_error_count_def mask_numerals)

lemma set_max_burst_field: "set_max_burst_size 0 ep = Ok (ep\<lparr>ep_data1 := set_field (ep_data1 ep) 8 4 0\<rparr>)"
  using mask_and_or_field [of 15 4 0 8] by (simp add: set_max_burst_size_def mask_numerals)

lemma set_dequeue_cycle_field: "set_dequeue_cycle_state c ep = Ok (ep\<lparr>tr_deque_ptr := set_field (tr_deque_ptr ep) 0 1 (of_bool c)\<rparr>)"
  by (simp add: set_dequeue_cycle_state_def write_bits_eq)

lemma set_ring_deque_field: "set_ring_deque_pointer p ep = Ok (ep\<lparr>tr_deque_ptr := set_field (tr_deque_ptr ep) 4 60 (drop_bit 4 p)\<rparr>)"
proof -
  have "unat p < 2 ^ LENGTH(64)" by (rule unsigned_less)
  then have "unat p div 2 ^ 4 < 2 ^ 60" by (simp add: div_less_iff_less_mult)
  then have "unat (drop_bit 4 p) < 2 ^ 60"
    by (simp add: drop_bit_eq_div unat_div)
  then show ?thesis by (simp add: set_ring_deque_pointer_def write_bits_eq)
qed

section \<open>Endpoints as the controller reads them\<close>

text \<open>
  The fields of an endpoint context: the type, error count, burst and packet size, the cycle
  state and the dequeue pointer.
\<close>

definition endpoint_is :: "EndpointContext \<Rightarrow> EndpointType \<Rightarrow> u16 \<Rightarrow> u64 \<Rightarrow> bool" where
  "endpoint_is ep ty mps ring \<longleftrightarrow>
     get_field (ep_data1 ep) 3 3 = endpoint_type_code ty \<and> get_field (ep_data1 ep) 1 2 = 3 \<and>
     get_field (ep_data1 ep) 8 4 = 0 \<and> get_field (ep_data1 ep) 16 16 = ucast mps \<and>
     tr_deque_ptr ep = (ring AND NOT 15) OR 1"

lemma fits_type [simp]: "take_bit 3 (endpoint_type_code ty) = endpoint_type_code ty"
  by (cases ty) simp_all

lemma fits_u16 [simp]: "take_bit 16 (ucast (x :: u16) :: u32) = ucast x"
  using unat_ucast_u16 by (simp add: take_bit_eq_self_unat)

lemma deque_word:
  "set_field (set_field 0 0 1 1) 4 60 (drop_bit 4 p) = (p AND NOT 15) OR (1 :: u64)"
proof (rule bit_word_eqI)
  fix n assume "n < LENGTH(64)"
  have m: "(15 :: u64) = mask 4" by (simp add: mask_numerals)
  show "bit (set_field (set_field 0 0 1 1) 4 60 (drop_bit 4 p)) n = bit ((p AND NOT 15) OR (1 :: u64)) n"
    using \<open>n < LENGTH(64)\<close> unfolding m
    by (auto simp: bit_set_field bit_simps)
qed

lemma get_field_zero [simp]: "get_field 0 s w = 0"
  by (simp add: get_field_def)

definition control_endpoint :: "u16 \<Rightarrow> u64 \<Rightarrow> EndpointContext" where
  "control_endpoint mps p = \<lparr>ep_data0 = 0,
     ep_data1 = set_field (set_field (set_field 0 3 3 4) 1 2 3) 16 16 (ucast mps),
     tr_deque_ptr = (p AND NOT 15) OR 1, average_trb_length = 8\<rparr>"

lemma new_control_endpoint_eq: "new_control_endpoint mps p = Ok (control_endpoint mps p)"
  by (simp add: new_control_endpoint_def control_endpoint_def EndpointContext_new_def set_ep_type_field
      set_dequeue_cycle_field set_error_count_field set_max_packet_size_field set_ring_deque_field deque_word [simplified])

lemma control_endpoint_is: "endpoint_is (control_endpoint mps p) Control mps p"
  by (simp add: endpoint_is_def control_endpoint_def get_set_field get_set_field_other)

definition bulk_endpoint :: "u16 \<Rightarrow> u64 \<Rightarrow> EndpointType \<Rightarrow> EndpointContext" where
  "bulk_endpoint mps p ty = \<lparr>ep_data0 = 0,
     ep_data1 = set_field (set_field (set_field (set_field 0 3 3 (endpoint_type_code ty)) 1 2 3) 16 16 (ucast mps)) 8 4 0,
     tr_deque_ptr = (p AND NOT 15) OR 1, average_trb_length = mps\<rparr>"

lemma new_bulk_endpoint_eq: "new_bulk_endpoint mps p ty = Ok (bulk_endpoint mps p ty)"
  by (simp add: new_bulk_endpoint_def bulk_endpoint_def EndpointContext_new_def set_ep_type_field
      set_dequeue_cycle_field set_error_count_field set_max_packet_size_field set_ring_deque_field
      set_max_burst_field deque_word [simplified])

lemma bulk_endpoint_is: "endpoint_is (bulk_endpoint mps p ty) ty mps p"
  by (simp add: endpoint_is_def bulk_endpoint_def get_set_field get_set_field_other)

section \<open>Properties\<close>

definition device_context_of :: "u32 \<Rightarrow> u32 \<Rightarrow> EndpointContext list \<Rightarrow> DeviceContext" where
  "device_context_of s0 s1 eps = \<lparr>slot_ctx = s0 # s1 # replicate 6 0, ep_ctx = eps\<rparr>"

lemma device_context_of_ep [simp]:
  "ep_ctx (device_context_of s0 s1 eps) = eps"
  "device_context_of s0 s1 eps\<lparr>ep_ctx := eps'\<rparr> = device_context_of s0 s1 eps'"
  by (simp_all add: device_context_of_def)

lemma default_device_context: "DeviceContext_default = device_context_of 0 0 (replicate 31 EndpointContext_new)"
  by (simp add: DeviceContext_default_def device_context_of_def numeral_eq_Suc)

lemma unat_fits: "n < 2 ^ k \<Longrightarrow> k \<le> 32 \<Longrightarrow> unat (of_nat n :: u32) < 2 ^ k"
proof -
  assume n: "n < 2 ^ k" and k: "k \<le> 32"
  have "unat (of_nat n :: u32) \<le> n" by (simp add: unsigned_of_nat take_bit_nat_less_eq_self)
  with n show ?thesis by linarith
qed

lemma set_port_speed_on:
  "psi mode < 16 \<Longrightarrow> set_port_speed mode (device_context_of s0 s1 eps) =
     Ok (device_context_of (set_field s0 20 4 (psi mode)) s1 eps)"
  using mask_and_or_field [of 15 4 "psi mode" 20]
  by (simp add: set_port_speed_def device_context_of_def mask_numerals word_less_nat_alt)

lemma set_last_valid_dci_on:
  "dci \<le> 31 \<Longrightarrow> set_last_valid_dci dci (device_context_of s0 s1 eps) =
     Ok (device_context_of (set_field s0 27 5 (of_nat dci)) s1 eps)"
  using mask_and_or_field [of 31 5 "of_nat dci" 27] unat_fits [of dci 5]
  by (simp add: set_last_valid_dci_def device_context_of_def mask_numerals)

lemma set_root_hub_port_number_on:
  "0 < port \<Longrightarrow> port < 256 \<Longrightarrow> set_root_hub_port_number port (device_context_of s0 s1 eps) =
     Ok (device_context_of s0 (set_field s1 16 8 (of_nat port)) eps)"
  using mask_and_or_field [of 255 8 "of_nat port" 16] unat_fits [of port 8]
  by (simp add: set_root_hub_port_number_def device_context_of_def mask_numerals)

lemmas input_context_defs = InputContext_default_def InputControlContext_default_def
  default_device_context on_device_ctx_def set_input_ctrl_ctx_def add_context_def

lemma address_input_context_eq:
  assumes "0 < port" "port < 256" "psi mode < 16"
  shows "address_input_context port mode mps ring = Ok \<lparr>
    input_ctrl_ctx = \<lparr>drop_context_bitmap = 0, add_context_bitmap = 3\<rparr>,
    device_ctx = device_context_of (set_field (set_field 0 27 5 1) 20 4 (psi mode)) (set_field 0 16 8 (of_nat port))
      ((replicate 31 EndpointContext_new)[0 := control_endpoint mps ring])\<rparr>"
  using assms set_last_valid_dci_on [of 1]
  by (simp add: address_input_context_def input_context_defs set_root_hub_port_number_on
      set_port_speed_on new_control_endpoint_eq set_ep_ctx_def checked_defs)

lemma bulk_input_context_eq:
  assumes "1 \<le> dci" "dci \<le> 31"
  shows "bulk_input_context addr mps dci ring = Ok \<lparr>
    input_ctrl_ctx = \<lparr>drop_context_bitmap = 0, add_context_bitmap = 1 OR push_bit dci 1\<rparr>,
    device_ctx = device_context_of (set_field 0 27 5 (of_nat dci)) 0
      ((replicate 31 EndpointContext_new)[dci - 1 := bulk_endpoint mps ring (bulk_type addr)])\<rparr>"
  using assms set_last_valid_dci_on [of dci]
  by (simp add: bulk_input_context_def input_context_defs new_bulk_endpoint_eq set_ep_ctx_def checked_defs
      Let_def max_def) arith

lemma take_bit_of_nat_u32 [simp]: "n < 2 ^ k \<Longrightarrow> k \<le> 32 \<Longrightarrow> take_bit k (of_nat n :: u32) = of_nat n"
  by (simp add: take_bit_eq_self_unat unat_fits)

lemma take_bit_psi: "psi mode < 16 \<Longrightarrow> take_bit 4 (psi mode) = psi mode"
  by (simp add: take_bit_eq_self_unat word_less_nat_alt)


text \<open>
  The input context of \<open>configure_bulk_endpoint\<close> for a device context index in 1 to 31: the
  slot and that endpoint are the contexts to add, the index is the last valid one, and its endpoint
  context alone is written, with the transfer type that the direction bit of the endpoint address
  asks for. An index from 32 on is an error, index 0 a subtraction overflow.
\<close>

theorem bulk_input_context_correct:
  "if dci = 0 then \<exists>p. bulk_input_context addr mps dci ring = Panic p
   else if 31 < dci then \<exists>e. bulk_input_context addr mps dci ring = Err e
   else \<exists>ic. bulk_input_context addr mps dci ring = Ok ic \<and>
     (\<forall>n. bit (add_context_bitmap (input_ctrl_ctx ic)) n = (n = 0 \<or> n = dci)) \<and>
     drop_context_bitmap (input_ctrl_ctx ic) = 0 \<and>
     get_field (slot_ctx (device_ctx ic) ! 0) 27 5 = of_nat dci \<and>
     endpoint_is (ep_ctx (device_ctx ic) ! (dci - 1)) (if bit addr 7 then BulkIn else BulkOut) mps ring \<and>
     ep_ctx (device_ctx ic) = (replicate 31 EndpointContext_new)[dci - 1 := ep_ctx (device_ctx ic) ! (dci - 1)]"
proof -
  consider "dci = 0" | "31 < dci" | "1 \<le> dci" "dci \<le> 31" by linarith
  then show ?thesis
  proof cases
    case 3
    have "(addr AND 0x80 \<noteq> 0) = bit addr 7"
      using and_exp_eq_0_iff_not_bit [of addr 7] by simp
    then have type: "bulk_type addr = (if bit addr 7 then BulkIn else BulkOut)"
      by (simp add: bulk_type_def)
    have "endpoint_is (bulk_endpoint mps ring (bulk_type addr)) (if bit addr 7 then BulkIn else BulkOut) mps ring"
      unfolding type by (rule bulk_endpoint_is)
    with 3 show ?thesis
      by (simp add: bulk_input_context_eq device_context_of_def get_set_field) (auto simp: bit_simps)
  qed (auto simp: bulk_input_context_def input_context_defs new_bulk_endpoint_eq set_ep_ctx_def checked_defs)
qed

section \<open>The table of device contexts\<close>

text \<open>\<open>m\<close> says which context each slot has; what the controller reads agrees with what is kept alive.\<close>

definition contexts_are :: "(u8 \<rightharpoonup> u64) \<Rightarrow> DeviceContextBaseAddressArray \<Rightarrow> bool" where
  "contexts_are m a \<longleftrightarrow> length (output_context a) = 255 \<and> length (raw_context a) = 255 \<and>
     (\<forall>slot. slot \<noteq> 0 \<longrightarrow> output_context a ! (unat slot - 1) = m slot \<and>
        raw_context a ! (unat slot - 1) = (case m slot of None \<Rightarrow> 0 | Some p \<Rightarrow> p))"

lemma slot_index:
  assumes "(slot :: u8) \<noteq> 0"
  shows "1 \<le> unat slot" "unat slot - 1 < 255"
proof -
  have "unat slot < 2 ^ LENGTH(8)" by (rule unsigned_less)
  moreover have "0 < unat slot" using assms by (simp add: unat_gt_0)
  ultimately show "1 \<le> unat slot" "unat slot - 1 < 255" by auto
qed

lemma slot_index_eq:
  assumes "(s :: u8) \<noteq> 0" "t \<noteq> 0"
  shows "unat s - 1 = unat t - 1 \<longleftrightarrow> s = t"
  using slot_index(1) [OF assms(1)] slot_index(1) [OF assms(2)] by (auto simp: word_unat_eq_iff)

lemma contexts_are_new: "contexts_are Map.empty (DeviceContextBaseAddressArray_new t)"
  using slot_index(2) by (simp add: contexts_are_def DeviceContextBaseAddressArray_new_def)

lemma set_output_context_step:
  assumes "contexts_are m a" "slot \<noteq> 0"
  shows "\<exists>a'. set_output_context slot p a = Ok a' \<and> contexts_are (m(slot \<mapsto> p)) a' \<and>
     scratchpad_table_ptr a' = scratchpad_table_ptr a"
  using assms slot_index [OF assms(2)] slot_index slot_index_eq [OF assms(2)]
  by (auto simp: set_output_context_def contexts_are_def checked_defs nth_list_update)

text \<open>
  Whatever contexts are registered, for slots the controller hands out (never 0), every
  registration succeeds, and the table the controller reads holds for each slot the address of the
  context registered last for it, 0 when there is none, which is also the one kept alive; the
  pointer to the scratchpad buffers stays.
\<close>

theorem output_contexts_registered:
  assumes "\<forall>(slot, p) \<in> set regs. slot \<noteq> 0"
  shows "\<exists>a. rfold (\<lambda>(slot, p). set_output_context slot p) regs (DeviceContextBaseAddressArray_new t) = Ok a \<and>
    contexts_are (map_of (rev regs)) a \<and> scratchpad_table_ptr a = t"
  using assms
proof (induction regs rule: rev_induct)
  case Nil
  then show ?case using contexts_are_new by (simp add: DeviceContextBaseAddressArray_new_def)
next
  case (snoc r regs)
  obtain slot p where r: "r = (slot, p)" by fastforce
  with snoc obtain a where a: "contexts_are (map_of (rev regs)) a" "scratchpad_table_ptr a = t"
    "rfold (\<lambda>(slot, p). set_output_context slot p) regs (DeviceContextBaseAddressArray_new t) = Ok a"
    by auto
  from set_output_context_step [OF a(1), of slot p] snoc.prems a r show ?case
    by (auto simp: rfold_append fun_upd_def)
qed

theorem output_contexts_registered_witness:
  "\<exists>a. rfold (\<lambda>(slot, p). set_output_context slot p) [(1, 0x5000), (255, 0x6000), (1, 0x7000)]
      (DeviceContextBaseAddressArray_new 0x4000) = Ok a \<and>
    contexts_are (map_of (rev [(1, 0x5000), (255, 0x6000), (1, 0x7000)])) a \<and> scratchpad_table_ptr a = 0x4000"
  by (rule output_contexts_registered) simp

end
