(* ===== verification/Trb.thy ===== *)
theory Trb
  imports BitFields
begin

text \<open>
  Transfer request blocks of \<open>xhci.rs\<close> and \<open>trb.rs\<close>: the 16-byte entry and its bit fields, the
  commands and the stages of a control transfer, and \<open>TrbRing\<close>, the segment of 16 entries
  that \<open>Ring\<close> builds the command ring and the event ring on. The accessors go through
  \<open>read_bits\<close> and \<open>write_bits\<close> of \<open>BitFields\<close>, as the code goes through \<open>Volatile\<close>.
\<close>

section \<open>Entries\<close>

datatype TrbType =
    Normal | SetupStage | DataStage | StatusStage | Link | EnableSlotCommand | AddressDeviceCommand
  | ConfigureEndpointCommand | EvaluateContextCommand | NoOpCommand | TransferEvent
  | CommandCompletionEvent | PortStatusChangeEvent | HostControllerEvent

primrec trb_type_code :: "TrbType \<Rightarrow> u32" where
  "trb_type_code Normal = 1"
| "trb_type_code SetupStage = 2"
| "trb_type_code DataStage = 3"
| "trb_type_code StatusStage = 4"
| "trb_type_code Link = 6"
| "trb_type_code EnableSlotCommand = 9"
| "trb_type_code AddressDeviceCommand = 11"
| "trb_type_code ConfigureEndpointCommand = 12"
| "trb_type_code EvaluateContextCommand = 13"
| "trb_type_code NoOpCommand = 23"
| "trb_type_code TransferEvent = 32"
| "trb_type_code CommandCompletionEvent = 33"
| "trb_type_code PortStatusChangeEvent = 34"
| "trb_type_code HostControllerEvent = 37"

record GenericTrbEntry =
  trb_data :: u64
  trb_option :: u32
  trb_control :: u32

definition default_trb :: GenericTrbEntry where
  "default_trb = \<lparr>trb_data = 0, trb_option = 0, trb_control = 0\<rparr>"

definition CTRL_BIT_INTERRUPT_ON_SHORT_PACKET :: u32 where
  [field_defs]: "CTRL_BIT_INTERRUPT_ON_SHORT_PACKET = push_bit 2 1"

definition CTRL_BIT_INTERRUPT_ON_COMPLETION :: u32 where
  [field_defs]: "CTRL_BIT_INTERRUPT_ON_COMPLETION = push_bit 5 1"

definition CTRL_BIT_IMMEDIATE_DATA :: u32 where
  [field_defs]: "CTRL_BIT_IMMEDIATE_DATA = push_bit 6 1"

definition CTRL_BIT_DATA_DIR_OUT :: u32 where
  [field_defs]: "CTRL_BIT_DATA_DIR_OUT = push_bit 16 0"

definition CTRL_BIT_DATA_DIR_IN :: u32 where
  [field_defs]: "CTRL_BIT_DATA_DIR_IN = push_bit 16 1"

text \<open>A field of the control word written through \<open>write_bits(..).unwrap()\<close>.\<close>

definition write_control :: "usize \<Rightarrow> usize \<Rightarrow> u32 \<Rightarrow> GenericTrbEntry \<Rightarrow> GenericTrbEntry result" where
  "write_control shift width val e =
     rbind (unwrap (write_bits (trb_control e) shift width val)) (\<lambda>c. Ok (e\<lparr>trb_control := c\<rparr>))"

definition set_trb_type :: "TrbType \<Rightarrow> GenericTrbEntry \<Rightarrow> GenericTrbEntry result" where
  "set_trb_type ty e = write_control 10 6 (trb_type_code ty) e"

definition set_cycle_state :: "bool \<Rightarrow> GenericTrbEntry \<Rightarrow> GenericTrbEntry result" where
  "set_cycle_state cycle e = write_control 0 1 (of_bool cycle) e"

definition set_toggle_cycle :: "bool \<Rightarrow> GenericTrbEntry \<Rightarrow> GenericTrbEntry result" where
  "set_toggle_cycle v e = write_control 1 1 (of_bool v) e"

definition set_slot_id :: "u8 \<Rightarrow> GenericTrbEntry \<Rightarrow> GenericTrbEntry result" where
  "set_slot_id slot e = write_control 24 8 (ucast slot) e"

definition slot_id :: "GenericTrbEntry \<Rightarrow> u8 result" where
  "slot_id e = rbind (read_bits (trb_control e) 24 8) (\<lambda>v.
     if unat v < 256 then Ok (ucast v) else Panic ''called unwrap on an Err'')"

definition trb_type :: "GenericTrbEntry \<Rightarrow> u32 result" where
  "trb_type e = read_bits (trb_control e) 10 6"

definition cycle_state :: "GenericTrbEntry \<Rightarrow> bool result" where
  "cycle_state e = rbind (read_bits (trb_control e) 0 1) (\<lambda>v. Ok (v \<noteq> 0))"

definition completion_code :: "GenericTrbEntry \<Rightarrow> u32 result" where
  "completion_code e = read_bits (trb_option e) 24 8"

definition cmd_result_ok :: "GenericTrbEntry \<Rightarrow> unit result" where
  "cmd_result_ok e =
     rbind (trb_type e) (\<lambda>ty. rbind (completion_code e) (\<lambda>code.
       if ty \<noteq> trb_type_code CommandCompletionEvent then Err ''Not a Command Completion Event''
       else if code \<noteq> 1 then Err ''Command Completion Event with error code''
       else Ok ()))"

definition transfer_result_ok :: "GenericTrbEntry \<Rightarrow> unit result" where
  "transfer_result_ok e =
     rbind (trb_type e) (\<lambda>ty. rbind (completion_code e) (\<lambda>code.
       if ty \<noteq> trb_type_code TransferEvent then Err ''Not a TransferEvent''
       else if code \<noteq> 1 \<and> code \<noteq> 13 then Err ''Transfer Event with error code''
       else Ok ()))"

text \<open>Commands; contexts and rings enter them by their address.\<close>

definition trb_link :: "u64 \<Rightarrow> GenericTrbEntry result" where
  "trb_link ring_phys_addr =
     rbind (set_trb_type Link default_trb) (\<lambda>trb. set_toggle_cycle True (trb\<lparr>trb_data := ring_phys_addr\<rparr>))"

definition cmd_enable_slot :: "GenericTrbEntry result" where
  "cmd_enable_slot = set_trb_type EnableSlotCommand default_trb"

definition cmd_address_device :: "u64 \<Rightarrow> u8 \<Rightarrow> GenericTrbEntry result" where
  "cmd_address_device input_context slot =
     rbind (set_trb_type AddressDeviceCommand default_trb) (\<lambda>trb. set_slot_id slot (trb\<lparr>trb_data := input_context\<rparr>))"

definition cmd_configure_endpoint :: "u64 \<Rightarrow> u8 \<Rightarrow> GenericTrbEntry result" where
  "cmd_configure_endpoint input_context slot =
     rbind (set_trb_type ConfigureEndpointCommand default_trb) (\<lambda>trb. set_slot_id slot (trb\<lparr>trb_data := input_context\<rparr>))"

section \<open>Stages of a transfer\<close>

definition REQ_TYPE_DIR_DEVICE_TO_HOST :: u8 where
  [field_defs]: "REQ_TYPE_DIR_DEVICE_TO_HOST = push_bit 7 1"

definition REQ_TYPE_TO_INTERFACE :: u8 where
  [field_defs]: "REQ_TYPE_TO_INTERFACE = 1"

definition REQ_GET_DESCRIPTOR :: u8 where
  [field_defs]: "REQ_GET_DESCRIPTOR = 6"

definition REQ_SET_CONFIGURATION :: u8 where
  [field_defs]: "REQ_SET_CONFIGURATION = 9"

definition REQ_SET_INTERFACE :: u8 where
  [field_defs]: "REQ_SET_INTERFACE = 11"

record SetupStageTrb =
  request_type :: u8
  request :: u8
  setup_value :: u16
  setup_index :: u16
  setup_length :: u16
  setup_option :: u32
  setup_control :: u32

definition SetupStageTrb_new :: "u8 \<Rightarrow> u8 \<Rightarrow> u16 \<Rightarrow> u16 \<Rightarrow> u16 \<Rightarrow> SetupStageTrb" where
  "SetupStageTrb_new rt req val idx len =
     (let transfer_type =
        (if len = 0 then 0 else if req AND REQ_TYPE_DIR_DEVICE_TO_HOST \<noteq> 0 then 3 else 2)
      in \<lparr>request_type = rt, request = req, setup_value = val, setup_index = idx, setup_length = len,
          setup_option = 8,
          setup_control = push_bit 16 transfer_type OR push_bit 10 (trb_type_code SetupStage) OR CTRL_BIT_IMMEDIATE_DATA\<rparr>)"

text \<open>The \<open>transmute\<close> of the setup stage into an entry: its first eight bytes, little-endian.\<close>

definition setup_into_trb :: "SetupStageTrb \<Rightarrow> GenericTrbEntry" where
  "setup_into_trb s =
     \<lparr>trb_data = ucast (request_type s) OR push_bit 8 (ucast (request s)) OR push_bit 16 (ucast (setup_value s)) OR
        push_bit 32 (ucast (setup_index s)) OR push_bit 48 (ucast (setup_length s)),
      trb_option = setup_option s, trb_control = setup_control s\<rparr>"

text \<open>
  The other stages have the layout of an entry, so their \<open>transmute\<close> keeps the words. A
  buffer is its address and its size in bytes; the cast to \<open>u32\<close> truncates.
\<close>

definition data_stage_in :: "u64 \<Rightarrow> usize \<Rightarrow> GenericTrbEntry" where
  "data_stage_in buf len = \<lparr>trb_data = buf, trb_option = of_nat len,
     trb_control = push_bit 10 (trb_type_code DataStage) OR CTRL_BIT_DATA_DIR_IN OR
       CTRL_BIT_INTERRUPT_ON_COMPLETION OR CTRL_BIT_INTERRUPT_ON_SHORT_PACKET\<rparr>"

definition data_stage_out :: "u64 \<Rightarrow> usize \<Rightarrow> GenericTrbEntry" where
  "data_stage_out buf len = \<lparr>trb_data = buf, trb_option = of_nat len,
     trb_control = push_bit 10 (trb_type_code DataStage) OR CTRL_BIT_DATA_DIR_OUT OR
       CTRL_BIT_INTERRUPT_ON_COMPLETION OR CTRL_BIT_INTERRUPT_ON_SHORT_PACKET\<rparr>"

definition status_stage_out :: GenericTrbEntry where
  "status_stage_out = \<lparr>trb_data = 0, trb_option = 0, trb_control = push_bit 10 (trb_type_code StatusStage)\<rparr>"

definition status_stage_in :: GenericTrbEntry where
  "status_stage_in = \<lparr>trb_data = 0, trb_option = 0,
     trb_control = push_bit 10 (trb_type_code StatusStage) OR CTRL_BIT_DATA_DIR_IN OR
       CTRL_BIT_INTERRUPT_ON_COMPLETION OR CTRL_BIT_INTERRUPT_ON_SHORT_PACKET\<rparr>"

definition normal_in :: "u64 \<Rightarrow> usize \<Rightarrow> GenericTrbEntry" where
  "normal_in buf len = \<lparr>trb_data = buf, trb_option = of_nat len,
     trb_control = push_bit 10 (trb_type_code Normal) OR CTRL_BIT_DATA_DIR_IN OR
       CTRL_BIT_INTERRUPT_ON_COMPLETION OR CTRL_BIT_INTERRUPT_ON_SHORT_PACKET\<rparr>"

definition normal_out :: "u64 \<Rightarrow> usize \<Rightarrow> GenericTrbEntry" where
  "normal_out buf len = \<lparr>trb_data = buf, trb_option = of_nat len,
     trb_control = push_bit 10 (trb_type_code Normal) OR CTRL_BIT_INTERRUPT_ON_SHORT_PACKET OR
       CTRL_BIT_INTERRUPT_ON_COMPLETION OR CTRL_BIT_DATA_DIR_OUT\<rparr>"

section \<open>The ring segment\<close>

definition NUM_TRB :: usize where
  "NUM_TRB = 16"

record TrbRing =
  trbs :: "GenericTrbEntry list"
  current_index :: usize
  ring_addr :: u64

text \<open>A zeroed ring in the \<open>IoBox\<close> at an address.\<close>

definition TrbRing_new :: "u64 \<Rightarrow> TrbRing" where
  "TrbRing_new addr = \<lparr>trbs = replicate NUM_TRB default_trb, current_index = 0, ring_addr = addr\<rparr>"

definition ring_write :: "usize \<Rightarrow> GenericTrbEntry \<Rightarrow> TrbRing \<Rightarrow> TrbRing result" where
  "ring_write i trb r =
     (if i < length (trbs r) then Ok (r\<lparr>trbs := (trbs r)[i := trb]\<rparr>) else Err ''TrbRing out of range'')"

definition phys_addr :: "TrbRing \<Rightarrow> u64" where
  "phys_addr r = ring_addr r"

definition ring_trb :: "usize \<Rightarrow> TrbRing \<Rightarrow> GenericTrbEntry result" where
  "ring_trb i r = (if i < length (trbs r) then Ok (trbs r ! i) else Panic ''index out of bounds'')"

definition current :: "TrbRing \<Rightarrow> GenericTrbEntry result" where
  "current r = ring_trb (current_index r) r"

definition current_ptr :: "TrbRing \<Rightarrow> u64 result" where
  "current_ptr r =
     (if current_index r < length (trbs r) then Ok (ring_addr r + of_nat (16 * current_index r))
      else Panic ''index out of bounds'')"

definition advance_index_notoggle :: "bool \<Rightarrow> TrbRing \<Rightarrow> TrbRing result" where
  "advance_index_notoggle cycle_ours r =
     rbind (rbind (current r) cycle_state) (\<lambda>c.
       if c \<noteq> cycle_ours then Err ''cycle state mismatch''
       else Ok (r\<lparr>current_index := (current_index r + 1) mod length (trbs r)\<rparr>))"

definition advance_index :: "bool \<Rightarrow> TrbRing \<Rightarrow> TrbRing result" where
  "advance_index new_cycle r =
     rbind (current r) (\<lambda>e. rbind (cycle_state e) (\<lambda>c.
       if c = new_cycle then Err ''cycle state mismatch''
       else rbind (set_cycle_state new_cycle e) (\<lambda>e'.
            Ok (r\<lparr>trbs := (trbs r)[current_index r := e'],
                   current_index := (current_index r + 1) mod length (trbs r)\<rparr>))))"

definition write_current :: "GenericTrbEntry \<Rightarrow> TrbRing \<Rightarrow> TrbRing result" where
  "write_current trb r = unwrap (ring_write (current_index r) trb r)"

section \<open>The accessors in terms of fields\<close>

definition with_cycle :: "bool \<Rightarrow> GenericTrbEntry \<Rightarrow> GenericTrbEntry" where
  "with_cycle c e = e\<lparr>trb_control := set_field (trb_control e) 0 1 (of_bool c)\<rparr>"

lemma write_control_eq:
  "width < 32 \<Longrightarrow> shift < 32 \<Longrightarrow> unat val < 2 ^ width \<Longrightarrow>
   write_control shift width val e = Ok (e\<lparr>trb_control := set_field (trb_control e) shift width val\<rparr>)"
  by (simp add: write_control_def write_bits_eq)

lemma trb_type_code_bound: "unat (trb_type_code ty) < 2 ^ 6"
  by (cases ty) simp_all

lemma set_trb_type_eq: "set_trb_type ty e = Ok (e\<lparr>trb_control := set_field (trb_control e) 10 6 (trb_type_code ty)\<rparr>)"
  using trb_type_code_bound [of ty] by (simp add: set_trb_type_def write_control_eq)

lemma set_cycle_state_eq [simp]: "set_cycle_state c e = Ok (with_cycle c e)"
  by (simp add: set_cycle_state_def write_control_eq with_cycle_def)

lemma set_toggle_cycle_eq: "set_toggle_cycle c e = Ok (e\<lparr>trb_control := set_field (trb_control e) 1 1 (of_bool c)\<rparr>)"
  by (simp add: set_toggle_cycle_def write_control_eq)

lemma unat_ucast_u8: "unat (ucast (s :: u8) :: u32) < 2 ^ 8"
proof -
  have "unat s < 2 ^ LENGTH(8)" by (rule unsigned_less)
  then show ?thesis by (simp add: unsigned_ucast_eq take_bit_nat_eq_self)
qed

lemma set_slot_id_eq: "set_slot_id s e = Ok (e\<lparr>trb_control := set_field (trb_control e) 24 8 (ucast s)\<rparr>)"
  using unat_ucast_u8 [of s] by (simp add: set_slot_id_def write_control_eq)

lemma trb_type_eq [simp]: "trb_type e = Ok (get_field (trb_control e) 10 6)"
  by (simp add: trb_type_def read_bits_eq)

lemma completion_code_eq [simp]: "completion_code e = Ok (get_field (trb_option e) 24 8)"
  by (simp add: completion_code_def read_bits_eq)

lemma slot_id_eq [simp]: "slot_id e = Ok (ucast (get_field (trb_control e) 24 8))"
proof -
  have "unat (get_field (trb_control e) 24 8) < 2 ^ 8"
    by (simp only: get_field_def flip: take_bit_eq_self_unat) simp
  then show ?thesis by (simp add: slot_id_def read_bits_eq)
qed

lemma get_bit_field: "get_field w i 1 = of_bool (bit (w :: u32) i)"
  by (simp add: get_field_def bit_iff_odd_drop_bit take_bit_Suc mod_2_eq_odd)

lemma cycle_state_eq [simp]: "cycle_state e = Ok (bit (trb_control e) 0)"
  using get_bit_field [of "trb_control e" 0] by (simp add: cycle_state_def read_bits_eq)

lemma with_cycle_simps [simp]:
  "bit (trb_control (with_cycle c e)) 0 = c"
  "get_field (trb_control (with_cycle c e)) 10 6 = get_field (trb_control e) 10 6"
  "with_cycle c (with_cycle d e) = with_cycle c e"
  by (simp_all add: with_cycle_def bit_set_field get_set_field_other set_set_field)

end
