(* ===== verification/EventRing.thy ===== *)
theory EventRing
  imports Trb
begin

text \<open>
  \<open>EventRing\<close> of \<open>xhci.rs\<close>: the consumer side of a TRB ring, the waiters registered with it
  and the futures that read what a waiter received. A waiter is shared: the future owns it
  (\<open>Rc\<close>) and the ring refers to it (\<open>Weak\<close>). Waiters live in a store from identities to
  their state; a waiter whose future is gone has left the store, so that \<open>upgrade\<close> fails
  and \<open>strong_count\<close> is 0.
\<close>

section \<open>Waiters\<close>

record EventWaitCond =
  cond_trb_type :: "TrbType option"
  cond_trb_addr :: "u64 option"
  cond_slot :: "u8 option"

record EventWaitInfo =
  cond :: EventWaitCond
  wait_trbs :: "GenericTrbEntry list"

type_synonym waiters = "nat \<rightharpoonup> EventWaitInfo"

definition matches :: "EventWaitInfo \<Rightarrow> GenericTrbEntry \<Rightarrow> bool result" where
  "matches w e =
     (if (case cond_trb_addr (cond w) of None \<Rightarrow> False | Some a \<Rightarrow> trb_data e \<noteq> a) then Ok False
      else rbind (trb_type e) (\<lambda>ty.
        if (case cond_trb_type (cond w) of None \<Rightarrow> False | Some t \<Rightarrow> ty \<noteq> trb_type_code t) then Ok False
        else rbind (slot_id e) (\<lambda>s.
          Ok (\<not> (case cond_slot (cond w) of None \<Rightarrow> False | Some slot \<Rightarrow> s \<noteq> slot)))))"

definition resolve :: "nat \<Rightarrow> GenericTrbEntry \<Rightarrow> waiters \<Rightarrow> waiters" where
  "resolve i e ws = (case ws i of None \<Rightarrow> ws | Some w \<Rightarrow> ws(i \<mapsto> w\<lparr>wait_trbs := wait_trbs w @ [e]\<rparr>))"

section \<open>The ring\<close>

record EventRingSegmentTableEntry =
  ring_segment_base_address :: u64
  ring_segment_size :: u16

definition erst_new :: "TrbRing \<Rightarrow> EventRingSegmentTableEntry result" where
  "erst_new ring =
     (if length (trbs ring) < 2 ^ 16
      then Ok \<lparr>ring_segment_base_address = ring_addr ring, ring_segment_size = of_nat (length (trbs ring))\<rparr>
      else Err ''Too large num trbs'')"

text \<open>\<open>erdp\<close> is the content of the dequeue-pointer register once \<open>set_erdp\<close> has been called.\<close>

record EventRing =
  er_ring :: TrbRing
  erst :: EventRingSegmentTableEntry
  er_cycle_state_ours :: bool
  erdp :: "u64 option"
  wait_list :: "nat list"

definition EventRing_new :: "u64 \<Rightarrow> EventRing result" where
  "EventRing_new addr =
     (let ring = TrbRing_new addr in
      rbind (trb_link (phys_addr ring)) (\<lambda>link.
      rbind (ring_write (NUM_TRB - 1) link ring) (\<lambda>ring'.
      rbind (erst_new ring') (\<lambda>entry.
        Ok \<lparr>er_ring = ring', erst = entry, er_cycle_state_ours = True, erdp = None, wait_list = []\<rparr>))))"

definition set_erdp :: "u64 \<Rightarrow> EventRing \<Rightarrow> EventRing" where
  "set_erdp reg er = er\<lparr>erdp := Some reg\<rparr>"

definition has_next_event :: "EventRing \<Rightarrow> bool result" where
  "has_next_event er = rbind (rbind (current (er_ring er)) cycle_state) (\<lambda>c. Ok (c = er_cycle_state_ours er))"

definition pop_event :: "EventRing \<Rightarrow> GenericTrbEntry option result \<times> EventRing" where
  "pop_event er =
     (case has_next_event er of
        Err e \<Rightarrow> (Err e, er)
      | Panic e \<Rightarrow> (Panic e, er)
      | Ok False \<Rightarrow> (Ok None, er)
      | Ok True \<Rightarrow>
         (case rbind (current (er_ring er)) (\<lambda>e. rbind (current_ptr (er_ring er)) (\<lambda>eptr.
            rbind (advance_index_notoggle (er_cycle_state_ours er) (er_ring er)) (\<lambda>ring. Ok (e, eptr, ring)))) of
            Err e \<Rightarrow> (Err e, er)
          | Panic e \<Rightarrow> (Panic e, er)
          | Ok (e, eptr, ring) \<Rightarrow>
             (case erdp er of
                None \<Rightarrow> (Panic ''EventRing erdp is not set'', er\<lparr>er_ring := ring\<rparr>)
              | Some reg \<Rightarrow>
                  (Ok (Some e), er\<lparr>er_ring := ring, erdp := Some (eptr OR (reg AND 15)),
                     er_cycle_state_ours := (if current_index ring = 0 then \<not> er_cycle_state_ours er else er_cycle_state_ours er)\<rparr>))))"

definition register_waiter :: "nat \<Rightarrow> EventRing \<Rightarrow> EventRing" where
  "register_waiter i er = er\<lparr>wait_list := wait_list er @ [i]\<rparr>"

text \<open>The loop of \<open>poll\<close> over the waiters: the first live one that matches takes the event.\<close>

fun offer :: "GenericTrbEntry \<Rightarrow> nat list \<Rightarrow> waiters \<Rightarrow> waiters result" where
  "offer e [] ws = Ok ws"
| "offer e (i # is) ws =
     (case ws i of
        None \<Rightarrow> offer e is ws
      | Some w \<Rightarrow> rbind (matches w e) (\<lambda>m. if m then Ok (resolve i e ws) else offer e is ws))"

definition stale_waiter_indices :: "waiters \<Rightarrow> nat list \<Rightarrow> nat list" where
  "stale_waiter_indices ws l = filter (\<lambda>k. ws (l ! k) = None) (rev [0..<length l])"

definition remove_at :: "nat \<Rightarrow> 'a list \<Rightarrow> 'a list" where
  "remove_at k l = take k l @ drop (Suc k) l"

definition poll_events :: "EventRing \<Rightarrow> waiters \<Rightarrow> unit result \<times> EventRing \<times> waiters" where
  "poll_events er ws =
     (case pop_event er of
        (Err e, er') \<Rightarrow> (Err e, er', ws)
      | (Panic e, er') \<Rightarrow> (Panic e, er', ws)
      | (Ok None, er') \<Rightarrow> (Ok (), er', ws)
      | (Ok (Some e), er') \<Rightarrow>
         (case offer e (wait_list er') ws of
            Err x \<Rightarrow> (Err x, er', ws)
          | Panic x \<Rightarrow> (Panic x, er', ws)
          | Ok ws' \<Rightarrow>
              (Ok (), er'\<lparr>wait_list := fold remove_at (stale_waiter_indices ws' (wait_list er')) (wait_list er')\<rparr>, ws')))"

section \<open>Futures\<close>

text \<open>\<open>EventFuture::new\<close> with a fresh identity, and the two conditions it is used with.\<close>

definition EventFuture_new :: "nat \<Rightarrow> EventWaitCond \<Rightarrow> EventRing \<Rightarrow> waiters \<Rightarrow> EventRing \<times> waiters" where
  "EventFuture_new i c er ws = (register_waiter i er, ws(i \<mapsto> \<lparr>cond = c, wait_trbs = []\<rparr>))"

definition new_for_trb :: "nat \<Rightarrow> u64 \<Rightarrow> EventRing \<Rightarrow> waiters \<Rightarrow> EventRing \<times> waiters" where
  "new_for_trb i addr = EventFuture_new i
     \<lparr>cond_trb_type = Some TransferEvent, cond_trb_addr = Some addr, cond_slot = None\<rparr>"

definition new_for_command :: "nat \<Rightarrow> u64 \<Rightarrow> EventRing \<Rightarrow> waiters \<Rightarrow> EventRing \<times> waiters" where
  "new_for_command i addr = EventFuture_new i
     \<lparr>cond_trb_type = Some CommandCompletionEvent, cond_trb_addr = Some addr, cond_slot = None\<rparr>"

text \<open>\<open>Future::poll\<close>: \<open>Some\<close> is \<open>Ready\<close>, \<open>None\<close> is \<open>Pending\<close>.\<close>

definition future_poll :: "nat \<Rightarrow> waiters \<Rightarrow> GenericTrbEntry option \<times> waiters" where
  "future_poll i ws =
     (case ws i of
        None \<Rightarrow> (None, ws)
      | Some w \<Rightarrow> (case wait_trbs w of [] \<Rightarrow> (None, ws) | e # es \<Rightarrow> (Some e, ws(i \<mapsto> w\<lparr>wait_trbs := es\<rparr>))))"

definition future_drop :: "nat \<Rightarrow> waiters \<Rightarrow> waiters" where
  "future_drop i ws = ws(i := None)"

section \<open>Delivery to waiters\<close>

definition takes :: "EventWaitInfo \<Rightarrow> GenericTrbEntry \<Rightarrow> bool" where
  "takes w e \<longleftrightarrow>
     (\<forall>a. cond_trb_addr (cond w) = Some a \<longrightarrow> trb_data e = a) \<and>
     (\<forall>t. cond_trb_type (cond w) = Some t \<longrightarrow> get_field (trb_control e) 10 6 = trb_type_code t) \<and>
     (\<forall>s. cond_slot (cond w) = Some s \<longrightarrow> ucast (get_field (trb_control e) 24 8) = s)"

lemma matches_eq: "matches w e = Ok (takes w e)"
  by (auto simp: matches_def takes_def split: option.splits)

text \<open>The live waiter that takes an event, the first of the list.\<close>

definition taker :: "GenericTrbEntry \<Rightarrow> nat list \<Rightarrow> waiters \<Rightarrow> nat option" where
  "taker e l ws = find (\<lambda>i. case ws i of None \<Rightarrow> False | Some w \<Rightarrow> takes w e) l"

lemma offer_eq: "offer e l ws = Ok (case taker e l ws of None \<Rightarrow> ws | Some i \<Rightarrow> resolve i e ws)"
  by (induction e l ws rule: offer.induct) (auto simp: taker_def matches_eq split: option.splits)

lemma remove_stale:
  "fold remove_at (filter (\<lambda>k. P (l ! k)) (rev [0..<length l])) l = filter (\<lambda>x. \<not> P x) l"
proof -
  have "fold remove_at (filter (\<lambda>k. P (l ! k)) (rev [0..<n])) (take n l @ filter (\<lambda>x. \<not> P x) (drop n l)) = filter (\<lambda>x. \<not> P x) l"
    if "n \<le> length l" for n
    using that
  proof (induction n)
    case (Suc n)
    have split: "take (Suc n) l = take n l @ [l ! n]" using Suc.prems by (simp add: take_Suc_conv_app_nth)
    have drop: "drop n l = l ! n # drop (Suc n) l" using Suc.prems by (simp add: Cons_nth_drop_Suc)
    show ?case
    proof (cases "P (l ! n)")
      case True
      have "remove_at n (take (Suc n) l @ filter (\<lambda>x. \<not> P x) (drop (Suc n) l)) = take n l @ filter (\<lambda>x. \<not> P x) (drop n l)"
        using True Suc.prems by (simp add: remove_at_def split drop)
      with True Suc show ?thesis by simp
    next
      case False
      then have "take (Suc n) l @ filter (\<lambda>x. \<not> P x) (drop (Suc n) l) = take n l @ filter (\<lambda>x. \<not> P x) (drop n l)"
        by (simp add: split drop)
      with False Suc show ?thesis by simp
    qed
  qed simp
  from this [of "length l"] show ?thesis by simp
qed

lemma dom_resolve [simp]: "resolve i e ws k = None \<longleftrightarrow> ws k = None"
  by (auto simp: resolve_def split: option.splits)

section \<open>The ring as a queue\<close>

text \<open>
  The controller posts its \<open>j\<close>-th event into slot \<open>j mod 16\<close>, with the cycle bit of the lap,
  as long as not all 16 slots hold events that were not taken; the driver takes events with
  \<open>pop_event\<close>. \<open>event_step\<close> interleaves the two in any order.
\<close>

definition stamp :: "nat \<Rightarrow> GenericTrbEntry \<Rightarrow> GenericTrbEntry" where
  "stamp j e = with_cycle (even (j div 16)) e"

definition controller_post :: "nat \<Rightarrow> GenericTrbEntry \<Rightarrow> EventRing \<Rightarrow> EventRing" where
  "controller_post j e er = er\<lparr>er_ring := (er_ring er)\<lparr>trbs := (trbs (er_ring er))[j mod 16 := stamp j e]\<rparr>\<rparr>"

record EventSystem =
  posted :: "GenericTrbEntry list"
  received :: "GenericTrbEntry list"
  sys_ring :: EventRing

inductive event_step :: "EventSystem \<Rightarrow> EventSystem \<Rightarrow> bool" where
  post: "length (posted s) < length (received s) + 16 \<Longrightarrow>
    event_step s (s\<lparr>posted := posted s @ [e], sys_ring := controller_post (length (posted s)) e (sys_ring s)\<rparr>)"
| take: "pop_event (sys_ring s) = (Ok (Some e), er) \<Longrightarrow>
    event_step s (s\<lparr>received := received s @ [e], sys_ring := er\<rparr>)"
| idle: "pop_event (sys_ring s) = (Ok None, er) \<Longrightarrow> event_step s (s\<lparr>sys_ring := er\<rparr>)"

inductive reachable :: "u64 \<Rightarrow> u64 \<Rightarrow> EventSystem \<Rightarrow> bool" for addr reg where
  start: "EventRing_new addr = Ok er \<Longrightarrow> reachable addr reg \<lparr>posted = [], received = [], sys_ring = set_erdp reg er\<rparr>"
| step: "reachable addr reg s \<Longrightarrow> event_step s s' \<Longrightarrow> reachable addr reg s'"

text \<open>
  Position \<open>j\<close> of the sequence of events uses slot \<open>j mod 16\<close>. Between the events taken and
  the events posted the slots hold what was posted; the slots after that still carry the
  bit of the lap before.
\<close>

definition event_inv :: "EventSystem \<Rightarrow> bool" where
  "event_inv s \<longleftrightarrow>
     (let n = length (posted s); c = length (received s); er = sys_ring s; ts = trbs (er_ring er) in
      c \<le> n \<and> n \<le> c + 16 \<and> length ts = 16 \<and> current_index (er_ring er) = c mod 16 \<and>
      er_cycle_state_ours er = even (c div 16) \<and> erdp er \<noteq> None \<and>
      (\<forall>j. c \<le> j \<and> j < n \<longrightarrow> ts ! (j mod 16) = stamp j (posted s ! j)) \<and>
      (\<forall>j. n \<le> j \<and> j < c + 16 \<longrightarrow> bit (trb_control (ts ! (j mod 16))) 0 = odd (j div 16)) \<and>
      received s = map (\<lambda>j. stamp j (posted s ! j)) [0..<c])"

lemma stamp_bit: "bit (trb_control (stamp j e)) 0 = even (j div 16)"
  by (simp add: stamp_def)

lemma mod16_eq: "(i :: nat) mod 16 = j mod 16 \<Longrightarrow> i \<le> j \<Longrightarrow> j < i + 16 \<Longrightarrow> i = j"
proof -
  assume a: "i mod 16 = j mod 16" "i \<le> j" "j < i + 16"
  then have "16 dvd j - i" using mod_eq_dvd_iff_nat [of i j 16] by simp
  with a show "i = j" by (auto dest: dvd_imp_le)
qed

lemma pop_event_inv:
  assumes "event_inv s"
  defines "c \<equiv> length (received s)" and "er \<equiv> sys_ring s"
  shows "c = length (posted s) \<Longrightarrow> pop_event er = (Ok None, er)"
    and "c < length (posted s) \<Longrightarrow> \<exists>er'. pop_event er = (Ok (Some (stamp c (posted s ! c))), er') \<and>
      event_inv (s\<lparr>received := received s @ [stamp c (posted s ! c)], sys_ring := er'\<rparr>)"
proof -
  let ?n = "length (posted s)" let ?ts = "trbs (er_ring er)"
  have inv: "c \<le> ?n" "?n \<le> c + 16" "length ?ts = 16" "current_index (er_ring er) = c mod 16"
    "er_cycle_state_ours er = even (c div 16)"
    "\<And>j. c \<le> j \<Longrightarrow> j < ?n \<Longrightarrow> ?ts ! (j mod 16) = stamp j (posted s ! j)"
    "\<And>j. ?n \<le> j \<Longrightarrow> j < c + 16 \<Longrightarrow> bit (trb_control (?ts ! (j mod 16))) 0 = odd (j div 16)"
    "received s = map (\<lambda>j. stamp j (posted s ! j)) [0..<c]" and "erdp er \<noteq> None"
    using assms(1) by (simp_all add: event_inv_def Let_def c_def er_def)
  then obtain reg where reg: "erdp er = Some reg" by auto
  have cur: "current (er_ring er) = Ok (?ts ! (c mod 16))" using inv by (simp add: current_def ring_trb_def)
  show "pop_event er = (Ok None, er)" if "c = ?n"
    using inv(5) inv(7) [of c] that by (simp add: pop_event_def has_next_event_def cur)
  show "\<exists>er'. pop_event er = (Ok (Some (stamp c (posted s ! c))), er') \<and>
      event_inv (s\<lparr>received := received s @ [stamp c (posted s ! c)], sys_ring := er'\<rparr>)" if less: "c < ?n"
  proof -
    let ?e = "stamp c (posted s ! c)"
    have e: "?ts ! (c mod 16) = ?e" using inv(6) less by simp
    define ring where "ring = (er_ring er)\<lparr>current_index := Suc c mod 16\<rparr>"
    have adv: "advance_index_notoggle (even (c div 16)) (er_ring er) = Ok ring"
      using inv by (simp add: advance_index_notoggle_def cur e stamp_bit ring_def mod_Suc_eq)
    define er' where "er' = er\<lparr>er_ring := ring, erdp := Some ((ring_addr (er_ring er) + of_nat (16 * (c mod 16))) OR (reg AND 15)),
      er_cycle_state_ours := even (Suc c div 16)\<rparr>"
    have "pop_event er = (Ok (Some ?e), er')"
      using inv by (simp add: pop_event_def has_next_event_def cur e stamp_bit current_ptr_def adv reg er'_def ring_def div_Suc)
    moreover have "bit (trb_control (?ts ! (j mod 16))) 0 = odd (j div 16)" if "?n \<le> j" "j < Suc c + 16" for j
    proof (cases "j < c + 16")
      case False
      with that have "j = c + 16" by simp
      moreover have "(c + 16) div 16 = Suc (c div 16)" by simp
      ultimately show ?thesis using e stamp_bit [of c] by simp
    qed (use inv(7) that in simp)
    ultimately show ?thesis using inv(1-4,8) inv(6) less
      by (auto simp: event_inv_def Let_def er'_def ring_def c_def [symmetric])
  qed
qed

lemma post_inv:
  assumes "event_inv s" "length (posted s) < length (received s) + 16"
  shows "event_inv (s\<lparr>posted := posted s @ [e], sys_ring := controller_post (length (posted s)) e (sys_ring s)\<rparr>)"
proof -
  let ?n = "length (posted s)" let ?c = "length (received s)" let ?ts = "trbs (er_ring (sys_ring s))"
  let ?ts' = "?ts[?n mod 16 := stamp ?n e]"
  have inv: "?c \<le> ?n" "length ?ts = 16"
    "\<And>j. ?c \<le> j \<Longrightarrow> j < ?n \<Longrightarrow> ?ts ! (j mod 16) = stamp j (posted s ! j)"
    "\<And>j. ?n \<le> j \<Longrightarrow> j < ?c + 16 \<Longrightarrow> bit (trb_control (?ts ! (j mod 16))) 0 = odd (j div 16)"
    using assms(1) by (simp_all add: event_inv_def Let_def)
  have old: "?ts' ! (j mod 16) = stamp j ((posted s @ [e]) ! j)" if "?c \<le> j" "j < Suc ?n" for j
  proof (cases "j = ?n")
    case True
    then show ?thesis using inv(2) by simp
  next
    case False
    then have "j mod 16 \<noteq> ?n mod 16" using mod16_eq [of j ?n] that assms(2) by auto
    with False inv(3) that show ?thesis by (simp add: nth_append)
  qed
  have free: "bit (trb_control (?ts' ! (j mod 16))) 0 = odd (j div 16)" if "Suc ?n \<le> j" "j < ?c + 16" for j
  proof -
    have "j mod 16 \<noteq> ?n mod 16" using mod16_eq [of ?n j] that inv(1) by auto
    with inv(4) that show ?thesis by simp
  qed
  have rec: "map (\<lambda>j. stamp j ((posted s @ [e]) ! j)) [0..<?c] = map (\<lambda>j. stamp j (posted s ! j)) [0..<?c]"
    using inv(1) by (simp add: nth_append)
  show ?thesis using assms inv(2) old free rec
    by (simp add: event_inv_def Let_def controller_post_def)
qed

lemma EventRing_new_inv:
  assumes "EventRing_new addr = Ok er"
  shows "event_inv \<lparr>posted = [], received = [], sys_ring = set_erdp reg er\<rparr>"
proof -
  have "trb_link addr = Ok \<lparr>trb_data = addr, trb_option = 0, trb_control = 0x1802\<rparr>"
    by (simp add: trb_link_def set_trb_type_eq set_toggle_cycle_eq default_trb_def set_field_def)
  with assms show ?thesis
    by (auto simp: EventRing_new_def Let_def ring_write_def erst_new_def phys_addr_def TrbRing_new_def NUM_TRB_def
        event_inv_def set_erdp_def nth_list_update default_trb_def split: if_splits)
qed

lemma reachable_inv: "reachable addr reg s \<Longrightarrow> event_inv s"
proof (induction rule: reachable.induct)
  case (start er)
  then show ?case by (rule EventRing_new_inv)
next
  case (step s s')
  from step.hyps(2) step.IH show ?case
  proof cases
    case (take e er)
    then show ?thesis using pop_event_inv [OF step.IH] step.IH
      by (cases "length (received s) = length (posted s)") (auto simp: event_inv_def Let_def)
  next
    case (idle er)
    then show ?thesis using pop_event_inv [OF step.IH] step.IH
      by (cases "length (received s) = length (posted s)") (auto simp: event_inv_def Let_def)
  qed (auto intro: post_inv)
qed

section \<open>Properties\<close>

text \<open>
  C4. In every state that any interleaving of the controller's posts and the driver's pops
  reaches from a new event ring, the events taken so far are the first events posted, in
  order, none lost and none taken twice; and the next pop returns the next event posted if
  there is one and \<open>Ok(None)\<close> otherwise, never an error.
\<close>

theorem event_ring_fifo:
  assumes "reachable addr reg s"
  shows "received s = map (\<lambda>j. stamp j (posted s ! j)) [0..<length (received s)] \<and>
    length (received s) \<le> length (posted s) \<and>
    fst (pop_event (sys_ring s)) =
      (if length (received s) = length (posted s) then Ok None
       else Ok (Some (stamp (length (received s)) (posted s ! length (received s)))))"
proof -
  note inv = reachable_inv [OF assms]
  then have le: "length (received s) \<le> length (posted s)"
    and rec: "received s = map (\<lambda>j. stamp j (posted s ! j)) [0..<length (received s)]"
    by (auto simp: event_inv_def Let_def)
  have "fst (pop_event (sys_ring s)) =
      (if length (received s) = length (posted s) then Ok None
       else Ok (Some (stamp (length (received s)) (posted s ! length (received s)))))"
    using pop_event_inv [OF inv] le by (cases "length (received s) = length (posted s)") auto
  with le rec show ?thesis by blast
qed

lemma EventRing_new_Ok: "\<exists>er. EventRing_new addr = Ok er"
  by (simp add: EventRing_new_def Let_def trb_link_def set_trb_type_eq set_toggle_cycle_eq ring_write_def TrbRing_new_def
      NUM_TRB_def erst_new_def)

theorem event_ring_fifo_witness:
  "\<exists>s e. reachable 0x7000 0 s \<and> posted s = [default_trb] \<and> received s = [] \<and>
     fst (pop_event (sys_ring s)) = Ok (Some e) \<and> trb_control e = 1"
proof -
  obtain er where "EventRing_new 0x7000 = Ok er" using EventRing_new_Ok by blast
  from step [OF start [OF this, of 0] post [of _ default_trb]]
  obtain s where s: "reachable 0x7000 0 s" "posted s = [default_trb]" "received s = []" by auto
  from event_ring_fifo [OF s(1)] s(2,3) have "fst (pop_event (sys_ring s)) = Ok (Some (stamp 0 default_trb))" by simp
  moreover have "trb_control (stamp 0 default_trb) = 1" by (simp add: stamp_def with_cycle_def default_trb_def set_field_def)
  ultimately show ?thesis using s by blast
qed

lemma poll_events_pop:
  assumes "pop_event er = (Ok (Some e), er')"
  shows "poll_events er ws =
    (Ok (), er'\<lparr>wait_list := filter (\<lambda>i. ws i \<noteq> None) (wait_list er')\<rparr>,
     case taker e (wait_list er') ws of None \<Rightarrow> ws | Some i \<Rightarrow> resolve i e ws)"
proof -
  let ?ws' = "case taker e (wait_list er') ws of None \<Rightarrow> ws | Some i \<Rightarrow> resolve i e ws"
  have "?ws' k = None \<longleftrightarrow> ws k = None" for k by (simp split: option.split)
  then show ?thesis using assms remove_stale [of "\<lambda>i. ws i = None" "wait_list er'"]
    by (simp add: poll_events_def offer_eq stale_waiter_indices_def)
qed

text \<open>
  C18. When \<open>poll\<close> takes an event, the event is appended to the queue of the first registered
  waiter that is alive and whose conditions it meets, and to no other; the waiters whose
  future is gone leave the list and the others keep their order.
\<close>

theorem poll_events_delivers:
  assumes "pop_event er = (Ok (Some e), er')"
  shows "poll_events er ws =
    (Ok (), er'\<lparr>wait_list := filter (\<lambda>i. ws i \<noteq> None) (wait_list er')\<rparr>,
     case taker e (wait_list er') ws of None \<Rightarrow> ws | Some i \<Rightarrow> resolve i e ws)"
  using poll_events_pop [OF assms] .

text \<open>A ring with one completion event for the command at \<open>0x5000\<close>, and three waiters: one gone, two alive.\<close>

definition example_completion :: GenericTrbEntry where
  "example_completion = \<lparr>trb_data = 0x5000, trb_option = 0x1000000, trb_control = 0x8401\<rparr>"

definition example_event_ring :: EventRing where
  "example_event_ring = \<lparr>er_ring = \<lparr>trbs = example_completion # replicate 15 default_trb, current_index = 0, ring_addr = 0x7000\<rparr>,
     erst = \<lparr>ring_segment_base_address = 0x7000, ring_segment_size = 16\<rparr>,
     er_cycle_state_ours = True, erdp = Some 0x7008, wait_list = [0, 1]\<rparr>"

theorem poll_events_delivers_witness:
  "case new_for_command 2 0x5000 example_event_ring [1 \<mapsto> \<lparr>cond = \<lparr>cond_trb_type = Some TransferEvent,
       cond_trb_addr = None, cond_slot = None\<rparr>, wait_trbs = []\<rparr>] of (er, ws) \<Rightarrow>
     (case poll_events er ws of (r, er', ws') \<Rightarrow>
        r = Ok () \<and> wait_list er' = [1, 2] \<and> erdp er' = Some 0x7008 \<and>
        fst (future_poll 1 ws') = None \<and> fst (future_poll 2 ws') = Some example_completion)"
proof -
  let ?w = "\<lparr>cond = \<lparr>cond_trb_type = Some TransferEvent, cond_trb_addr = None, cond_slot = None\<rparr>, wait_trbs = []\<rparr>"
  let ?er = "register_waiter 2 example_event_ring"
  let ?ws = "[1 \<mapsto> ?w, 2 \<mapsto> \<lparr>cond = \<lparr>cond_trb_type = Some CommandCompletionEvent, cond_trb_addr = Some 0x5000, cond_slot = None\<rparr>, wait_trbs = []\<rparr>] :: waiters"
  let ?er' = "?er\<lparr>er_ring := (er_ring ?er)\<lparr>current_index := 1\<rparr>, erdp := Some 0x7008\<rparr>"
  have pop: "pop_event ?er = (Ok (Some example_completion), ?er')"
    by (simp add: pop_event_def has_next_event_def register_waiter_def example_event_ring_def current_def ring_trb_def
        example_completion_def current_ptr_def advance_index_notoggle_def)
  have ty: "get_field (0x8401 :: u32) 10 6 = 33"
    by (simp add: get_field_def take_bit_eq_mask mask_eq_exp_minus_1 drop_bit_eq_div)
  have "taker example_completion [0, 1, 2] ?ws = Some 2"
    by (simp add: taker_def takes_def example_completion_def ty)
  with poll_events_delivers [OF pop, of ?ws] show ?thesis
    by (simp add: new_for_command_def EventFuture_new_def register_waiter_def example_event_ring_def future_poll_def resolve_def)
qed

end
