(* ===== verification/Acpi.thy ===== *)
theory Acpi
  imports Bytes
begin

text \<open>
  \<open>acpi.rs\<close>: the XSDT, its iterator, the search for a table by signature, and the HPET and
  MCFG tables. The tables are read in place, so a table is an address in a memory of bytes.
\<close>

type_synonym memory = "usize \<Rightarrow> u8"

definition mem_bytes :: "memory \<Rightarrow> usize \<Rightarrow> nat \<Rightarrow> u8 list" where
  "mem_bytes mem a n = map (\<lambda>i. mem (a + i)) [0..<n]"

definition mem_le :: "memory \<Rightarrow> usize \<Rightarrow> nat \<Rightarrow> nat" where
  "mem_le mem a n = from_le_bytes (mem_bytes mem a n)"

section \<open>Table headers\<close>

definition sdt_signature :: "memory \<Rightarrow> usize \<Rightarrow> u8 list" where
  "sdt_signature mem hdr = mem_bytes mem hdr 4"

definition sdt_length :: "memory \<Rightarrow> usize \<Rightarrow> usize" where
  "sdt_length mem hdr = mem_le mem (hdr + 4) 4"

definition expect_signature :: "memory \<Rightarrow> usize \<Rightarrow> u8 list \<Rightarrow> unit result" where
  "expect_signature mem hdr sig =
     (if sdt_signature mem hdr = sig then Ok () else Panic ''assertion failed: left == right'')"

section \<open>The XSDT\<close>

definition xsdt_header_size :: usize where
  "xsdt_header_size = 36"

definition xsdt_num_of_entries :: "memory \<Rightarrow> usize \<Rightarrow> usize result" where
  "xsdt_num_of_entries mem xsdt = rbind (sub_usize (sdt_length mem xsdt) xsdt_header_size) (\<lambda>n. Ok (n div 8))"

definition xsdt_entry :: "memory \<Rightarrow> usize \<Rightarrow> usize \<Rightarrow> usize" where
  "xsdt_entry mem xsdt index = mem_le mem (xsdt + xsdt_header_size + 8 * index) 8"

text \<open>\<open>XsdtIterator::next\<close>: the next table, if any, and the new index.\<close>

definition xsdt_next :: "memory \<Rightarrow> usize \<Rightarrow> usize \<Rightarrow> (usize option \<times> usize) result" where
  "xsdt_next mem xsdt index =
     rbind (xsdt_num_of_entries mem xsdt) (\<lambda>n.
       if index \<ge> n then Ok (None, index)
       else Ok (Some (xsdt_entry mem xsdt index), index + 1))"

text \<open>\<open>iter().find(..)\<close>; the iterator moves on by one each time, so it ends.\<close>

function find_from :: "memory \<Rightarrow> usize \<Rightarrow> u8 list \<Rightarrow> usize \<Rightarrow> usize option result" where
  "find_from mem xsdt sig index =
     (case xsdt_next mem xsdt index of
        Err e \<Rightarrow> Err e
      | Panic e \<Rightarrow> Panic e
      | Ok (None, _) \<Rightarrow> Ok None
      | Ok (Some t, index') \<Rightarrow> if sdt_signature mem t = sig then Ok (Some t) else find_from mem xsdt sig index')"
  by pat_completeness auto
termination
  by (relation "measure (\<lambda>(mem, xsdt, sig, index). sdt_length mem xsdt - index)")
     (auto simp: xsdt_next_def xsdt_num_of_entries_def sub_usize_def split: if_splits)

declare find_from.simps [simp del]

definition find_table :: "memory \<Rightarrow> usize \<Rightarrow> u8 list \<Rightarrow> usize option result" where
  "find_table mem xsdt sig = find_from mem xsdt sig 0"

text \<open>\<open>AcpiTable::new\<close> checks the signature and casts.\<close>

definition AcpiTable_new :: "memory \<Rightarrow> u8 list \<Rightarrow> usize \<Rightarrow> usize result" where
  "AcpiTable_new mem sig hdr = rbind (expect_signature mem hdr sig) (\<lambda>_. Ok hdr)"

definition HPET_SIGNATURE :: "u8 list" where
  "HPET_SIGNATURE = [0x48, 0x50, 0x45, 0x54]"

definition MCFG_SIGNATURE :: "u8 list" where
  "MCFG_SIGNATURE = [0x4D, 0x43, 0x46, 0x47]"

section \<open>The HPET and MCFG tables\<close>

definition adddress_in_memory_space :: "memory \<Rightarrow> usize \<Rightarrow> usize result" where
  "adddress_in_memory_space mem ga =
     (if mem ga = 0 then Ok (mem_le mem (ga + 4) 8) else Err ''ACPI Generic address is not in system memory space'')"

text \<open>The generic address follows the header and a reserved word.\<close>

definition hpet_base_address :: "memory \<Rightarrow> usize \<Rightarrow> usize result" where
  "hpet_base_address mem hpet = adddress_in_memory_space mem (hpet + 40)"

definition mcfg_header_size :: usize where
  "mcfg_header_size = 44"

definition mcfg_num_of_entries :: "memory \<Rightarrow> usize \<Rightarrow> usize result" where
  "mcfg_num_of_entries mem mcfg = rbind (sub_usize (sdt_length mem mcfg) mcfg_header_size) (\<lambda>n. Ok (n div 16))"

definition mcfg_entry :: "memory \<Rightarrow> usize \<Rightarrow> usize \<Rightarrow> usize option result" where
  "mcfg_entry mem mcfg index =
     rbind (mcfg_num_of_entries mem mcfg) (\<lambda>n.
       if index \<ge> n then Ok None else Ok (Some (mcfg + mcfg_header_size + 16 * index)))"

definition start_pci_bus :: "memory \<Rightarrow> usize \<Rightarrow> u8" where
  "start_pci_bus mem e = mem (e + 10)"

definition end_pci_bus :: "memory \<Rightarrow> usize \<Rightarrow> u8" where
  "end_pci_bus mem e = mem (e + 11)"

definition ecam_base_address :: "memory \<Rightarrow> usize \<Rightarrow> u64" where
  "ecam_base_address mem e = of_nat (mem_le mem e 8)"

definition rsdp_xsdt :: "memory \<Rightarrow> usize \<Rightarrow> usize" where
  "rsdp_xsdt mem rsdp = mem_le mem (rsdp + 24) 8"

definition rsdp_find :: "memory \<Rightarrow> usize \<Rightarrow> u8 list \<Rightarrow> usize option result" where
  "rsdp_find mem rsdp sig =
     rbind (find_table mem (rsdp_xsdt mem rsdp) sig) (\<lambda>t. case t of
         None \<Rightarrow> Ok None
       | Some hdr \<Rightarrow> rbind (AcpiTable_new mem sig hdr) (\<lambda>x. Ok (Some x)))"

definition rsdp_hpet :: "memory \<Rightarrow> usize \<Rightarrow> usize option result" where
  "rsdp_hpet mem rsdp = rsdp_find mem rsdp HPET_SIGNATURE"

definition rsdp_mcfg :: "memory \<Rightarrow> usize \<Rightarrow> usize option result" where
  "rsdp_mcfg mem rsdp = rsdp_find mem rsdp MCFG_SIGNATURE"

section \<open>Tables as the firmware lays them out\<close>

definition holds :: "memory \<Rightarrow> usize \<Rightarrow> u8 list \<Rightarrow> bool" where
  "holds mem a bs \<longleftrightarrow> mem_bytes mem a (length bs) = bs"

definition encode_xsdt :: "u8 list \<Rightarrow> u8 list \<Rightarrow> usize list \<Rightarrow> u8 list" where
  "encode_xsdt sig unused ts = sig @ to_le_bytes 4 (36 + 8 * length ts) @ unused @ concat (map (to_le_bytes 8) ts)"

lemma mem_bytes_nth: "i < n \<Longrightarrow> mem_bytes mem a n ! i = mem (a + i)"
  by (simp add: mem_bytes_def)

lemma length_mem_bytes [simp]: "length (mem_bytes mem a n) = n"
  by (simp add: mem_bytes_def)

lemma mem_bytes_part: "ofs + n \<le> m \<Longrightarrow> mem_bytes mem (a + ofs) n = bytes_at (mem_bytes mem a m) ofs n"
  by (rule nth_equalityI) (simp_all add: bytes_at_def mem_bytes_nth add.assoc)

lemma holds_bytes: "holds mem a bs \<Longrightarrow> ofs + n \<le> length bs \<Longrightarrow> mem_bytes mem (a + ofs) n = bytes_at bs ofs n"
  using mem_bytes_part [of ofs n "length bs" mem a] by (simp add: holds_def)

lemma holds_le: "holds mem a bs \<Longrightarrow> ofs + n \<le> length bs \<Longrightarrow> mem_le mem (a + ofs) n = le_at bs ofs n"
  by (simp add: mem_le_def le_at_def holds_bytes)

lemma length_concat_le: "length (concat (map (to_le_bytes n) ts)) = n * length ts"
  by (induction ts) simp_all

lemma le_at_concat:
  "i < length ts \<Longrightarrow> \<forall>t \<in> set ts. t < 256 ^ n \<Longrightarrow> le_at (concat (map (to_le_bytes n) ts)) (n * i) n = ts ! i"
proof (induction ts arbitrary: i)
  case (Cons t ts)
  show ?case
  proof (cases i)
    case 0
    with Cons.prems(2) show ?thesis by simp
  next
    case (Suc j)
    have "le_at (to_le_bytes n t @ concat (map (to_le_bytes n) ts)) (n * i) n = le_at (concat (map (to_le_bytes n) ts)) (n * j) n"
      by (subst le_at_skip) (simp_all add: Suc)
    with Cons Suc show ?thesis by simp
  qed
qed simp

lemma xsdt_layout:
  assumes "holds mem xsdt (encode_xsdt sig unused ts)" "length sig = 4" "length unused = 28"
    "36 + 8 * length ts < 2 ^ 32" "\<forall>t \<in> set ts. t < 2 ^ 64"
  shows "xsdt_num_of_entries mem xsdt = Ok (length ts)" "i < length ts \<Longrightarrow> xsdt_entry mem xsdt i = ts ! i"
proof -
  let ?bs = "encode_xsdt sig unused ts"
  have len: "length ?bs = 36 + 8 * length ts" using assms(2,3) by (simp add: encode_xsdt_def length_concat_le)
  have "sdt_length mem xsdt = le_at ?bs 4 4" unfolding sdt_length_def using assms(1) len by (intro holds_le) simp_all
  also have "\<dots> = 36 + 8 * length ts"
    using assms(2,4) le_at_skip [of sig 4 "to_le_bytes 4 (36 + 8 * length ts) @ unused @ concat (map (to_le_bytes 8) ts)" 4]
    by (simp add: encode_xsdt_def)
  finally show "xsdt_num_of_entries mem xsdt = Ok (length ts)"
    by (simp add: xsdt_num_of_entries_def sub_usize_def xsdt_header_size_def)
  assume i: "i < length ts"
  have "xsdt_entry mem xsdt i = mem_le mem (xsdt + (36 + 8 * i)) 8" by (simp add: xsdt_entry_def xsdt_header_size_def add.assoc)
  also have "\<dots> = le_at ?bs (36 + 8 * i) 8" using assms(1) len i by (intro holds_le) simp_all
  also have "\<dots> = le_at (concat (map (to_le_bytes 8) ts)) (8 * i) 8"
    using assms(2,3) le_at_skip [of "sig @ to_le_bytes 4 (36 + 8 * length ts) @ unused" "36 + 8 * i"]
    by (simp add: encode_xsdt_def)
  also have "\<dots> = ts ! i" using i assms(5) by (intro le_at_concat) simp_all
  finally show "xsdt_entry mem xsdt i = ts ! i" .
qed

lemma find_from_eq:
  assumes "xsdt_num_of_entries mem xsdt = Ok n" "\<And>i. i < n \<Longrightarrow> xsdt_entry mem xsdt i = ts ! i" "length ts = n"
  shows "find_from mem xsdt sig i = Ok (find (\<lambda>t. sdt_signature mem t = sig) (drop i ts))"
proof (induction "n - i" arbitrary: i)
  case 0
  with assms show ?case by (subst find_from.simps) (simp add: xsdt_next_def)
next
  case (Suc k)
  then have i: "i < n" by simp
  then have d: "drop i ts = ts ! i # drop (Suc i) ts" using assms(3) by (simp add: Cons_nth_drop_Suc)
  have "find_from mem xsdt sig (Suc i) = Ok (find (\<lambda>t. sdt_signature mem t = sig) (drop (Suc i) ts))"
    using Suc by simp
  with i d assms(1,2) show ?case by (subst find_from.simps) (simp add: xsdt_next_def)
qed

section \<open>Properties\<close>

text \<open>
  Where memory holds an XSDT that lists the tables \<open>ts\<close>, looking for a signature through
  the RSDP returns the first of the tables that has it, and no table when none has; no
  assertion fails.
\<close>

lemma rsdp_find_listed:
  assumes "holds mem (rsdp_xsdt mem rsdp) (encode_xsdt xsig unused ts)" and "length xsig = 4" and "length unused = 28"
    and "36 + 8 * length ts < 2 ^ 32" and "\<forall>t \<in> set ts. t < 2 ^ 64"
  shows "rsdp_find mem rsdp sig = Ok (find (\<lambda>t. sdt_signature mem t = sig) ts)"
proof -
  note l = xsdt_layout [OF assms]
  have f: "find_table mem (rsdp_xsdt mem rsdp) sig = Ok (find (\<lambda>t. sdt_signature mem t = sig) ts)"
    unfolding find_table_def using find_from_eq [where ts = ts and i = 0, OF l(1) l(2)] by simp
  show ?thesis
  proof (cases "find (\<lambda>t. sdt_signature mem t = sig) ts")
    case None
    with f show ?thesis by (simp add: rsdp_find_def)
  next
    case (Some t)
    then have "sdt_signature mem t = sig" by (auto simp: find_Some_iff)
    with f Some show ?thesis by (simp add: rsdp_find_def AcpiTable_new_def expect_signature_def)
  qed
qed

text \<open>A memory with an RSDP at \<open>0x10\<close>, an XSDT at \<open>0x100\<close> and an MCFG table at \<open>0x200\<close> with one entry.\<close>

definition example_mcfg :: "u8 list" where
  "example_mcfg = MCFG_SIGNATURE @ to_le_bytes 4 60 @ replicate 36 0 @ to_le_bytes 8 0xB0000000 @ replicate 8 0"

definition example_acpi :: memory where
  "example_acpi a =
     (if 0x10 + 24 \<le> a \<and> a < 0x10 + 32 then to_le_bytes 8 0x100 ! (a - 0x28)
      else if 0x100 \<le> a \<and> a < 0x100 + 52 then encode_xsdt [0x58, 0x53, 0x44, 0x54] (replicate 28 0) [0x180, 0x200] ! (a - 0x100)
      else if 0x200 \<le> a \<and> a < 0x200 + 60 then example_mcfg ! (a - 0x200)
      else 0)"

lemma example_acpi_lookup:
  "rsdp_mcfg example_acpi 0x10 = Ok (Some 0x200) \<and> rsdp_hpet example_acpi 0x10 = Ok None"
proof -
  have "mem_bytes example_acpi 0x28 8 = to_le_bytes 8 0x100"
    by (rule nth_equalityI) (simp_all add: mem_bytes_nth example_acpi_def)
  then have x: "rsdp_xsdt example_acpi 0x10 = 0x100" by (simp add: rsdp_xsdt_def mem_le_def)
  have h: "holds example_acpi 0x100 (encode_xsdt [0x58, 0x53, 0x44, 0x54] (replicate 28 0) [0x180, 0x200])"
  proof -
    let ?bs = "encode_xsdt [0x58, 0x53, 0x44, 0x54] (replicate 28 0) [0x180, 0x200]"
    have len: "length ?bs = 52" by (simp add: encode_xsdt_def)
    show ?thesis unfolding holds_def len
      by (rule nth_equalityI) (simp_all add: len mem_bytes_nth example_acpi_def)
  qed
  have s: "sdt_signature example_acpi 0x180 = [0, 0, 0, 0]" "sdt_signature example_acpi 0x200 = MCFG_SIGNATURE"
    by (simp_all add: sdt_signature_def mem_bytes_def example_acpi_def example_mcfg_def MCFG_SIGNATURE_def upt_rec)
  show ?thesis
    using rsdp_find_listed [of example_acpi "0x10", unfolded x, OF h] s
    by (simp add: rsdp_mcfg_def rsdp_hpet_def MCFG_SIGNATURE_def HPET_SIGNATURE_def)
qed

end
