(* ===== verification/Paging.thy ===== *)
theory Paging
  imports Allocator
begin

text \<open>
  The page tables of \<open>x86.rs\<close>: entries, tables, \<open>PML4::create_mapping\<close>, the switch to the
  current table and \<open>disable_cache\<close>. A table is the array of its 512 entries, kept in a map
  from the address of the table; new tables come from the allocator, as \<open>Box::new\<close> takes
  them. The four nested loops of \<open>create_mapping\<close> have the same body up to the level, so they
  are one function with the level as an argument.
\<close>

section \<open>Entries\<close>

definition PAGE_SIZE :: nat where
  [field_defs]: "PAGE_SIZE = 4096"

definition ATTR_MASK :: u64 where
  [field_defs]: "ATTR_MASK = 0xFFF"

definition ATTR_PRESENT :: u64 where
  [field_defs]: "ATTR_PRESENT = push_bit 0 1"

definition ATTR_WRITABLE :: u64 where
  [field_defs]: "ATTR_WRITABLE = push_bit 1 1"

definition ATTR_WRITE_THROUGH :: u64 where
  [field_defs]: "ATTR_WRITE_THROUGH = push_bit 3 1"

definition ATTR_CACHE_DISABLE :: u64 where
  [field_defs]: "ATTR_CACHE_DISABLE = push_bit 4 1"

datatype PageAttr = NotPresent | ReadWriteKernel | ReadWriteIo

primrec attr_bits :: "PageAttr \<Rightarrow> u64" where
  "attr_bits NotPresent = 0"
| "attr_bits ReadWriteKernel = ATTR_PRESENT OR ATTR_WRITABLE"
| "attr_bits ReadWriteIo = ATTR_PRESENT OR ATTR_WRITABLE OR ATTR_WRITE_THROUGH OR ATTR_CACHE_DISABLE"

definition is_present :: "u64 \<Rightarrow> bool" where
  "is_present v \<longleftrightarrow> v AND push_bit 0 1 \<noteq> 0"

definition is_writable :: "u64 \<Rightarrow> bool" where
  "is_writable v \<longleftrightarrow> v AND push_bit 1 1 \<noteq> 0"

definition is_user :: "u64 \<Rightarrow> bool" where
  "is_user v \<longleftrightarrow> v AND push_bit 2 1 \<noteq> 0"

text \<open>\<open>Entry::table\<close> and \<open>Entry::table_mut\<close>: the address of the next table.\<close>

definition entry_table :: "u64 \<Rightarrow> u64 result" where
  "entry_table v = (if is_present v then Ok (v AND NOT ATTR_MASK) else Err ''Page not found'')"

definition set_page :: "u64 \<Rightarrow> PageAttr \<Rightarrow> u64 result" where
  "set_page phys attr =
     (if phys AND ATTR_MASK \<noteq> 0 then Err ''phys is not aligned'' else Ok (phys OR attr_bits attr))"

section \<open>Tables\<close>

type_synonym Table = "usize \<Rightarrow> u64"

definition zero_table :: Table where
  "zero_table = (\<lambda>_. 0)"

record PageTables =
  pt_tables :: "u64 \<rightharpoonup> Table"
  pt_heap :: FirstFitAllocator

definition index_shift :: "nat \<Rightarrow> nat" where
  "index_shift level = (level - 1) * 9 + 12"

definition calc_index :: "nat \<Rightarrow> u64 \<Rightarrow> usize" where
  "calc_index level addr = unat (drop_bit (index_shift level) addr AND 0x1FF)"

definition next_level :: "(u64 \<rightharpoonup> Table) \<Rightarrow> u64 \<Rightarrow> usize \<Rightarrow> u64 option" where
  "next_level ts a i =
     (case ts a of None \<Rightarrow> None
      | Some t \<Rightarrow> if i < 512 then (case entry_table (t i) of Ok b \<Rightarrow> Some b | _ \<Rightarrow> None) else None)"

text \<open>
  \<open>Box::new\<close> of a zeroed table: a page-aligned page from the allocator; running out of
  memory ends in the allocation error handler.
\<close>

definition box_new_table :: "PageTables \<Rightarrow> (u64 result \<times> PageTables) option" where
  "box_new_table st =
     Option.bind (alloc_with_options (pt_heap st) PAGE_SIZE PAGE_SIZE) (\<lambda>r. Some (case r of
         Ok (p, h) \<Rightarrow>
           (if p = 0 then (Panic ''memory allocation failed'', st)
            else (Ok (of_nat p), st\<lparr>pt_heap := h, pt_tables := (pt_tables st)(of_nat p \<mapsto> zero_table)\<rparr>))
       | Err e \<Rightarrow> (Err e, st)
       | Panic e \<Rightarrow> (Panic e, st)))"

definition set_entry :: "u64 \<Rightarrow> usize \<Rightarrow> u64 \<Rightarrow> PageTables \<Rightarrow> PageTables" where
  "set_entry a i v st =
     (case pt_tables st a of None \<Rightarrow> st
      | Some t \<Rightarrow> st\<lparr>pt_tables := (pt_tables st)(a \<mapsto> t(i := v))\<rparr>)"

text \<open>\<open>Entry::populate\<close> and \<open>Entry::ensure_populated\<close> on entry \<open>i\<close> of the table at \<open>a\<close>, whose value is \<open>v\<close>.\<close>

definition populate :: "u64 \<Rightarrow> usize \<Rightarrow> u64 \<Rightarrow> PageTables \<Rightarrow> (u64 result \<times> PageTables) option" where
  "populate a i v st =
     (if is_present v then Some (Err ''page is already populated'', st)
      else Option.bind (box_new_table st) (\<lambda>(r, st'). Some (case r of
             Ok next \<Rightarrow> (let v' = next OR attr_bits ReadWriteKernel in (Ok v', set_entry a i v' st'))
           | Err e \<Rightarrow> (Err e, st')
           | Panic e \<Rightarrow> (Panic e, st'))))"

definition ensure_populated :: "u64 \<Rightarrow> usize \<Rightarrow> u64 \<Rightarrow> PageTables \<Rightarrow> (u64 result \<times> PageTables) option" where
  "ensure_populated a i v st = (if is_present v then Some (Ok v, st) else populate a i v st)"

section \<open>Creating a mapping\<close>

text \<open>The body of the innermost loop: one page mapped, and the address of the next one.\<close>

definition map_page ::
  "u64 \<Rightarrow> u64 \<Rightarrow> PageAttr \<Rightarrow> u64 \<Rightarrow> usize \<Rightarrow> u64 \<Rightarrow> PageTables \<Rightarrow> u64 result \<times> PageTables" where
  "map_page virt_start phys attr a index addr st =
     (case rbind (add_word phys addr) (\<lambda>x. rbind (sub_word x virt_start) (\<lambda>phys_addr. set_page phys_addr attr)) of
        Ok v \<Rightarrow> (Ok (addr + of_nat PAGE_SIZE), set_entry a index v st)
      | Err e \<Rightarrow> (Err e, st)
      | Panic e \<Rightarrow> (Panic e, st))"

partial_function (option) map_loop ::
  "u64 \<Rightarrow> u64 \<Rightarrow> u64 \<Rightarrow> PageAttr \<Rightarrow> nat \<Rightarrow> u64 \<Rightarrow> u64 \<Rightarrow> PageTables \<Rightarrow> (u64 result \<times> PageTables) option" where
  "map_loop virt_start virt_end phys attr level a addr st =
     (case pt_tables st a of
        None \<Rightarrow> Some (Panic ''dangling table pointer'', st)
      | Some t \<Rightarrow>
         (let index = calc_index level addr in
          Option.bind
            (if level \<le> 1 then Some (map_page virt_start phys attr a index addr st)
             else Option.bind (ensure_populated a index (t index) st) (\<lambda>(r, st').
               case rbind r entry_table of
                 Ok next \<Rightarrow> map_loop virt_start virt_end phys attr (level - 1) next addr st'
               | Err e \<Rightarrow> Some (Err e, st')
               | Panic e \<Rightarrow> Some (Panic e, st')))
            (\<lambda>(r, st'). case r of
                Ok addr' \<Rightarrow>
                  if index + 1 \<ge> 512 \<or> addr' \<ge> virt_end then Some (Ok addr', st')
                  else map_loop virt_start virt_end phys attr level a addr' st'
              | Err e \<Rightarrow> Some (Err e, st')
              | Panic e \<Rightarrow> Some (Panic e, st'))))"

definition create_mapping ::
  "u64 \<Rightarrow> u64 \<Rightarrow> u64 \<Rightarrow> u64 \<Rightarrow> PageAttr \<Rightarrow> PageTables \<Rightarrow> (unit result \<times> PageTables) option" where
  "create_mapping root virt_start virt_end phys attr st =
     map_option (\<lambda>(r, st'). (rbind r (\<lambda>_. Ok ()), st'))
       (map_loop virt_start virt_end phys attr 4 root virt_start st)"

definition PML4_new :: "PageTables \<Rightarrow> (u64 result \<times> PageTables) option" where
  "PML4_new st = box_new_table st"

section \<open>Walking the tables\<close>

text \<open>
  \<open>walk ts a p\<close> follows \<open>next_level\<close> along the indices \<open>p\<close> from the table at \<open>a\<close>; \<open>pte\<close> is the
  last-level entry for a page number (0 where a table is missing), which is what the
  processor's page walk ends in.
\<close>

fun walk :: "(u64 \<rightharpoonup> Table) \<Rightarrow> u64 \<Rightarrow> usize list \<Rightarrow> u64 option" where
  "walk ts a [] = (case ts a of None \<Rightarrow> None | Some _ \<Rightarrow> Some a)"
| "walk ts a (i # p) = (case next_level ts a i of None \<Rightarrow> None | Some b \<Rightarrow> walk ts b p)"

definition page_index :: "nat \<Rightarrow> nat \<Rightarrow> usize" where
  "page_index level n = n div 512 ^ (level - 1) mod 512"

definition page_path :: "nat \<Rightarrow> nat \<Rightarrow> usize list" where
  "page_path level n = take (4 - level) [page_index 4 n, page_index 3 n, page_index 2 n]"

definition pte :: "(u64 \<rightharpoonup> Table) \<Rightarrow> u64 \<Rightarrow> nat \<Rightarrow> u64" where
  "pte ts root n =
     (case walk ts root (page_path 1 n) of None \<Rightarrow> 0
      | Some a \<Rightarrow> (case ts a of None \<Rightarrow> 0 | Some t \<Rightarrow> t (page_index 1 n)))"

text \<open>
  Well-formed tables form a tree: every present entry above the last level leads to a
  table, and no table is reached in two ways.
\<close>

definition wf_tables :: "(u64 \<rightharpoonup> Table) \<Rightarrow> u64 \<Rightarrow> bool" where
  "wf_tables ts root \<longleftrightarrow> root \<in> dom ts \<and>
     (\<forall>p a i b. length p < 3 \<and> walk ts root p = Some a \<and> next_level ts a i = Some b \<longrightarrow> b \<in> dom ts) \<and>
     (\<forall>p q a. length p \<le> 3 \<and> length q \<le> 3 \<and> walk ts root p = Some a \<and> walk ts root q = Some a \<longrightarrow> p = q)"

lemma walk_append: "walk ts a (p @ q) = Option.bind (walk ts a p) (\<lambda>b. walk ts b q)"
proof (induction p arbitrary: a)
  case Nil
  show ?case
  proof (cases "ts a")
    case None
    then show ?thesis by (cases q) (auto simp: next_level_def)
  qed simp
qed (simp split: option.splits)

lemma walk_dom: "walk ts a p = Some b \<Longrightarrow> b \<in> dom ts"
  by (induction p arbitrary: a) (auto split: option.splits)

text \<open>Maps that agree with \<open>ts\<close> except at one entry, and except at one new table.\<close>

definition entry_upd :: "(u64 \<rightharpoonup> Table) \<Rightarrow> u64 \<Rightarrow> usize \<Rightarrow> u64 \<Rightarrow> (u64 \<rightharpoonup> Table)" where
  "entry_upd ts a i v = (case ts a of None \<Rightarrow> ts | Some t \<Rightarrow> ts(a \<mapsto> t(i := v)))"

definition table_add :: "(u64 \<rightharpoonup> Table) \<Rightarrow> u64 \<Rightarrow> (u64 \<rightharpoonup> Table)" where
  "table_add ts b = ts(b \<mapsto> zero_table)"

lemma dom_entry_upd [simp]: "dom (entry_upd ts a i v) = dom ts"
  by (auto simp: entry_upd_def split: option.splits)

lemma dom_table_add [simp]: "dom (table_add ts b) = insert b (dom ts)"
  by (simp add: table_add_def)

lemma entry_upd_other: "x \<noteq> a \<Longrightarrow> entry_upd ts a i v x = ts x"
  by (auto simp: entry_upd_def split: option.splits)

lemma entry_upd_same: "ts a = Some t \<Longrightarrow> entry_upd ts a i v a = Some (t(i := v))"
  by (simp add: entry_upd_def)

lemma table_add_other: "x \<noteq> b \<Longrightarrow> table_add ts b x = ts x"
  by (simp add: table_add_def)

lemma next_level_entry_upd:
  "x \<noteq> a \<or> j \<noteq> i \<Longrightarrow> next_level (entry_upd ts a i v) x j = next_level ts x j"
  by (auto simp: next_level_def entry_upd_def split: option.splits)

lemma next_level_table_add: "x \<noteq> b \<Longrightarrow> next_level (table_add ts b) x j = next_level ts x j"
  by (simp add: next_level_def table_add_other)

lemma walk_Nil_dom: "walk ts a [] = (if a \<in> dom ts then Some a else None)"
  by (auto split: option.splits)

declare walk.simps(1) [simp del]

lemma walk_snoc: "walk ts a (p @ [i]) =
    (case walk ts a p of None \<Rightarrow> None
     | Some b \<Rightarrow> (case next_level ts b i of None \<Rightarrow> None | Some c \<Rightarrow> if c \<in> dom ts then Some c else None))"
  by (auto simp: walk_append walk_Nil_dom split: option.splits)

lemma walk_upd_entry:
  assumes "\<And>p r. q = p @ i # r \<Longrightarrow> walk ts x p \<noteq> Some a"
  shows "walk (entry_upd ts a i v) x q = walk ts x q"
  using assms
proof (induction q arbitrary: x)
  case Nil
  show ?case by (simp add: walk_Nil_dom)
next
  case (Cons j q)
  show ?case
  proof (cases "x \<in> dom ts")
    case True
    have ne: "x \<noteq> a \<or> j \<noteq> i" using Cons.prems [of "[]" q] True by (auto simp: walk_Nil_dom)
    note nl = next_level_entry_upd [OF ne, of ts v]
    show ?thesis
    proof (cases "next_level ts x j")
      case (Some b)
      have "walk (entry_upd ts a i v) b q = walk ts b q"
      proof (rule Cons.IH)
        fix p r assume "q = p @ i # r"
        with Cons.prems [of "j # p" r] Some show "walk ts b p \<noteq> Some a" by simp
      qed
      with Some nl show ?thesis by simp
    qed (simp add: nl)
  next
    case False
    then have "ts x = None" by blast
    moreover have "entry_upd ts a i v x = None" using False dom_entry_upd [of ts a i v] by blast
    ultimately show ?thesis by (simp add: next_level_def)
  qed
qed

lemma wf_tables_closed:
  "wf_tables ts root \<Longrightarrow> length p < 3 \<Longrightarrow> walk ts root p = Some a \<Longrightarrow> next_level ts a i = Some b \<Longrightarrow> b \<in> dom ts"
  unfolding wf_tables_def by blast

lemma wf_tables_inj:
  "wf_tables ts root \<Longrightarrow> length p \<le> 3 \<Longrightarrow> length q \<le> 3 \<Longrightarrow> walk ts root p = Some a \<Longrightarrow>
   walk ts root q = Some a \<Longrightarrow> p = q"
  unfolding wf_tables_def by blast

lemma wf_tablesI:
  assumes "root \<in> dom ts"
    and "\<And>p a i b. length p < 3 \<Longrightarrow> walk ts root p = Some a \<Longrightarrow> next_level ts a i = Some b \<Longrightarrow> b \<in> dom ts"
    and "\<And>p q a. length p \<le> 3 \<Longrightarrow> length q \<le> 3 \<Longrightarrow> walk ts root p = Some a \<Longrightarrow> walk ts root q = Some a \<Longrightarrow> p = q"
  shows "wf_tables ts root"
  using assms unfolding wf_tables_def by blast

lemma walk_table_add:
  assumes wf: "wf_tables ts root" and b: "b \<notin> dom ts"
  shows "length q \<le> 3 \<Longrightarrow> walk (table_add ts b) root q = walk ts root q"
proof (induction q rule: rev_induct)
  case Nil
  from wf b have "root \<noteq> b" by (auto simp: wf_tables_def)
  then show ?case by (simp add: walk_Nil_dom)
next
  case (snoc i q)
  then have IH: "walk (table_add ts b) root q = walk ts root q" by simp
  show ?case
  proof (cases "walk ts root q")
    case (Some a)
    then have "a \<noteq> b" using b walk_dom by blast
    note nl = next_level_table_add [OF this, of ts i]
    have "c \<noteq> b" if "next_level ts a i = Some c" for c
      using wf_tables_closed [OF wf _ Some that] b snoc.prems by auto
    with IH Some nl show ?thesis by (auto simp: walk_snoc split: option.splits)
  qed (simp add: IH walk_snoc)
qed

text \<open>Adding a table that nothing points to keeps the tree.\<close>

lemma wf_table_add:
  assumes wf: "wf_tables ts root" and b: "b \<notin> dom ts"
  shows "wf_tables (table_add ts b) root"
proof (rule wf_tablesI)
  show "root \<in> dom (table_add ts b)" using wf by (auto simp: wf_tables_def)
next
  fix p a i c
  assume p: "length p < 3" "walk (table_add ts b) root p = Some a" "next_level (table_add ts b) a i = Some c"
  then have w: "walk ts root p = Some a" using walk_table_add [OF assms, of p] by simp
  then have "a \<noteq> b" using b walk_dom by blast
  with p w show "c \<in> dom (table_add ts b)"
    using wf_tables_closed [OF wf p(1) w] by (simp add: next_level_table_add)
next
  fix p q a
  assume "length p \<le> 3" "length q \<le> 3" "walk (table_add ts b) root p = Some a" "walk (table_add ts b) root q = Some a"
  then show "p = q" using wf_tables_inj [OF wf] walk_table_add [OF assms] by simp
qed

text \<open>Writing a last-level entry changes no walk through the upper levels.\<close>

lemma leaf_upd_walk:
  assumes wf: "wf_tables ts root" and a: "walk ts root p = Some a" "length p = 3"
    and q: "length q \<le> 3"
  shows "walk (entry_upd ts a i v) root q = walk ts root q"
proof (rule walk_upd_entry)
  fix p' r assume "q = p' @ i # r"
  with q have "length p' < 3" by simp
  then show "walk ts root p' \<noteq> Some a"
    using wf_tables_inj [OF wf _ _ _ a(1), of p'] a(2) by auto
qed

lemma leaf_upd_wf:
  assumes wf: "wf_tables ts root" and a: "walk ts root p = Some a" "length p = 3"
  shows "wf_tables (entry_upd ts a i v) root"
proof (rule wf_tablesI)
  note w = leaf_upd_walk [OF assms]
  show "root \<in> dom (entry_upd ts a i v)" using wf by (simp add: wf_tables_def)
next
  note w = leaf_upd_walk [OF assms]
  fix q c j b
  assume q: "length q < 3" "walk (entry_upd ts a i v) root q = Some c" "next_level (entry_upd ts a i v) c j = Some b"
  then have wq: "walk ts root q = Some c" using w [of q] by simp
  then have "c \<noteq> a" using wf_tables_inj [OF wf _ _ wq, of p] a q(1) by auto
  with q show "b \<in> dom (entry_upd ts a i v)"
    using wf_tables_closed [OF wf q(1) wq] by (simp add: next_level_entry_upd)
next
  note w = leaf_upd_walk [OF assms]
  fix q r c
  assume "length q \<le> 3" "length r \<le> 3" "walk (entry_upd ts a i v) root q = Some c" "walk (entry_upd ts a i v) root r = Some c"
  then show "q = r" using wf_tables_inj [OF wf] w by simp
qed

text \<open>Pointing a non-present entry above the last level to a fresh, empty table.\<close>

lemma entry_table_present: "is_present v \<Longrightarrow> entry_table v = Ok (v AND NOT ATTR_MASK)"
  by (simp add: entry_table_def)

lemma next_level_eq_None: "ts a = Some t \<Longrightarrow> \<not> is_present (t i) \<Longrightarrow> next_level ts a i = None"
  by (simp add: next_level_def entry_table_def)

lemma next_level_eq_Some:
  "ts a = Some t \<Longrightarrow> i < 512 \<Longrightarrow> entry_table (t i) = Ok b \<Longrightarrow> next_level ts a i = Some b"
  by (simp add: next_level_def)

lemma next_level_zero: "ts b = Some zero_table \<Longrightarrow> next_level ts b j = None"
  by (simp add: next_level_def zero_table_def entry_table_def is_present_def)

lemma link_walk:
  assumes wf: "wf_tables ts root" and a: "walk ts root p = Some a" "length p \<le> 2"
    and t: "ts a = Some t" "\<not> is_present (t i)" "i < 512"
    and b: "b \<notin> dom ts" and v: "entry_table v = Ok b" and q: "length q \<le> 3"
  shows "walk (entry_upd (table_add ts b) a i v) root q = (if q = p @ [i] then Some b else walk ts root q)"
proof -
  let ?u = "table_add ts b" let ?w = "entry_upd (table_add ts b) a i v"
  have ab: "a \<noteq> b" using t(1) b by auto
  have ua: "?u a = Some t" using ab t(1) by (simp add: table_add_other)
  have wb: "?w b = Some zero_table" using ab by (simp add: entry_upd_other table_add_def)
  have nl: "next_level ?w a i = Some b"
    using next_level_eq_Some [of ?w a "t(i := v)" i b, OF entry_upd_same [of ?u a t i v, OF ua]] t(3) v by simp
  note same = walk_table_add [OF wf b]
  show ?thesis
  proof (cases "\<exists>r. q = p @ i # r")
    case False
    have "walk ?w root q = walk ?u root q"
    proof (rule walk_upd_entry)
      fix p' r assume eq: "q = p' @ i # r"
      show "walk ?u root p' \<noteq> Some a"
      proof
        assume "walk ?u root p' = Some a"
        then have "walk ts root p' = Some a" using same [of p'] eq q by simp
        then have "p' = p" using wf_tables_inj [OF wf _ _ _ a(1), of p'] eq q a(2) by simp
        with eq False show False by blast
      qed
    qed
    with False same [OF q] show ?thesis by auto
  next
    case True
    then obtain r where r: "q = p @ i # r" by blast
    have "walk ?w root p = walk ?u root p"
    proof (rule walk_upd_entry)
      fix p' r' assume eq: "p = p' @ i # r'"
      then have "walk ts root p' \<noteq> Some a"
        using wf_tables_inj [OF wf _ _ _ a(1), of p'] a(2) by auto
      then show "walk ?u root p' \<noteq> Some a" using same [of p'] eq a(2) by simp
    qed
    then have "walk ?w root p = Some a" using same [of p] a by simp
    then have "walk ?w root q = walk ?w b r" using r nl by (simp add: walk_append)
    moreover have "walk ts root q = None"
      using r a(1) next_level_eq_None [of ts a t i, OF t(1,2)] by (simp add: walk_append)
    moreover have "walk ?w b r = (if r = [] then Some b else None)"
      using wb next_level_zero [of ?w b, OF wb] by (cases r) (auto simp: walk_Nil_dom)
    ultimately show ?thesis using r by simp
  qed
qed

lemma link_wf:
  assumes wf: "wf_tables ts root" and a: "walk ts root p = Some a" "length p \<le> 2"
    and t: "ts a = Some t" "\<not> is_present (t i)" "i < 512"
    and b: "b \<notin> dom ts" and v: "entry_table v = Ok b"
  shows "wf_tables (entry_upd (table_add ts b) a i v) root"
proof -
  let ?w = "entry_upd (table_add ts b) a i v"
  note w = link_walk [OF assms]
  have ab: "a \<noteq> b" using t(1) b by auto
  have wb: "?w b = Some zero_table" using ab by (simp add: entry_upd_other table_add_def)
  have old: "c \<noteq> b" if "walk ts root q = Some c" for q c using walk_dom [OF that] b by auto
  show ?thesis
  proof (rule wf_tablesI)
    show "root \<in> dom ?w" using wf by (simp add: wf_tables_def)
  next
    fix q c j d
    assume q: "length q < 3" "walk ?w root q = Some c" "next_level ?w c j = Some d"
    then have "c \<noteq> b" using next_level_zero [of ?w b j, OF wb] by auto
    then have wq: "walk ts root q = Some c" using q w [of q] by (simp split: if_splits)
    show "d \<in> dom ?w"
    proof (cases "c = a \<and> j = i")
      case True
      have "?w a = Some (t(i := v))" using ab t(1) by (intro entry_upd_same) (simp add: table_add_other)
      with True q(3) t(3) v show ?thesis by (simp add: next_level_def)
    next
      case False
      with q(3) \<open>c \<noteq> b\<close> have "next_level ts c j = Some d"
        by (simp add: next_level_entry_upd next_level_table_add)
      with wf_tables_closed [OF wf q(1) wq] show ?thesis by simp
    qed
  next
    fix q r c
    assume "length q \<le> 3" "length r \<le> 3" "walk ?w root q = Some c" "walk ?w root r = Some c"
    then show "q = r" using wf_tables_inj [OF wf, of q r c] w [of q] w [of r] old
      by (auto split: if_splits)
  qed
qed

lemma length_page_path: "level \<le> 4 \<Longrightarrow> 1 \<le> level \<Longrightarrow> length (page_path level n) = 4 - level"
  by (simp add: page_path_def)

lemma link_pte:
  assumes wf: "wf_tables ts root" and a: "walk ts root p = Some a" "length p \<le> 2"
    and t: "ts a = Some t" "\<not> is_present (t i)" "i < 512"
    and b: "b \<notin> dom ts" and v: "entry_table v = Ok b"
  shows "pte (entry_upd (table_add ts b) a i v) root m = pte ts root m"
proof -
  let ?w = "entry_upd (table_add ts b) a i v" let ?q = "page_path 1 m"
  have ab: "a \<noteq> b" using t(1) b by auto
  have wb: "?w b = Some zero_table" using ab by (simp add: entry_upd_other table_add_def)
  have len: "length ?q = 3" by (simp add: length_page_path)
  note w = link_walk [OF assms, of ?q]
  show ?thesis
  proof (cases "?q = p @ [i]")
    case True
    have "walk ts root ?q = None" unfolding True using a(1) next_level_eq_None [of ts a t i, OF t(1,2)] by (simp add: walk_append)
    with True w len wb show ?thesis by (simp add: pte_def zero_table_def)
  next
    case False
    have "c \<noteq> a \<and> c \<noteq> b" if "walk ts root ?q = Some c" for c
      using wf_tables_inj [OF wf _ _ that, of p] a len walk_dom [OF that] b by auto
    with False w len show ?thesis
      by (auto simp: pte_def entry_upd_other table_add_other split: option.splits)
  qed
qed

text \<open>A page number is determined by its four indices.\<close>

lemma page_number_split:
  assumes "n < 2 ^ 36"
  shows "n = ((page_index 4 n * 512 + page_index 3 n) * 512 + page_index 2 n) * 512 + page_index 1 n"
proof -
  define x y z where xyz: "x = n div 512" "y = x div 512" "z = y div 512"
  have "z < 512" using assms by (simp add: xyz div_less_iff_less_mult flip: div_mult2_eq)
  then have "page_index 4 n = z" "page_index 3 n = y mod 512" "page_index 2 n = x mod 512" "page_index 1 n = n mod 512"
    by (simp_all add: page_index_def xyz power_numeral_reduce flip: div_mult2_eq)
  moreover have "n = x * 512 + n mod 512" "x = y * 512 + x mod 512" "y = z * 512 + y mod 512"
    by (simp_all add: xyz)
  ultimately show ?thesis by presburger
qed

lemma page_path_inj:
  assumes "m < 2 ^ 36" and "n < 2 ^ 36" and "page_path 1 m = page_path 1 n" and "page_index 1 m = page_index 1 n"
  shows "m = n"
proof -
  from assms(3) have "page_index 4 m = page_index 4 n" "page_index 3 m = page_index 3 n" "page_index 2 m = page_index 2 n"
    by (simp_all add: page_path_def)
  with page_number_split [OF assms(1)] page_number_split [OF assms(2)] assms(4) show ?thesis by metis
qed

lemma leaf_upd_pte:
  assumes wf: "wf_tables ts root" and a: "walk ts root (page_path 1 n) = Some a"
    and m: "m < 2 ^ 36" "n < 2 ^ 36"
  shows "pte (entry_upd ts a (page_index 1 n) v) root m = (if m = n then v else pte ts root m)"
proof -
  let ?w = "entry_upd ts a (page_index 1 n) v"
  note w = leaf_upd_walk [OF wf a, of "page_path 1 m" "page_index 1 n" v]
  obtain t where t: "ts a = Some t" using walk_dom [OF a] by blast
  show ?thesis
  proof (cases "walk ts root (page_path 1 m) = Some a")
    case True
    then have eq: "page_path 1 m = page_path 1 n"
      using wf_tables_inj [OF wf _ _ True a] by (simp add: length_page_path)
    then have "page_index 1 m = page_index 1 n \<longleftrightarrow> m = n" using page_path_inj m by blast
    with True w t show ?thesis by (simp add: pte_def length_page_path entry_upd_same)
  next
    case False
    then have "m \<noteq> n" using a by auto
    with False w show ?thesis
      by (auto simp: pte_def length_page_path entry_upd_other split: option.splits)
  qed
qed

section \<open>Memory for new tables\<close>

text \<open>\<open>can_alloc h k\<close>: the allocator can hand out \<open>k\<close> more page-aligned pages.\<close>

fun can_alloc :: "FirstFitAllocator \<Rightarrow> nat \<Rightarrow> bool" where
  "can_alloc h 0 \<longleftrightarrow> True"
| "can_alloc h (Suc k) \<longleftrightarrow>
     (case alloc_with_options h PAGE_SIZE PAGE_SIZE of
        Some (Ok (p, h')) \<Rightarrow> p \<noteq> 0 \<and> can_alloc h' k
      | _ \<Rightarrow> False)"

lemma can_alloc_mono: "can_alloc h k \<Longrightarrow> j \<le> k \<Longrightarrow> can_alloc h j"
proof (induction k arbitrary: h j)
  case (Suc k)
  then show ?case by (cases j) (auto split: option.splits result.splits)
qed simp

text \<open>\<open>takes_pages k h h'\<close>: \<open>h'\<close> is what \<open>k\<close> such allocations leave of \<open>h\<close>.\<close>

primrec takes_pages :: "nat \<Rightarrow> FirstFitAllocator \<Rightarrow> FirstFitAllocator \<Rightarrow> bool" where
  "takes_pages 0 h h' \<longleftrightarrow> h' = h"
| "takes_pages (Suc k) h h' \<longleftrightarrow>
     (\<exists>p h1. alloc_with_options h PAGE_SIZE PAGE_SIZE = Some (Ok (p, h1)) \<and> p \<noteq> 0 \<and> takes_pages k h1 h')"

lemma takes_pages_append: "takes_pages j h h1 \<Longrightarrow> takes_pages k h1 h2 \<Longrightarrow> takes_pages (j + k) h h2"
  by (induction j arbitrary: h) auto

lemma takes_pages_can_alloc: "takes_pages k h h' \<Longrightarrow> can_alloc h (k + r) \<Longrightarrow> can_alloc h' r"
  by (induction k arbitrary: h) auto

definition uses_tables :: "nat \<Rightarrow> PageTables \<Rightarrow> PageTables \<Rightarrow> bool" where
  "uses_tables c st st' \<longleftrightarrow> (\<exists>k \<le> c. takes_pages k (pt_heap st) (pt_heap st'))"

lemma uses_tables_refl: "uses_tables c st st"
  unfolding uses_tables_def by (intro exI [of _ 0]) simp

lemma uses_tables_trans: "uses_tables c st st' \<Longrightarrow> uses_tables d st' st'' \<Longrightarrow> uses_tables (c + d) st st''"
  unfolding uses_tables_def by (meson add_mono takes_pages_append)

lemma uses_tablesD: "uses_tables c st st' \<Longrightarrow> can_alloc (pt_heap st) (c + r) \<Longrightarrow> can_alloc (pt_heap st') r"
  unfolding uses_tables_def by (meson add_le_mono1 can_alloc_mono takes_pages_can_alloc)

text \<open>
  The invariant of the page tables together with the heap they live in: the tables form a
  tree, and each occupies a live region.
\<close>

definition tables_live :: "PageTables \<Rightarrow> bool" where
  "tables_live st \<longleftrightarrow> heap_inv (pt_heap st) \<and>
     (\<forall>a \<in> dom (pt_tables st). \<exists>m > 0. (unat a, m) \<in> live (pt_heap st))"

definition pt_inv :: "u64 \<Rightarrow> PageTables \<Rightarrow> bool" where
  "pt_inv root st \<longleftrightarrow> wf_tables (pt_tables st) root \<and> tables_live st"

lemma layout_page: "layout_ok PAGE_SIZE PAGE_SIZE"
  by (rule layout_ok_pow [of _ 12]) (simp_all add: PAGE_SIZE_def)

lemma live_below: "heap_inv h \<Longrightarrow> (a, m) \<in> live h \<Longrightarrow> a + m < usize_bound"
  by (force simp: heap_inv_def live_eq live_blocks_def represents_def HEADER_SIZE_def dest: wf_blocks_in)

lemma aligned_word: "4096 dvd p \<Longrightarrow> (of_nat p :: u64) AND ATTR_MASK = 0"
proof -
  assume "4096 dvd p"
  have "(of_nat p :: u64) AND mask 12 = of_nat (take_bit 12 p)"
    by (simp only: flip: take_bit_eq_mask take_bit_of_nat)
  also have "\<dots> = 0" using \<open>4096 dvd p\<close> by (simp add: take_bit_eq_mod)
  finally show ?thesis by (simp add: ATTR_MASK_def mask_eq_exp_minus_1)
qed

lemma table_entry:
  assumes "b AND ATTR_MASK = 0"
  shows "entry_table (b OR attr_bits ReadWriteKernel) = Ok b"
proof -
  have m: "ATTR_MASK = mask 12" by (simp add: ATTR_MASK_def mask_eq_exp_minus_1)
  have k: "attr_bits ReadWriteKernel = mask 2"
    by (simp add: ATTR_PRESENT_def ATTR_WRITABLE_def mask_eq_exp_minus_1)
  have "(b OR mask 2) AND 1 = 1" by (rule bit_word_eqI) (auto simp: bit_simps)
  then have "is_present (b OR mask 2)" by (simp add: is_present_def)
  moreover have "(b OR mask 2) AND NOT (mask 12) = b"
  proof (rule bit_word_eqI)
    fix n assume n: "n < LENGTH(64)"
    have "\<not> (bit b n \<and> n < 12)" using arg_cong [OF assms, of "\<lambda>x. bit x n"] n by (simp add: m bit_simps)
    then show "bit ((b OR mask 2) AND NOT (mask 12)) n = bit b n" using n by (auto simp: bit_simps)
  qed
  ultimately show ?thesis unfolding k by (simp add: entry_table_def m)
qed

lemma box_new_table_fresh:
  assumes inv: "tables_live st" and mem: "can_alloc (pt_heap st) (Suc 0)"
  shows "\<exists>b h'. box_new_table st = Some (Ok b, st\<lparr>pt_heap := h', pt_tables := table_add (pt_tables st) b\<rparr>) \<and>
    b \<notin> dom (pt_tables st) \<and> b AND ATTR_MASK = 0 \<and> heap_inv h' \<and>
    live (pt_heap st) \<subseteq> live h' \<and> (\<exists>m > 0. (unat b, m) \<in> live h') \<and>
    takes_pages 1 (pt_heap st) h'"
proof -
  let ?h = "pt_heap st"
  obtain p h' where al: "alloc_with_options ?h PAGE_SIZE PAGE_SIZE = Some (Ok (p, h'))" "p \<noteq> 0"
    using mem by (auto split: option.splits result.splits)
  from inv have hi: "heap_inv ?h" by (simp add: tables_live_def)
  from first_fit_heap.alloc_fresh [OF hi layout_page al] obtain n where
    n: "heap_inv h'" "4096 dvd p" "4096 \<le> n" "live h' = insert (p, n) (live ?h)"
    and apart: "\<forall>r \<in> live ?h. regions_apart (p, n) r" by (auto simp: PAGE_SIZE_def)
  have "p + n < usize_bound" using live_below [OF n(1)] n(4) by blast
  then have up: "unat (of_nat p :: u64) = p" by (simp add: unat_of_nat)
  have "(of_nat p :: u64) \<notin> dom (pt_tables st)"
  proof
    assume "(of_nat p :: u64) \<in> dom (pt_tables st)"
    then obtain m where "m > 0" "(p, m) \<in> live ?h" using inv up unfolding tables_live_def by metis
    with apart n(3) show False by (force simp: regions_apart_def)
  qed
  moreover have "box_new_table st = Some (Ok (of_nat p), st\<lparr>pt_heap := h', pt_tables := table_add (pt_tables st) (of_nat p)\<rparr>)"
    using al by (simp add: box_new_table_def table_add_def)
  moreover have "\<exists>m > 0. (unat (of_nat p :: u64), m) \<in> live h'" using n(3,4) up by (intro exI [of _ n]) simp
  moreover have "takes_pages 1 ?h h'" using al by simp
  ultimately show ?thesis using aligned_word [OF n(2)] n(1,4) by blast
qed

text \<open>What populating an entry does: a table below it, nothing else seen by a page walk.\<close>

definition extends :: "u64 \<Rightarrow> PageTables \<Rightarrow> PageTables \<Rightarrow> bool" where
  "extends root st st' \<longleftrightarrow> pt_inv root st' \<and>
     (\<forall>q x. length q \<le> 3 \<and> walk (pt_tables st) root q = Some x \<longrightarrow> walk (pt_tables st') root q = Some x)"

lemma extends_walk: "extends root st st' \<Longrightarrow> length q \<le> 3 \<Longrightarrow> walk (pt_tables st) root q = Some x \<Longrightarrow>
    walk (pt_tables st') root q = Some x"
  by (simp add: extends_def)

lemma extends_trans: "extends root st st' \<Longrightarrow> extends root st' st'' \<Longrightarrow> extends root st st''"
  by (simp add: extends_def)

lemma set_entry_tables: "pt_tables (set_entry a i v st) = entry_upd (pt_tables st) a i v"
  by (auto simp: set_entry_def entry_upd_def split: option.splits)

lemma set_entry_heap: "pt_heap (set_entry a i v st) = pt_heap st"
  by (auto simp: set_entry_def split: option.splits)

lemma ensure_populated_extends:
  assumes inv: "pt_inv root st" and a: "walk (pt_tables st) root p = Some a" "length p \<le> 2"
    and t: "pt_tables st a = Some t" "i < 512" and mem: "can_alloc (pt_heap st) (Suc 0)"
  shows "\<exists>v b st'. ensure_populated a i (t i) st = Some (Ok v, st') \<and> entry_table v = Ok b \<and>
    extends root st st' \<and> walk (pt_tables st') root (p @ [i]) = Some b \<and>
    (\<forall>m. pte (pt_tables st') root m = pte (pt_tables st) root m) \<and> uses_tables 1 st st'"
proof (cases "is_present (t i)")
  case True
  let ?b = "t i AND NOT ATTR_MASK"
  from inv have wf: "wf_tables (pt_tables st) root" by (simp add: pt_inv_def)
  have e: "entry_table (t i) = Ok ?b" using True by (rule entry_table_present)
  then have nl: "next_level (pt_tables st) a i = Some ?b" using t by (simp add: next_level_def)
  have "?b \<in> dom (pt_tables st)" using wf_tables_closed [OF wf _ a(1) nl] a(2) by simp
  then have "walk (pt_tables st) root (p @ [i]) = Some ?b" using a(1) nl by (simp add: walk_snoc)
  moreover have "ensure_populated a i (t i) st = Some (Ok (t i), st)" using True by (simp add: ensure_populated_def)
  ultimately show ?thesis using e inv uses_tables_refl by (auto simp: extends_def)
next
  case False
  let ?ts = "pt_tables st"
  from inv have wf: "wf_tables ?ts root" and tl: "tables_live st" by (simp_all add: pt_inv_def)
  from box_new_table_fresh [OF tl mem] obtain b h' where
    box: "box_new_table st = Some (Ok b, st\<lparr>pt_heap := h', pt_tables := table_add ?ts b\<rparr>)"
    and b: "b \<notin> dom ?ts" "b AND ATTR_MASK = 0" and h: "heap_inv h'" "live (pt_heap st) \<subseteq> live h'"
    "\<exists>m > 0. (unat b, m) \<in> live h'" "takes_pages 1 (pt_heap st) h'" by blast
  define v where "v = b OR attr_bits ReadWriteKernel"
  define st' where "st' = set_entry a i v (st\<lparr>pt_heap := h', pt_tables := table_add ?ts b\<rparr>)"
  have v: "entry_table v = Ok b" unfolding v_def using b(2) by (rule table_entry)
  have ts': "pt_tables st' = entry_upd (table_add ?ts b) a i v" and h': "pt_heap st' = h'"
    by (simp_all add: st'_def set_entry_tables set_entry_heap)
  note facts = wf a t(1) False t(2) b(1) v
  have "ensure_populated a i (t i) st = Some (Ok v, st')"
    using False box by (simp add: ensure_populated_def populate_def Let_def st'_def v_def)
  moreover have "pt_inv root st'"
    using link_wf [OF facts] tl h unfolding pt_inv_def tables_live_def ts' h' by (simp, blast)
  moreover have "\<forall>q x. length q \<le> 3 \<and> walk ?ts root q = Some x \<longrightarrow> walk (pt_tables st') root q = Some x"
    unfolding ts' using link_walk [OF facts] a(1) next_level_eq_None [of ?ts a t i, OF t(1) False]
    by (auto simp: walk_snoc)
  moreover have "walk (pt_tables st') root (p @ [i]) = Some b"
    unfolding ts' using link_walk [OF facts, of "p @ [i]"] a(2) by simp
  moreover have "\<forall>m. pte (pt_tables st') root m = pte ?ts root m"
    unfolding ts' using link_pte [OF facts] by blast
  moreover have "uses_tables 1 st st'" using h(4) unfolding uses_tables_def h' by blast
  ultimately show ?thesis using v by (auto simp: extends_def)
qed

section \<open>The loops of \<open>create_mapping\<close>\<close>

abbreviation page_addr :: "nat \<Rightarrow> u64" where
  "page_addr n \<equiv> of_nat (n * 4096)"

text \<open>The entry that maps page \<open>m\<close> of a range that starts at page \<open>vp\<close>.\<close>

definition page_entry :: "u64 \<Rightarrow> PageAttr \<Rightarrow> nat \<Rightarrow> nat \<Rightarrow> u64" where
  "page_entry phys attr vp m = (phys + page_addr (m - vp)) OR attr_bits attr"

definition maps_range :: "u64 \<Rightarrow> u64 \<Rightarrow> PageAttr \<Rightarrow> nat \<Rightarrow> nat \<Rightarrow> nat \<Rightarrow> PageTables \<Rightarrow> PageTables \<Rightarrow> bool" where
  "maps_range root phys attr vp n n' st st' \<longleftrightarrow> extends root st st' \<and>
     (\<forall>m < 2 ^ 36. pte (pt_tables st') root m =
        (if n \<le> m \<and> m < n' then page_entry phys attr vp m else pte (pt_tables st) root m))"

lemma maps_range_trans:
  "maps_range root phys attr vp n m st st' \<Longrightarrow> maps_range root phys attr vp m k st' st'' \<Longrightarrow> n \<le> m \<Longrightarrow> m \<le> k \<Longrightarrow>
   maps_range root phys attr vp n k st st''"
  by (auto simp: maps_range_def intro: extends_trans)

lemma unat_page_addr: "n \<le> 2 ^ 36 \<Longrightarrow> unat (page_addr n) = n * 4096"
proof -
  assume "n \<le> 2 ^ 36"
  then have "n * 4096 < 2 ^ 64" by simp
  then show ?thesis by (simp add: unat_of_nat del: of_nat_mult)
qed

text \<open>\<open>E\<close> is the first page not below the end address \<open>ve\<close>, which need not be aligned.\<close>

definition end_page :: "u64 \<Rightarrow> nat \<Rightarrow> bool" where
  "end_page ve E \<longleftrightarrow> unat ve \<le> E * 4096 \<and> E * 4096 < unat ve + 4096"

lemma end_page_le: "end_page ve E \<Longrightarrow> m \<le> 2 ^ 36 \<Longrightarrow> ve \<le> page_addr m \<longleftrightarrow> E \<le> m"
  by (auto simp: word_le_nat_alt unat_page_addr end_page_def simp del: of_nat_mult)

lemma calc_index_page:
  assumes "1 \<le> level" "level \<le> 4" "n \<le> 2 ^ 36"
  shows "calc_index level (page_addr n) = page_index level n"
proof -
  define s where "s = (level - 1) * 9"
  have m: "(0x1FF :: u64) = mask 9" by (simp add: mask_eq_exp_minus_1)
  define x where "x = page_addr n"
  have x: "unat x = n * 4096" unfolding x_def using assms(3) by (rule unat_page_addr)
  have small: "take_bit 64 (n * 4096) = n * 4096" using assms(3) by (intro take_bit_nat_eq_self) simp
  have "calc_index level x = take_bit 9 (drop_bit (s + 12) (n * 4096))"
    unfolding calc_index_def index_shift_def m s_def [symmetric]
    by (simp add: x small unsigned_drop_bit_eq unsigned_take_bit_eq flip: take_bit_eq_mask)
  also have "drop_bit (s + 12) (n * 4096) = n div 2 ^ s"
    by (simp add: drop_bit_eq_div power_add mult.commute [of "2 ^ s"] div_mult2_eq)
  also have "(2::nat) ^ s = 512 ^ (level - 1)"
    unfolding s_def using power_mult [of "2::nat" 9 "level - 1"] by (simp add: mult.commute)
  finally show ?thesis unfolding x_def by (simp add: page_index_def take_bit_eq_mod)
qed

lemma aligned_page:
  assumes "phys AND ATTR_MASK = 0"
  shows "(phys + page_addr k) AND ATTR_MASK = 0"
proof -
  have "phys AND mask 12 = 0" using assms by (simp add: ATTR_MASK_def mask_eq_exp_minus_1)
  then have "take_bit 12 (unat phys) = 0" by (simp only: flip: take_bit_eq_mask unsigned_take_bit_eq) simp
  then have "4096 dvd unat phys" by (simp add: take_bit_eq_mod mod_0_imp_dvd)
  then have "4096 dvd unat phys + k * 4096" by simp
  from aligned_word [OF this] show ?thesis by simp
qed

lemma map_page_maps:
  assumes inv: "pt_inv root st" and a: "walk (pt_tables st) root (page_path 1 n) = Some a"
    and n: "vp \<le> n" "n < 2 ^ 36" and phys: "phys AND ATTR_MASK = 0" "unat phys + n * 4096 < 2 ^ 64"
  shows "\<exists>st'. map_page (page_addr vp) phys attr a (page_index 1 n) (page_addr n) st = (Ok (page_addr (n + 1)), st') \<and>
    maps_range root phys attr vp n (n + 1) st st' \<and> uses_tables 0 st st'"
proof -
  define st' where "st' = set_entry a (page_index 1 n) (page_entry phys attr vp n) st"
  from inv have wf: "wf_tables (pt_tables st) root" by (simp add: pt_inv_def)
  have len: "length (page_path 1 n) = 3" by (simp add: length_page_path)
  have un: "unat (page_addr n) = n * 4096" "unat (page_addr vp) = vp * 4096"
    using n by (simp_all add: unat_page_addr del: of_nat_mult)
  have add: "add_word phys (page_addr n) = Ok (phys + page_addr n)" using phys(2) un by (simp add: add_word_def del: of_nat_mult)
  have "unat (phys + page_addr n) = unat phys + n * 4096" using phys(2) un by (subst unat_plus_if') simp
  then have "page_addr vp \<le> phys + page_addr n" using un n by (simp add: word_le_nat_alt del: of_nat_mult)
  moreover have "phys + page_addr n - page_addr vp = phys + page_addr (n - vp)" using n(1) by (simp add: of_nat_diff algebra_simps)
  ultimately have sub: "sub_word (phys + page_addr n) (page_addr vp) = Ok (phys + page_addr (n - vp))"
    by (simp add: sub_word_def del: of_nat_mult)
  have set: "set_page (phys + page_addr (n - vp)) attr = Ok (page_entry phys attr vp n)"
    using aligned_page [OF phys(1)] by (simp add: set_page_def page_entry_def del: of_nat_mult)
  have "map_page (page_addr vp) phys attr a (page_index 1 n) (page_addr n) st = (Ok (page_addr (n + 1)), st')"
    unfolding map_page_def add rbind.simps sub set st'_def by (simp add: PAGE_SIZE_def algebra_simps)
  moreover have "pt_inv root st'" using inv leaf_upd_wf [OF wf a len]
    by (simp add: pt_inv_def tables_live_def st'_def set_entry_tables set_entry_heap)
  moreover have "maps_range root phys attr vp n (n + 1) st st'" using \<open>pt_inv root st'\<close> n(2) leaf_upd_walk [OF wf a len]
      leaf_upd_pte [OF wf a]
    by (auto simp: maps_range_def extends_def st'_def set_entry_tables)
  moreover have "uses_tables 0 st st'" by (simp add: uses_tables_def st'_def set_entry_heap)
  ultimately show ?thesis by blast
qed

text \<open>
  A table of level \<open>L\<close> spans \<open>512 ^ L\<close> pages: its loop ends at the end of the range or of the
  span. \<open>tables_spanned L n n'\<close> is the number of tables below level \<open>L\<close> that the pages
  from \<open>n\<close> to \<open>n'\<close> lie in, which bounds the pages the loop allocates.
\<close>

definition block_end :: "nat \<Rightarrow> nat \<Rightarrow> nat \<Rightarrow> nat" where
  "block_end L E n = min E ((n div 512 ^ L + 1) * 512 ^ L)"

definition tables_spanned :: "nat \<Rightarrow> nat \<Rightarrow> nat \<Rightarrow> nat" where
  "tables_spanned L n n' = (\<Sum>l\<leftarrow>[1..<L]. (n' + 512 ^ l - 1) div 512 ^ l - n div 512 ^ l)"

lemma block_end_bounds: "n < E \<Longrightarrow> n < block_end L E n \<and> block_end L E n \<le> E"
proof -
  have "n < (n div 512 ^ L + 1) * 512 ^ L" using dividend_less_div_times [of "512 ^ L" n] by (simp add: algebra_simps)
  then show "n < E \<Longrightarrow> ?thesis" by (simp add: block_end_def)
qed

lemma block_end_0: "n < E \<Longrightarrow> block_end 0 E n = n + 1"
  by (simp add: block_end_def)

lemma page_path_cong:
  assumes "n div 512 ^ L = m div 512 ^ L" and "1 \<le> L"
  shows "page_path L n = page_path L m"
proof -
  have "page_index j n = page_index j m" if "L < j" for j
  proof -
    have "(512::nat) ^ (j - 1) = 512 ^ L * 512 ^ (j - 1 - L)" using that by (simp flip: power_add)
    then show ?thesis using assms(1) by (simp add: page_index_def div_mult2_eq)
  qed
  moreover have "L = 1 \<or> L = 2 \<or> L = 3 \<or> 4 \<le> L" using assms(2) by auto
  ultimately show ?thesis by (auto simp: page_path_def)
qed

lemma page_path_child: "2 \<le> L \<Longrightarrow> L \<le> 4 \<Longrightarrow> page_path (L - 1) n = page_path L n @ [page_index L n]"
proof -
  assume "2 \<le> L" "L \<le> 4"
  then have "L = 2 \<or> L = 3 \<or> L = 4" by auto
  then show ?thesis by (auto simp: page_path_def)
qed

text \<open>One page of the range, or the part of it below one entry of a table.\<close>

definition map_body ::
  "u64 \<Rightarrow> u64 \<Rightarrow> u64 \<Rightarrow> PageAttr \<Rightarrow> nat \<Rightarrow> u64 \<Rightarrow> Table \<Rightarrow> u64 \<Rightarrow> PageTables \<Rightarrow> (u64 result \<times> PageTables) option" where
  "map_body virt_start virt_end phys attr level a t addr st =
     (let index = calc_index level addr in
      if level \<le> 1 then Some (map_page virt_start phys attr a index addr st)
      else Option.bind (ensure_populated a index (t index) st) (\<lambda>(r, st').
        case rbind r entry_table of
          Ok next \<Rightarrow> map_loop virt_start virt_end phys attr (level - 1) next addr st'
        | Err e \<Rightarrow> Some (Err e, st')
        | Panic e \<Rightarrow> Some (Panic e, st')))"

lemma map_loop_unfold:
  assumes "pt_tables st a = Some t" and "map_body vs ve phys attr level a t addr st = Some (Ok addr', st')"
  shows "map_loop vs ve phys attr level a addr st =
    (if calc_index level addr + 1 \<ge> 512 \<or> addr' \<ge> ve then Some (Ok addr', st')
     else map_loop vs ve phys attr level a addr' st')"
  using assms by (subst map_loop.simps) (simp add: map_body_def Let_def)

text \<open>What the loop of level \<open>L\<close> does from page \<open>n\<close> on, and what its body does.\<close>

definition loop_spec :: "u64 \<Rightarrow> u64 \<Rightarrow> PageAttr \<Rightarrow> nat \<Rightarrow> u64 \<Rightarrow> nat \<Rightarrow> nat \<Rightarrow> nat \<Rightarrow> bool" where
  "loop_spec root phys attr vp ve E L n \<longleftrightarrow>
     (\<forall>a st. pt_inv root st \<and> walk (pt_tables st) root (page_path L n) = Some a \<and>
        can_alloc (pt_heap st) (tables_spanned L n (block_end L E n)) \<longrightarrow>
        (\<exists>st'. map_loop (page_addr vp) ve phys attr L a (page_addr n) st =
             Some (Ok (page_addr (block_end L E n)), st') \<and>
           maps_range root phys attr vp n (block_end L E n) st st' \<and>
           uses_tables (tables_spanned L n (block_end L E n)) st st'))"

definition body_spec :: "u64 \<Rightarrow> u64 \<Rightarrow> PageAttr \<Rightarrow> nat \<Rightarrow> u64 \<Rightarrow> nat \<Rightarrow> nat \<Rightarrow> nat \<Rightarrow> bool" where
  "body_spec root phys attr vp ve E L n \<longleftrightarrow>
     (\<forall>a t st. pt_inv root st \<and> walk (pt_tables st) root (page_path L n) = Some a \<and> pt_tables st a = Some t \<and>
        can_alloc (pt_heap st) (tables_spanned L n (block_end (L - 1) E n)) \<longrightarrow>
        (\<exists>st'. map_body (page_addr vp) ve phys attr L a t (page_addr n) st =
             Some (Ok (page_addr (block_end (L - 1) E n)), st') \<and>
           maps_range root phys attr vp n (block_end (L - 1) E n) st st' \<and>
           uses_tables (tables_spanned L n (block_end (L - 1) E n)) st st'))"

lemma tables_spanned_child:
  assumes "1 \<le> L" "n < n'" "n' \<le> (n div 512 ^ L + 1) * 512 ^ L"
  shows "tables_spanned (Suc L) n n' = 1 + tables_spanned L n n'"
proof -
  let ?S = "(512::nat) ^ L" let ?k = "n div ?S"
  have "?k * ?S < n'" using assms(2) by (meson div_times_less_eq_dividend le_less_trans)
  then have "n' + ?S - 1 \<ge> (?k + 1) * ?S" by (simp add: algebra_simps)
  moreover have "n' + ?S - 1 < (?k + 2) * ?S"
  proof -
    have "0 < ?S" by simp
    moreover have "(?k + 2) * ?S = (?k + 1) * ?S + ?S" by (simp add: algebra_simps)
    ultimately show ?thesis using assms(3) by linarith
  qed
  ultimately have "(n' + ?S - 1) div ?S = ?k + 1" by (intro div_nat_eqI) (simp_all add: algebra_simps)
  then show ?thesis using assms(1) by (simp add: tables_spanned_def)
qed

lemma tables_spanned_split:
  assumes "512 ^ (L - 1) dvd m" "n \<le> m" "m \<le> n'"
  shows "tables_spanned L n n' = tables_spanned L n m + tables_spanned L m n'"
proof -
  have "(n' + 512 ^ l - 1) div 512 ^ l - n div 512 ^ l =
     ((m + 512 ^ l - 1) div 512 ^ l - n div 512 ^ l) + ((n' + 512 ^ l - 1) div 512 ^ l - m div 512 ^ l)"
    if "l \<in> set [1..<L]" for l
  proof -
    have "(512::nat) ^ l dvd m" using that power_le_dvd [OF assms(1), of l] by auto
    then obtain k where k: "m = 512 ^ l * k" by (elim dvdE)
    have up: "(m + 512 ^ l - 1) div 512 ^ l = k"
    proof (rule div_nat_eqI)
      show "512 ^ l * k \<le> m + 512 ^ l - 1" using one_le_power [of "512::nat" l] k by linarith
      have "512 ^ l * Suc k = m + 512 ^ l" using k by simp
      then show "m + 512 ^ l - 1 < 512 ^ l * Suc k" using one_le_power [of "512::nat" l] by linarith
    qed
    have "n div 512 ^ l \<le> m div 512 ^ l" using assms(2) by (rule div_le_mono)
    moreover have "m div 512 ^ l \<le> (n' + 512 ^ l - 1) div 512 ^ l" 
      using assms(3) one_le_power [of "512::nat" l] by (intro div_le_mono) linarith
    moreover have "m div 512 ^ l = k" by (simp add: k)
    ultimately show ?thesis using up by linarith
  qed
  then have "tables_spanned L n n' = (\<Sum>l\<leftarrow>[1..<L].
      ((m + 512 ^ l - 1) div 512 ^ l - n div 512 ^ l) + ((n' + 512 ^ l - 1) div 512 ^ l - m div 512 ^ l))"
    unfolding tables_spanned_def by (intro arg_cong [of _ _ sum_list] map_cong) auto
  then show ?thesis by (simp add: tables_spanned_def sum_list_addf)
qed

lemma body_spec_leaf:
  assumes "vp \<le> n" "n < E" "E \<le> 2 ^ 36" "phys AND ATTR_MASK = 0" "unat phys + E * 4096 \<le> 2 ^ 64"
  shows "body_spec root phys attr vp ve E 1 n"
  unfolding body_spec_def
proof (intro allI impI, elim conjE)
  fix a t st
  assume st: "pt_inv root st" "walk (pt_tables st) root (page_path 1 n) = Some a"
  have ix: "calc_index 1 (page_addr n) = page_index 1 n" using assms by (intro calc_index_page) simp_all
  have "n < 2 ^ 36" "unat phys + n * 4096 < 2 ^ 64" using assms by simp_all
  from map_page_maps [OF st assms(1) this(1) assms(4) this(2), of attr]
  show "\<exists>st'. map_body (page_addr vp) ve phys attr 1 a t (page_addr n) st =
       Some (Ok (page_addr (block_end (1 - 1) E n)), st') \<and>
     maps_range root phys attr vp n (block_end (1 - 1) E n) st st' \<and>
     uses_tables (tables_spanned 1 n (block_end (1 - 1) E n)) st st'"
    using assms(2) by (simp add: map_body_def Let_def ix block_end_0 tables_spanned_def del: of_nat_mult One_nat_def)
qed

lemma body_spec_child:
  assumes child: "loop_spec root phys attr vp ve E (L - 1) n" and L: "2 \<le> L" "L \<le> 4" and n: "n < E" "E \<le> 2 ^ 36"
  shows "body_spec root phys attr vp ve E L n"
  unfolding body_spec_def
proof (intro allI impI, elim conjE)
  fix a t st
  let ?m = "block_end (L - 1) E n" let ?c = "tables_spanned (L - 1) n ?m"
  assume inv: "pt_inv root st" and a: "walk (pt_tables st) root (page_path L n) = Some a"
    and t: "pt_tables st a = Some t" and mem: "can_alloc (pt_heap st) (tables_spanned L n ?m)"
  have ix: "calc_index L (page_addr n) = page_index L n" using L n by (intro calc_index_page) simp_all
  have "tables_spanned (Suc (L - 1)) n ?m = 1 + ?c"
    using L block_end_bounds [OF n(1), of "L - 1"] by (intro tables_spanned_child) (auto simp: block_end_def)
  then have c: "tables_spanned L n ?m = 1 + ?c" using L by simp
  have len: "length (page_path L n) \<le> 2" using L by (simp add: length_page_path)
  have lt: "page_index L n < 512" by (simp add: page_index_def)
  have "can_alloc (pt_heap st) (Suc 0)" using mem unfolding c by (rule can_alloc_mono) simp
  from ensure_populated_extends [OF inv a len t lt this] obtain v b st1 where
    pop: "ensure_populated a (page_index L n) (t (page_index L n)) st = Some (Ok v, st1)" "entry_table v = Ok b"
    and ext: "extends root st st1" and wb: "walk (pt_tables st1) root (page_path L n @ [page_index L n]) = Some b"
    and same: "\<forall>m. pte (pt_tables st1) root m = pte (pt_tables st) root m" and use: "uses_tables 1 st st1" by blast
  have "can_alloc (pt_heap st1) ?c" using uses_tablesD [OF use] mem c by simp
  moreover have "pt_inv root st1" using ext by (simp add: extends_def)
  moreover have "walk (pt_tables st1) root (page_path (L - 1) n) = Some b" using wb page_path_child [OF L] by simp
  ultimately obtain st2 where
    loop: "map_loop (page_addr vp) ve phys attr (L - 1) b (page_addr n) st1 = Some (Ok (page_addr ?m), st2)"
    and maps: "maps_range root phys attr vp n ?m st1 st2" and use2: "uses_tables ?c st1 st2"
    using child unfolding loop_spec_def by blast
  have "map_body (page_addr vp) ve phys attr L a t (page_addr n) st = Some (Ok (page_addr ?m), st2)"
    using L pop loop by (simp add: map_body_def Let_def ix del: of_nat_mult)
  moreover have "maps_range root phys attr vp n ?m st st2"
    using maps same ext by (auto simp: maps_range_def intro: extends_trans)
  moreover have "uses_tables (tables_spanned L n ?m) st st2" unfolding c using use use2 by (rule uses_tables_trans)
  ultimately show "\<exists>st'. map_body (page_addr vp) ve phys attr L a t (page_addr n) st =
       Some (Ok (page_addr ?m), st') \<and> maps_range root phys attr vp n ?m st st' \<and>
     uses_tables (tables_spanned L n ?m) st st'" by blast
qed

text \<open>Where the loop stops and where it goes on.\<close>

lemma block_end_step:
  assumes "1 \<le> L" "n < E"
  defines "m \<equiv> block_end (L - 1) E n"
  shows "page_index L n + 1 \<ge> 512 \<or> m \<ge> E \<Longrightarrow> block_end L E n = m"
    and "\<not> (page_index L n + 1 \<ge> 512 \<or> m \<ge> E) \<Longrightarrow>
      block_end L E m = block_end L E n \<and> m div 512 ^ L = n div 512 ^ L \<and> 512 ^ (L - 1) dvd m"
proof -
  define S k where "S = (512::nat) ^ (L - 1)" and "k = n div S"
  have S: "0 < S" "512 ^ L = S * 512" using assms(1) by (simp_all add: S_def flip: power_Suc2)
  have m: "m = min E ((k + 1) * S)" by (simp add: m_def block_end_def S_def k_def)
  have kd: "n div 512 ^ L = k div 512" unfolding S(2) k_def by (rule div_mult2_eq)
  have ix: "page_index L n = k mod 512" by (simp add: page_index_def k_def S_def)
  have be: "block_end L E n = min E ((k div 512 + 1) * 512 * S)"
    unfolding block_end_def kd by (simp only: mult.assoc S(2) [unfolded mult.commute [of S 512]])
  have le: "(k + 1) * S \<le> (k div 512 + 1) * 512 * S" 
    using dividend_less_div_times [of 512 k] by (intro mult_right_mono) simp_all
  show "block_end L E n = m" if "page_index L n + 1 \<ge> 512 \<or> m \<ge> E"
  proof (cases "m \<ge> E")
    case True
    then show ?thesis using le unfolding be m by linarith
  next
    case False
    with that ix have "k mod 512 = 511" using mod_less_divisor [of 512 k] by linarith
    with div_mult_mod_eq [of k 512] have "k div 512 * 512 + 511 = k" by simp
    then have "(k div 512 + 1) * 512 = k + 1" unfolding add_mult_distrib by simp
    then show ?thesis by (simp only: be m)
  qed
  show "block_end L E m = block_end L E n \<and> m div 512 ^ L = n div 512 ^ L \<and> 512 ^ (L - 1) dvd m"
    if "\<not> (page_index L n + 1 \<ge> 512 \<or> m \<ge> E)"
  proof -
    from that have m': "m = (k + 1) * S" unfolding m by auto
    have "(k + 1) div 512 = k div 512" using that ix by (simp add: div_Suc mod_Suc)
    then have "m div 512 ^ L = k div 512" unfolding m' S(2) using S(1) by (simp add: div_mult2_eq)
    then show ?thesis using kd m' by (simp add: block_end_def S_def)
  qed
qed

lemma loop_spec_from_body:
  assumes body: "\<And>n. vp \<le> n \<Longrightarrow> n < E \<Longrightarrow> body_spec root phys attr vp ve E L n"
    and L: "1 \<le> L" "L \<le> 4" and E: "E \<le> 2 ^ 36" and ve: "end_page ve E"
  shows "vp \<le> n \<Longrightarrow> n < E \<Longrightarrow> loop_spec root phys attr vp ve E L n"
proof (induction "E - n" arbitrary: n rule: less_induct)
  case less
  note n = less.prems
  let ?m = "block_end (L - 1) E n" let ?e = "block_end L E n"
  have m: "n < ?m" "?m \<le> E" using block_end_bounds [OF n(2)] by simp_all
  have e: "?e \<le> E" using block_end_bounds [OF n(2)] by simp
  have ix: "calc_index L (page_addr n) = page_index L n" using L n E by (intro calc_index_page) simp_all
  have stop: "ve \<le> page_addr ?m \<longleftrightarrow> E \<le> ?m" using E m ve by (intro end_page_le) simp_all
  note step = block_end_step [OF L(1) n(2)]
  show ?case unfolding loop_spec_def
  proof (intro allI impI, elim conjE)
    fix a st
    assume inv: "pt_inv root st" and a: "walk (pt_tables st) root (page_path L n) = Some a"
      and mem: "can_alloc (pt_heap st) (tables_spanned L n ?e)"
    obtain t where t: "pt_tables st a = Some t" using walk_dom [OF a] by blast
    let ?done = "page_index L n + 1 \<ge> 512 \<or> ?m \<ge> E"
    have me: "?m \<le> ?e" using step block_end_bounds [of ?m E L] by (cases ?done) (auto simp: not_le)
    have split: "tables_spanned L n ?e = tables_spanned L n ?m + (if ?done then 0 else tables_spanned L ?m ?e)"
      using step tables_spanned_split [of L ?m n ?e] m me by (cases ?done) auto
    have "can_alloc (pt_heap st) (tables_spanned L n ?m)" using mem unfolding split by (rule can_alloc_mono) simp
    with body [OF n] inv a t obtain st1 where
      b: "map_body (page_addr vp) ve phys attr L a t (page_addr n) st = Some (Ok (page_addr ?m), st1)"
      and maps: "maps_range root phys attr vp n ?m st st1" and use: "uses_tables (tables_spanned L n ?m) st st1"
      unfolding body_spec_def by blast
    note unf = map_loop_unfold [OF t b, unfolded ix stop]
    show "\<exists>st'. map_loop (page_addr vp) ve phys attr L a (page_addr n) st = Some (Ok (page_addr ?e), st') \<and>
       maps_range root phys attr vp n ?e st st' \<and> uses_tables (tables_spanned L n ?e) st st'"
    proof (cases ?done)
      case True
      with step(1) maps use unf show ?thesis by auto
    next
      case False
      with step(2) have s: "block_end L E ?m = ?e" "?m div 512 ^ L = n div 512 ^ L" by blast+
      from maps have "extends root st st1" by (simp add: maps_range_def)
      then have "pt_inv root st1" "walk (pt_tables st1) root (page_path L n) = Some a"
        using extends_walk [OF _ _ a] L by (simp_all add: extends_def length_page_path)
      moreover have "page_path L ?m = page_path L n" using s(2) L(1) by (rule page_path_cong)
      moreover have "can_alloc (pt_heap st1) (tables_spanned L ?m ?e)"
        using uses_tablesD [OF use] mem split False by simp
      moreover have "loop_spec root phys attr vp ve E L ?m" using less.hyps [of ?m] m n False by simp
      ultimately obtain st2 where
        "map_loop (page_addr vp) ve phys attr L a (page_addr ?m) st1 = Some (Ok (page_addr ?e), st2)"
        "maps_range root phys attr vp ?m ?e st1 st2" "uses_tables (tables_spanned L ?m ?e) st1 st2"
        unfolding loop_spec_def s(1) by auto
      with unf False maps_range_trans [OF maps _ _ me] m uses_tables_trans [OF use] split show ?thesis by auto
    qed
  qed
qed

lemma create_mapping_loops:
  assumes "E \<le> 2 ^ 36" "end_page ve E" "phys AND ATTR_MASK = 0" "unat phys + E * 4096 \<le> 2 ^ 64"
  shows "1 \<le> L \<Longrightarrow> L \<le> 4 \<Longrightarrow> vp \<le> n \<Longrightarrow> n < E \<Longrightarrow> loop_spec root phys attr vp ve E L n"
proof (induction L arbitrary: n rule: nat_less_induct)
  case (1 L)
  have "body_spec root phys attr vp ve E L n" if "vp \<le> n" "n < E" for n
  proof (cases "L = 1")
    case True
    with that assms show ?thesis by (simp add: body_spec_leaf del: One_nat_def)
  next
    case False
    with "1.prems" have L: "2 \<le> L" "L \<le> 4" by simp_all
    then have "loop_spec root phys attr vp ve E (L - 1) n" using 1 that by simp
    with L that(2) assms(1) show ?thesis by (intro body_spec_child)
  qed
  from loop_spec_from_body [OF this] "1.prems" assms(1,2) show ?case by blast
qed

lemma block_end_top: "n < E \<Longrightarrow> E \<le> 2 ^ 36 \<Longrightarrow> block_end 4 E n = E"
  by (simp add: block_end_def)

lemma create_mapping_correct:
  assumes inv: "pt_inv root st" and vp: "vp < E" "E \<le> 2 ^ 36" "end_page ve E"
    and phys: "phys AND ATTR_MASK = 0" "unat phys + E * 4096 \<le> 2 ^ 64"
    and mem: "can_alloc (pt_heap st) (tables_spanned 4 vp E)"
  shows "\<exists>st'. create_mapping root (page_addr vp) ve phys attr st = Some (Ok (), st') \<and>
    maps_range root phys attr vp vp E st st' \<and> uses_tables (tables_spanned 4 vp E) st st'"
proof -
  have "loop_spec root phys attr vp ve E 4 vp"
    using create_mapping_loops [OF vp(2,3) phys, of 4 vp vp] vp(1) by simp
  moreover have "walk (pt_tables st) root (page_path 4 vp) = Some root"
    using inv by (simp add: pt_inv_def wf_tables_def page_path_def walk_Nil_dom)
  ultimately obtain st' where "map_loop (page_addr vp) ve phys attr 4 root (page_addr vp) st = Some (Ok (page_addr E), st')"
    "maps_range root phys attr vp vp E st st'" "uses_tables (tables_spanned 4 vp E) st st'"
    using inv mem block_end_top [OF vp(1,2)] unfolding loop_spec_def by auto
  then show ?thesis by (simp add: create_mapping_def del: of_nat_mult)
qed

text \<open>A new root: an empty table that maps nothing.\<close>

lemma PML4_new_empty:
  assumes "pt_tables st = Map.empty" and "heap_inv (pt_heap st)" and "can_alloc (pt_heap st) (Suc k)"
  shows "\<exists>root st'. PML4_new st = Some (Ok root, st') \<and> pt_inv root st' \<and> (\<forall>m. pte (pt_tables st') root m = 0) \<and>
    can_alloc (pt_heap st') k"
proof -
  have tl: "tables_live st" using assms(1,2) by (simp add: tables_live_def)
  have "can_alloc (pt_heap st) (Suc 0)" using assms(3) by (rule can_alloc_mono) simp
  from box_new_table_fresh [OF tl this] takes_pages_can_alloc [of 1 "pt_heap st" _ k] assms(3) obtain b h' where
    b: "box_new_table st = Some (Ok b, st\<lparr>pt_heap := h', pt_tables := table_add Map.empty b\<rparr>)"
    and h: "heap_inv h'" "\<exists>m > 0. (unat b, m) \<in> live h'" "can_alloc h' k"
    unfolding assms(1) by (auto simp del: can_alloc.simps takes_pages.simps)
  let ?ts = "table_add Map.empty b"
  have tb: "?ts b = Some zero_table" by (simp add: table_add_def)
  have walk: "walk ?ts b q = (if q = [] then Some b else None)" for q
    using next_level_zero [of ?ts b, OF tb] by (cases q) (simp_all add: walk_Nil_dom)
  have wf: "wf_tables ?ts b" by (rule wf_tablesI) (auto simp: walk next_level_zero [of ?ts b, OF tb] split: if_splits)
  have "pte ?ts b m = 0" for m by (simp add: pte_def walk page_path_def del: walk.simps)
  with b h wf show ?thesis by (auto simp: PML4_new_def pt_inv_def tables_live_def)
qed

text \<open>A free block at the front of the list serves a page for every 8224 bytes.\<close>

lemma request_page: "request PAGE_SIZE PAGE_SIZE = Some (4096, 4096)"
  by (simp add: PAGE_SIZE_def request_def round_up_eq bit_length.simps HEADER_SIZE_def)

lemma can_alloc_front:
  assumes "represents h ((a, s, False) # bs)" and "k * 8224 + 32 \<le> s"
  shows "can_alloc h k"
  using assms
proof (induction k arbitrary: h s bs)
  case (Suc k)
  define p where "p = (a + s - 4096) div 4096 * 4096"
  have p: "a + s - 8192 < p" "p \<le> a + s - 4096"
    using Suc.prems(2) dividend_less_div_times [of 4096 "a + s - 4096"] by (simp_all add: p_def)
  obtain bs' where "spec_alloc PAGE_SIZE PAGE_SIZE ((a, s, False) # bs) = Some (p, (a, p - 32 - a, False) # bs')"
    using Suc.prems(2) by (simp add: spec_alloc_def request_page carve_def p_def Let_def)
  with alloc_refines [OF Suc.prems(1) layout_page] obtain h' where
    h': "alloc_with_options h PAGE_SIZE PAGE_SIZE = Some (Ok (p, h'))" "represents h' ((a, p - 32 - a, False) # bs')" by auto
  have "k * 8224 + 32 \<le> p - 32 - a" "p \<noteq> 0" using p Suc.prems(2) by simp_all
  with Suc.IH [OF h'(2)] h'(1) show ?case by simp
qed simp

section \<open>Properties\<close>

text \<open>
  C1. On well-formed page tables, for a page-aligned start, an end above it within the 48-bit
  address space and an aligned physical start whose range does not overflow, with memory for
  the tables the range spans, \<open>create_mapping\<close> returns \<open>Ok\<close>: afterwards the page walk of
  every page that overlaps the range ends in the physical page at the same offset with the
  attributes asked for, the walk of every other page ends where it ended before, and the
  tables are well-formed again.
\<close>

theorem create_mapping_maps:
  assumes "pt_inv root st" and "vp * 4096 < unat ve" and "unat ve \<le> 2 ^ 48"
    and "phys AND ATTR_MASK = 0" and "unat phys + unat ve + 4095 \<le> 2 ^ 64"
    and "can_alloc (pt_heap st) (tables_spanned 4 vp ((unat ve + 4095) div 4096))"
  shows "\<exists>st'. create_mapping root (of_nat (vp * 4096)) ve phys attr st = Some (Ok (), st') \<and> pt_inv root st' \<and>
    (\<forall>m < 2 ^ 36. pte (pt_tables st') root m =
       (if vp \<le> m \<and> m * 4096 < unat ve then (phys + of_nat ((m - vp) * 4096)) OR attr_bits attr
        else pte (pt_tables st) root m))"
proof -
  define E where "E = (unat ve + 4095) div 4096"
  have E: "E * 4096 \<le> unat ve + 4095" "unat ve + 4095 < E * 4096 + 4096"
    using dividend_less_div_times [of 4096 "unat ve + 4095"] by (simp_all add: E_def)
  then have "end_page ve E" "vp < E" "E \<le> 2 ^ 36" "unat phys + E * 4096 \<le> 2 ^ 64"
    using assms(2,3,5) by (simp_all add: end_page_def)
  from create_mapping_correct [OF assms(1) this(2,3,1) assms(4) this(4) assms(6) [folded E_def], of attr]
  obtain st' where st': "create_mapping root (page_addr vp) ve phys attr st = Some (Ok (), st')"
    "maps_range root phys attr vp vp E st st'" by blast
  moreover have "m < E \<longleftrightarrow> m * 4096 < unat ve" for m using E by linarith
  ultimately show ?thesis by (auto simp: maps_range_def extends_def page_entry_def simp del: of_nat_mult)
qed

text \<open>A root table in a live page, and room for the tables below it.\<close>

definition example_tables :: PageTables where
  "example_tables = \<lparr>pt_tables = [0x200000 \<mapsto> zero_table],
     pt_heap = \<lparr>first_header = Some 0x100000,
       heap_mem = [0x100000 \<mapsto> new_header\<lparr>hdr_size := 0x40000, next_header := Some 0x1FFFE0\<rparr>,
                   0x1FFFE0 \<mapsto> new_header\<lparr>hdr_size := 0x1020, is_allocated := True\<rparr>]\<rparr>\<rparr>"

lemma example_tables_represents:
  "represents (pt_heap example_tables) [(0x100000, 0x40000, False), (0x1FFFE0, 0x1020, True)]"
  by (simp add: represents_def example_tables_def new_header_def)

lemma single_table_inv:
  assumes "pt_tables st = [b \<mapsto> zero_table]" and "heap_inv (pt_heap st)" and "(unat b, m) \<in> live (pt_heap st)" and "0 < m"
  shows "pt_inv b st"
proof -
  let ?ts = "pt_tables st"
  have t: "?ts b = Some zero_table" "dom ?ts = {b}" by (simp_all add: assms(1))
  have walk: "walk ?ts b q = (if q = [] then Some b else None)" for q
    using next_level_zero [of ?ts b, OF t(1)] t(2) by (cases q) (simp_all add: walk_Nil_dom)
  have "wf_tables ?ts b"
    by (rule wf_tablesI) (auto simp: walk t(2) next_level_zero [of ?ts b, OF t(1)] split: if_splits)
  then show ?thesis using assms(2-4) by (auto simp: pt_inv_def tables_live_def t(2))
qed

lemma example_tables_inv: "pt_inv 0x200000 example_tables"
proof (rule single_table_inv)
  show "heap_inv (pt_heap example_tables)" using example_tables_represents by (auto simp: heap_inv_def)
  show "(unat (0x200000 :: u64), 0x1000) \<in> live (pt_heap example_tables)"
    by (simp add: live_eq [OF example_tables_represents])
qed (simp_all add: example_tables_def)

theorem create_mapping_maps_witness:
  "\<exists>st'. create_mapping 0x200000 0x400000 0x401800 0xFEC00000 ReadWriteIo example_tables = Some (Ok (), st') \<and>
     pte (pt_tables st') 0x200000 0x401 = 0xFEC0101B \<and> pte (pt_tables st') 0x200000 0x402 = 0"
proof -
  have "can_alloc (pt_heap example_tables) (tables_spanned 4 0x400 ((unat (0x401800 :: u64) + 4095) div 4096))"
    by (rule can_alloc_front [OF example_tables_represents]) (simp add: tables_spanned_def upt_rec)
  from create_mapping_maps [OF example_tables_inv _ _ _ _ this, of "0xFEC00000" ReadWriteIo]
  obtain st' where st': "create_mapping 0x200000 0x400000 0x401800 0xFEC00000 ReadWriteIo example_tables = Some (Ok (), st')"
    and p: "\<forall>m < 2 ^ 36. pte (pt_tables st') 0x200000 m =
       (if 0x400 \<le> m \<and> m * 4096 < unat (0x401800 :: u64) then (0xFEC00000 + of_nat ((m - 0x400) * 4096)) OR attr_bits ReadWriteIo
        else pte (pt_tables example_tables) 0x200000 m)" by (auto simp: ATTR_MASK_def)
  have z: "pte (pt_tables example_tables) 0x200000 0x402 = 0"
    by (simp add: pte_def page_path_def page_index_def example_tables_def next_level_def zero_table_def entry_table_def is_present_def)
  have "pte (pt_tables st') 0x200000 0x401 = 0xFEC0101B"
    using p [rule_format, of "0x401"] by (simp add: ATTR_PRESENT_def ATTR_WRITABLE_def ATTR_WRITE_THROUGH_def ATTR_CACHE_DISABLE_def)
  moreover have "pte (pt_tables st') 0x200000 0x402 = 0" using p [rule_format, of "0x402"] z by simp
  ultimately show ?thesis using st' by blast
qed

end
