(* ===== verification/Mmio.thy ===== *)
theory Mmio
  imports Paging
begin

text \<open>
  The address space the kernel runs in: the register CR3 and the tables behind it, the
  identity mapping that \<open>init_pading\<close> of \<open>init.rs\<close> builds, \<open>with_current_page_table\<close> and
  \<open>disable_cache\<close> of \<open>x86.rs\<close>, and \<open>IoBox::new\<close> of \<open>mmio.rs\<close>, which hands a zeroed, uncached
  object to a device.
\<close>

record AddressSpace =
  cr3 :: u64
  space :: PageTables

definition read_cr3 :: "AddressSpace \<Rightarrow> u64" where
  "read_cr3 s = cr3 s"

definition write_cr3 :: "u64 \<Rightarrow> AddressSpace \<Rightarrow> AddressSpace" where
  "write_cr3 table s = s\<lparr>cr3 := table\<rparr>"

definition flush_tlb :: "AddressSpace \<Rightarrow> AddressSpace" where
  "flush_tlb s = write_cr3 (read_cr3 s) s"

text \<open>An operation on the tables, run in the address space.\<close>

definition on_tables :: "(PageTables \<Rightarrow> ('a result \<times> PageTables) option) \<Rightarrow> AddressSpace \<Rightarrow> ('a result \<times> AddressSpace) option" where
  "on_tables f s = map_option (\<lambda>(r, t). (r, s\<lparr>space := t\<rparr>)) (f (space s))"

text \<open>
  \<open>take_current_page_table\<close>, the callback, \<open>put_current_page_table\<close>; a panic of the callback
  leaves CR3 as it is.
\<close>

definition with_current_page_table ::
  "(u64 \<Rightarrow> PageTables \<Rightarrow> (unit result \<times> PageTables) option) \<Rightarrow> AddressSpace \<Rightarrow> (unit result \<times> AddressSpace) option" where
  "with_current_page_table callback s =
     (let table = read_cr3 s in
      sbind (on_tables (callback table) s) (\<lambda>_ s'. Some (Ok (), write_cr3 table s')))"

text \<open>\<open>.expect(..)\<close> on the outcome of an operation.\<close>

definition expect :: "('a result \<times> 's) option \<Rightarrow> ('a result \<times> 's) option" where
  "expect m = map_option (\<lambda>(r, s). (unwrap r, s)) m"

definition disable_cache :: "u64 \<Rightarrow> usize \<Rightarrow> AddressSpace \<Rightarrow> (unit result \<times> AddressSpace) option" where
  "disable_cache vstart len s =
     (case add_word vstart (of_nat len) of
        Ok vend \<Rightarrow> with_current_page_table (\<lambda>pt t. expect (create_mapping pt vstart vend vstart ReadWriteIo t)) s
      | Err e \<Rightarrow> Some (Err e, s)
      | Panic e \<Rightarrow> Some (Panic e, s))"

text \<open>
  \<open>Box::pin\<close> of an \<open>IoBoxInner<T>\<close>, whose alignment is 4096 and whose size is that of \<open>T\<close> rounded
  up to it; a box of size 0 takes no memory. \<open>disable_cache\<close> then covers the object itself.
\<close>

definition io_box_alloc :: "usize \<Rightarrow> PageTables \<Rightarrow> (u64 result \<times> PageTables) option" where
  "io_box_alloc len t =
     (if len = 0 then Some (Ok 4096, t)
      else Option.bind (alloc_with_options (pt_heap t) ((len + 4095) div 4096 * 4096) 4096) (\<lambda>r. Some (case r of
          Ok (p, h) \<Rightarrow> if p = 0 then (Panic ''memory allocation failed'', t) else (Ok (of_nat p), t\<lparr>pt_heap := h\<rparr>)
        | Err e \<Rightarrow> (Err e, t)
        | Panic e \<Rightarrow> (Panic e, t))))"

definition IoBox_new :: "usize \<Rightarrow> AddressSpace \<Rightarrow> (u64 result \<times> AddressSpace) option" where
  "IoBox_new len s =
     sbind (on_tables (io_box_alloc len) s) (\<lambda>inner s1.
     sbind (disable_cache inner len s1) (\<lambda>_ s2. Some (Ok inner, s2)))"

section \<open>The initial mapping\<close>

definition counts_as_memory :: "EfiMemoryType \<Rightarrow> bool" where
  "counts_as_memory ty \<longleftrightarrow> ty = CONVENTIONAL_MEMORY \<or> ty = LOADER_CODE \<or> ty = LOADER_DATA"

fun end_of_mem :: "u64 \<Rightarrow> EfiMemoryDescriptor list \<Rightarrow> u64 result" where
  "end_of_mem acc [] = Ok acc"
| "end_of_mem acc (e # es) =
     (if counts_as_memory (memory_type e)
      then rbind (mul_word (number_of_pages e) (of_nat PAGE_SIZE)) (\<lambda>len.
           rbind (add_word (physical_start e) len) (\<lambda>x. end_of_mem (max acc x) es))
      else end_of_mem acc es)"

definition init_pading :: "MemoryMapHolder \<Rightarrow> AddressSpace \<Rightarrow> (unit result \<times> AddressSpace) option" where
  "init_pading memory_map s =
     sbind (on_tables PML4_new s) (\<lambda>table s1.
     sbind (map_option (\<lambda>r. (rbind r (end_of_mem 0x100000000), s1)) (memory_map_iter memory_map)) (\<lambda>e s1.
     sbind (expect (on_tables (create_mapping table 0 e 0 ReadWriteKernel) s1)) (\<lambda>_ s2.
     sbind (expect (on_tables (create_mapping table 0 4096 0 NotPresent) s2)) (\<lambda>_ s3.
     Some (Ok (), write_cr3 table s3)))))"

lemma end_of_mem_bounds:
  "end_of_mem acc ds = Ok e \<Longrightarrow> acc \<le> e \<and>
   (\<forall>d \<in> set ds. counts_as_memory (memory_type d) \<longrightarrow> unat (physical_start d) + unat (number_of_pages d) * 4096 \<le> unat e)"
proof (induction ds arbitrary: acc)
  case (Cons d ds)
  show ?case
  proof (cases "counts_as_memory (memory_type d)")
    case True
    let ?len = "number_of_pages d * 4096"
    from Cons.prems True have no: "unat (number_of_pages d) * 4096 < 2 ^ 64" "unat (physical_start d) + unat ?len < 2 ^ 64"
      and rest: "end_of_mem (max acc (physical_start d + ?len)) ds = Ok e"
      by (auto simp: checked_defs PAGE_SIZE_def split: if_splits)
    have "unat ?len = unat (number_of_pages d) * 4096" using no(1) by (simp add: unat_word_ariths)
    moreover have "unat (physical_start d + ?len) = unat (physical_start d) + unat ?len" using no(2) by (simp add: unat_word_ariths)
    moreover have "acc \<le> e" "physical_start d + ?len \<le> e" using Cons.IH [OF rest] by simp_all
    ultimately show ?thesis using Cons.IH [OF rest] by (auto simp: word_le_nat_alt)
  next
    case False
    with Cons show ?thesis by simp
  qed
qed simp

section \<open>Properties\<close>

lemma on_tables_Ok: "f (space s) = Some (Ok x, t) \<Longrightarrow> on_tables f s = Some (Ok x, s\<lparr>space := t\<rparr>)"
  by (simp add: on_tables_def)

lemma expect_Ok: "m = Some (Ok x, s) \<Longrightarrow> expect m = Some (Ok x, s)"
  by (simp add: expect_def)

lemma maps_range_pte:
  "maps_range root phys attr vp n n' st st' \<Longrightarrow> m < 2 ^ 36 \<Longrightarrow>
   pte (pt_tables st') root m = (if n \<le> m \<and> m < n' then page_entry phys attr vp m else pte (pt_tables st) root m)"
  by (simp add: maps_range_def)

lemma maps_range_inv: "maps_range root phys attr vp n n' st st' \<Longrightarrow> pt_inv root st'"
  by (simp add: maps_range_def extends_def)

text \<open>
  C16. With memory for the tables, \<open>init_pading\<close> returns and switches to tables in which page 0
  is not present, every other page up to the end of memory is mapped to itself, writable
  and for the kernel only, and no page above it is present. The end of memory is at
  least 4 GiB and not below the end of any conventional or loader region of the map.
\<close>

theorem init_pading_identity:
  assumes "memory_map_iter memory_map = Some (Ok ds)" and e: "end_of_mem 0x100000000 ds = Ok e" "unat e \<le> 2 ^ 48"
    and "pt_tables (space s) = Map.empty" and "heap_inv (pt_heap (space s))"
    and mem: "can_alloc (pt_heap (space s)) (tables_spanned 4 0 ((unat e + 4095) div 4096) + 4)"
  shows "\<exists>s'. init_pading memory_map s = Some (Ok (), s') \<and> pt_inv (cr3 s') (space s') \<and>
    (\<forall>n < 2 ^ 36. pte (pt_tables (space s')) (cr3 s') n =
       (if n \<noteq> 0 \<and> n * 4096 < unat e then of_nat (n * 4096) OR attr_bits ReadWriteKernel else 0)) \<and>
    0x100000000 \<le> e \<and>
    (\<forall>d \<in> set ds. counts_as_memory (memory_type d) \<longrightarrow> unat (physical_start d) + unat (number_of_pages d) * 4096 \<le> unat e)"
proof -
  define E where "E = (unat e + 4095) div 4096"
  note bounds = end_of_mem_bounds [OF e(1)]
  have pos: "0 < unat e" using bounds by (simp add: word_le_nat_alt)
  have E: "E * 4096 \<le> unat e + 4095" "unat e + 4095 < E * 4096 + 4096"
    using dividend_less_div_times [of 4096 "unat e + 4095"] by (simp_all add: E_def)
  then have ends: "end_page e E" "0 < E" "E \<le> 2 ^ 36" "unat (0 :: u64) + E * 4096 \<le> 2 ^ 64"
    using e(2) pos by (simp_all add: end_page_def)
  have "can_alloc (pt_heap (space s)) (Suc (tables_spanned 4 0 E + 3))"
    using mem unfolding E_def by (rule can_alloc_mono) simp
  from PML4_new_empty [OF assms(4,5) this] obtain root t1 where
    t1: "PML4_new (space s) = Some (Ok root, t1)" "pt_inv root t1" "\<forall>m. pte (pt_tables t1) root m = 0"
    "can_alloc (pt_heap t1) (tables_spanned 4 0 E + 3)" by blast
  have "can_alloc (pt_heap t1) (tables_spanned 4 0 E)" using t1(4) by (rule can_alloc_mono) simp
  from create_mapping_correct [OF t1(2) ends(2,3,1) _ ends(4) this, of ReadWriteKernel] obtain t2 where
    t2: "create_mapping root 0 e 0 ReadWriteKernel t1 = Some (Ok (), t2)" "maps_range root 0 ReadWriteKernel 0 0 E t1 t2"
    "uses_tables (tables_spanned 4 0 E) t1 t2" by auto
  have "can_alloc (pt_heap t2) (tables_spanned 4 0 1)"
    using uses_tablesD [OF t2(3) t1(4)] by (rule can_alloc_mono) (simp add: tables_spanned_def upt_rec)
  from create_mapping_correct [OF maps_range_inv [OF t2(2)] _ _ _ _ _ this, of 4096 0 NotPresent] obtain t3 where
    t3: "create_mapping root 0 4096 0 NotPresent t2 = Some (Ok (), t3)" "maps_range root 0 NotPresent 0 0 1 t2 t3"
    by (auto simp: end_page_def)
  have "init_pading memory_map s = Some (Ok (), s\<lparr>cr3 := root, space := t3\<rparr>)"
    using t1(1) t2(1) t3(1) assms(1) e(1)
    by (simp add: init_pading_def on_tables_Ok expect_Ok write_cr3_def del: rbind_eq_Ok)
  moreover have "pte (pt_tables t3) root n =
      (if n \<noteq> 0 \<and> n * 4096 < unat e then of_nat (n * 4096) OR attr_bits ReadWriteKernel else 0)" if "n < 2 ^ 36" for n
  proof -
    have "n < E \<longleftrightarrow> n * 4096 < unat e" using E by linarith
    then show ?thesis using maps_range_pte [OF t3(2) that] maps_range_pte [OF t2(2) that] t1(3)
      by (auto simp: page_entry_def)
  qed
  ultimately show ?thesis using maps_range_inv [OF t3(2)] bounds by auto
qed

definition example_space :: AddressSpace where
  "example_space = \<lparr>cr3 = 0, space = \<lparr>pt_tables = Map.empty,
     pt_heap = \<lparr>first_header = Some 0x1000000,
       heap_mem = [0x1000000 \<mapsto> new_header\<lparr>hdr_size := 0x4000000\<rparr>]\<rparr>\<rparr>\<rparr>"

lemma example_space_represents: "represents (pt_heap (space example_space)) [(0x1000000, 0x4000000, False)]"
  by (simp add: represents_def example_space_def new_header_def)

theorem init_pading_identity_witness:
  "\<exists>s'. init_pading one_entry_map example_space = Some (Ok (), s') \<and>
     pte (pt_tables (space s')) (cr3 s') 0 = 0 \<and> pte (pt_tables (space s')) (cr3 s') 0xFFFFF = 0xFFFFF003 \<and>
     pte (pt_tables (space s')) (cr3 s') 0x100000 = 0"
proof -
  have e: "end_of_mem 0x100000000 [example_descriptor] = Ok 0x100000000"
    by (simp add: example_descriptor_def counts_as_memory_def checked_defs PAGE_SIZE_def)
  have mem: "can_alloc (pt_heap (space example_space)) (tables_spanned 4 0 ((unat (0x100000000 :: u64) + 4095) div 4096) + 4)"
    by (rule can_alloc_front [OF example_space_represents]) (simp add: tables_spanned_def upt_rec)
  have "heap_inv (pt_heap (space example_space))" using example_space_represents by (auto simp: heap_inv_def)
  from init_pading_identity [OF one_entry_map_iter e _ _ this mem]
  obtain s' where "init_pading one_entry_map example_space = Some (Ok (), s')"
    and p: "\<forall>n < 2 ^ 36. pte (pt_tables (space s')) (cr3 s') n =
       (if n \<noteq> 0 \<and> n * 4096 < unat (0x100000000 :: u64) then of_nat (n * 4096) OR attr_bits ReadWriteKernel else 0)"
    by (auto simp: example_space_def)
  with p [rule_format, of 0] p [rule_format, of "0xFFFFF"] p [rule_format, of "0x100000"] show ?thesis
    by (simp add: ATTR_PRESENT_def ATTR_WRITABLE_def)
qed

text \<open>The device object of \<open>IoBox::new\<close>, and the tables that its mapping takes from the heap.\<close>

lemma IoBox_new_correct:
  assumes inv: "pt_inv (cr3 s) (space s)" and len: "0 < len" "len \<le> 2 ^ 62"
    and al: "alloc_with_options (pt_heap (space s)) ((len + 4095) div 4096 * 4096) 4096 = Some (Ok (p, h))" "p \<noteq> 0"
    and p: "p + len \<le> 2 ^ 48"
    and mem: "can_alloc h (tables_spanned 4 (p div 4096) ((p + len + 4095) div 4096))"
  shows "\<exists>s'. IoBox_new len s = Some (Ok (of_nat p), s') \<and> 4096 dvd p \<and> cr3 s' = cr3 s \<and> pt_inv (cr3 s') (space s') \<and>
    (\<forall>r \<in> live (pt_heap (space s)). regions_apart (p, len) r) \<and>
    (\<forall>n < 2 ^ 36. pte (pt_tables (space s')) (cr3 s') n =
       (if p div 4096 \<le> n \<and> n * 4096 < p + len then of_nat (n * 4096) OR attr_bits ReadWriteIo
        else pte (pt_tables (space s)) (cr3 s) n)) \<and>
    (\<exists>k \<le> tables_spanned 4 (p div 4096) ((p + len + 4095) div 4096). takes_pages k h (pt_heap (space s')))"
proof -
  let ?t = "space s" let ?sz = "(len + 4095) div 4096 * 4096" let ?t1 = "?t\<lparr>pt_heap := h\<rparr>"
  have sz: "len \<le> ?sz" "?sz \<le> len + 4095" using dividend_less_div_times [of 4096 "len + 4095"] by simp_all
  have lay: "layout_ok ?sz 4096" using sz(2) len(2) by (intro layout_ok_pow [of _ 12]) simp_all
  from inv have hi: "heap_inv (pt_heap ?t)" by (simp add: pt_inv_def tables_live_def)
  from first_fit_heap.alloc_fresh [OF hi lay al] obtain n where
    n: "heap_inv h" "4096 dvd p" "?sz \<le> n" "live h = insert (p, n) (live (pt_heap ?t))"
    and apart: "\<forall>r \<in> live (pt_heap ?t). regions_apart (p, n) r" by blast
  obtain vp where vp: "p = vp * 4096" using n(2) by (auto elim!: dvdE simp: mult.commute)
  define ve :: u64 where "ve = of_nat (p + len)"
  define E where "E = (p + len + 4095) div 4096"
  have up: "unat (of_nat p :: u64) = p" "unat (of_nat len :: u64) = len" "unat ve = p + len"
    using p by (simp_all add: ve_def unat_of_nat del: of_nat_add)
  have E: "E * 4096 \<le> p + len + 4095" "p + len + 4095 < E * 4096 + 4096"
    using dividend_less_div_times [of 4096 "p + len + 4095"] by (simp_all add: E_def)
  then have ends: "end_page ve E" "vp < E" "E \<le> 2 ^ 36" "unat (of_nat p :: u64) + E * 4096 \<le> 2 ^ 64"
    using len p vp up by (simp_all add: end_page_def)
  have inv1: "pt_inv (cr3 s) ?t1" using inv n(1,4) by (auto simp: pt_inv_def tables_live_def)
  have mem1: "can_alloc (pt_heap ?t1) (tables_spanned 4 vp E)" using mem by (simp add: E_def vp)
  from create_mapping_correct [OF inv1 ends(2,3,1) aligned_word [OF n(2)] ends(4) mem1, of ReadWriteIo] obtain t2 where
    t2: "create_mapping (cr3 s) (of_nat p) ve (of_nat p) ReadWriteIo ?t1 = Some (Ok (), t2)"
    "maps_range (cr3 s) (of_nat p) ReadWriteIo vp vp E ?t1 t2" "uses_tables (tables_spanned 4 vp E) ?t1 t2" by (auto simp: vp)
  have box: "io_box_alloc len ?t = Some (Ok (of_nat p), ?t1)" using len(1) al by (simp add: io_box_alloc_def)
  have "add_word (of_nat p) (of_nat len) = (Ok ve :: u64 result)" using up p by (simp add: add_word_def ve_def)
  then have dis: "disable_cache (of_nat p) len (s\<lparr>space := ?t1\<rparr>) = Some (Ok (), s\<lparr>space := t2\<rparr>)"
    using t2(1) by (simp add: disable_cache_def with_current_page_table_def read_cr3_def write_cr3_def on_tables_def expect_def)
  have "IoBox_new len s = Some (Ok (of_nat p), s\<lparr>space := t2\<rparr>)"
    using dis by (simp add: IoBox_new_def on_tables_Ok [of "io_box_alloc len" s, OF box])
  moreover have "pte (pt_tables t2) (cr3 s) n =
       (if p div 4096 \<le> n \<and> n * 4096 < p + len then of_nat (n * 4096) OR attr_bits ReadWriteIo
        else pte (pt_tables ?t) (cr3 s) n)" if "n < 2 ^ 36" for n
  proof -
    have "n < E \<longleftrightarrow> n * 4096 < p + len" using E by linarith
    moreover have "(of_nat p :: u64) + of_nat ((n - vp) * 4096) = of_nat (n * 4096)" if "vp \<le> n"
      using that by (simp add: vp of_nat_diff algebra_simps)
    ultimately show ?thesis using maps_range_pte [OF t2(2) that] by (simp add: page_entry_def vp del: of_nat_mult)
  qed
  moreover have "\<forall>r \<in> live (pt_heap ?t). regions_apart (p, len) r" using apart n(3) sz(1) by (force simp: regions_apart_def)
  moreover have "\<exists>k \<le> tables_spanned 4 (p div 4096) ((p + len + 4095) div 4096). takes_pages k h (pt_heap t2)"
    using t2(3) by (simp add: uses_tables_def E_def vp)
  ultimately show ?thesis using maps_range_inv [OF t2(2)] n(2) by auto
qed

text \<open>
  C17. \<open>IoBox::new\<close> for an object of \<open>len\<close> bytes, with memory for it below the 48-bit boundary
  and for the tables, returns a page-aligned address of a region that was not live before:
  every page of the object is mapped to itself, present, writable, write-through and
  uncached, every other page is mapped as before, and CR3 stays.
\<close>

theorem IoBox_new_uncached:
  assumes inv: "pt_inv (cr3 s) (space s)" and len: "0 < len" "len \<le> 2 ^ 62"
    and al: "alloc_with_options (pt_heap (space s)) ((len + 4095) div 4096 * 4096) 4096 = Some (Ok (p, h))" "p \<noteq> 0"
    and p: "p + len \<le> 2 ^ 48"
    and mem: "can_alloc h (tables_spanned 4 (p div 4096) ((p + len + 4095) div 4096))"
  shows "\<exists>s'. IoBox_new len s = Some (Ok (of_nat p), s') \<and> 4096 dvd p \<and> cr3 s' = cr3 s \<and> pt_inv (cr3 s') (space s') \<and>
    (\<forall>r \<in> live (pt_heap (space s)). regions_apart (p, len) r) \<and>
    (\<forall>n < 2 ^ 36. pte (pt_tables (space s')) (cr3 s') n =
       (if p div 4096 \<le> n \<and> n * 4096 < p + len then of_nat (n * 4096) OR attr_bits ReadWriteIo
        else pte (pt_tables (space s)) (cr3 s) n))"
  using IoBox_new_correct [OF assms] by blast

theorem IoBox_new_uncached_witness:
  "\<exists>s'. IoBox_new 100 \<lparr>cr3 = 0x200000, space = example_tables\<rparr> = Some (Ok 0x13F000, s') \<and>
     pte (pt_tables (space s')) (cr3 s') 0x13F = 0x13F01B"
proof -
  let ?s = "\<lparr>cr3 = 0x200000, space = example_tables\<rparr>"
  have spec: "spec_alloc 4096 4096 [(0x100000, 0x40000, False), (0x1FFFE0, 0x1020, True)] =
      Some (0x13F000, [(0x100000, 0x3EFE0, False), (0x13EFE0, 0x1020, True), (0x1FFFE0, 0x1020, True)])"
    using request_page by (simp add: spec_alloc_def carve_def PAGE_SIZE_def)
  from alloc_refines [OF example_tables_represents, of 4096 4096] layout_page spec obtain h where
    h: "alloc_with_options (pt_heap example_tables) 4096 4096 = Some (Ok (0x13F000, h))"
    and r: "represents h [(0x100000, 0x3EFE0, False), (0x13EFE0, 0x1020, True), (0x1FFFE0, 0x1020, True)]"
    by (auto simp: PAGE_SIZE_def)
  have "can_alloc h (tables_spanned 4 (0x13F000 div 4096) ((0x13F000 + 100 + 4095) div 4096))"
    by (rule can_alloc_front [OF r]) (simp add: tables_spanned_def upt_rec)
  from IoBox_new_uncached [of ?s 100 "0x13F000" h, OF _ _ _ _ _ _ this] example_tables_inv h
  obtain s' where "IoBox_new 100 ?s = Some (Ok 0x13F000, s')" and
    p: "\<forall>n < 2 ^ 36. pte (pt_tables (space s')) (cr3 s') n =
       (if 0x13F \<le> n \<and> n * 4096 < 0x13F064 then of_nat (n * 4096) OR attr_bits ReadWriteIo
        else pte (pt_tables example_tables) 0x200000 n)" by auto
  with p [rule_format, of "0x13F"] show ?thesis
    by (simp add: ATTR_PRESENT_def ATTR_WRITABLE_def ATTR_WRITE_THROUGH_def ATTR_CACHE_DISABLE_def)
qed

end
