(* ===== verification/Pci.thy ===== *)
theory Pci
  imports Acpi Mmio
begin

text \<open>
  \<open>pci.rs\<close>: bus/device/function identifiers, the configuration space reached through the
  memory-mapped window of the MCFG table, device probing and the sizing of BAR 0. The
  devices behind the window are not part of the repository: reads and writes of their
  registers are the fields of a \<open>ConfigAccess\<close> over an abstract hardware state \<open>'hw\<close>.
\<close>

section \<open>Bus, device, function\<close>

record VendorDeviceId =
  vendor :: u16
  device_id :: u16

definition MASK_BUS :: usize where
  [field_defs]: "MASK_BUS = 0xFF00"

definition SHIFT_BUS :: usize where
  [field_defs]: "SHIFT_BUS = 8"

definition MASK_DEVICE :: usize where
  [field_defs]: "MASK_DEVICE = 0xF8"

definition SHIFT_DEVICE :: usize where
  [field_defs]: "SHIFT_DEVICE = 3"

definition MASK_FUNCTION :: usize where
  [field_defs]: "MASK_FUNCTION = 7"

definition SHIFT_FUNCTION :: usize where
  [field_defs]: "SHIFT_FUNCTION = 0"

text \<open>A \<open>BusDeviceFunction\<close> is its 16-bit identifier.\<close>

type_synonym BusDeviceFunction = u16

definition BusDeviceFunction_new :: "usize \<Rightarrow> usize \<Rightarrow> usize \<Rightarrow> BusDeviceFunction result" where
  "BusDeviceFunction_new bus device function' =
     (if \<not> bus < 256 \<or> \<not> device < 32 \<or> \<not> function' < 8 then Err ''PCI bus device functikon out of range''
      else Ok (of_nat (push_bit SHIFT_BUS bus OR push_bit SHIFT_DEVICE device OR push_bit SHIFT_FUNCTION function')))"

definition bdf_bus :: "BusDeviceFunction \<Rightarrow> usize" where
  "bdf_bus id' = drop_bit SHIFT_BUS (unat id' AND MASK_BUS)"

definition bdf_device :: "BusDeviceFunction \<Rightarrow> usize" where
  "bdf_device id' = drop_bit SHIFT_DEVICE (unat id' AND MASK_DEVICE)"

definition bdf_function :: "BusDeviceFunction \<Rightarrow> usize" where
  "bdf_function id' = drop_bit SHIFT_FUNCTION (unat id' AND MASK_FUNCTION)"

text \<open>\<open>BusDeviceFunctionIterator::next\<close>: the next identifier and the new state.\<close>

definition bdf_iter_next :: "usize \<Rightarrow> BusDeviceFunction option \<times> usize" where
  "bdf_iter_next next_id = (if next_id > 0xFFFF then (None, next_id) else (Some (of_nat next_id), next_id + 1))"

section \<open>The configuration space\<close>

record 'hw ConfigAccess =
  cfg_read16 :: "'hw \<Rightarrow> usize \<Rightarrow> u16"
  cfg_read32 :: "'hw \<Rightarrow> usize \<Rightarrow> u32"
  cfg_write32 :: "'hw \<Rightarrow> usize \<Rightarrow> u32 \<Rightarrow> 'hw"

text \<open>\<open>ConfigRegisters::read\<close> and \<open>write\<close> for an access of \<open>sz\<close> bytes: the address, or the error.\<close>

definition config_register :: "string \<Rightarrow> nat \<Rightarrow> usize \<Rightarrow> usize \<Rightarrow> usize result" where
  "config_register msg sz ecm_base byte_offset =
     (if \<not> byte_offset < 256 \<or> byte_offset mod sz \<noteq> 0 then Err msg
      else Ok (ecm_base + byte_offset div sz * sz))"

record Pci =
  ecm_start :: usize
  ecm_end :: usize

definition Pci_new :: "memory \<Rightarrow> usize \<Rightarrow> Pci result" where
  "Pci_new mem mcfg =
     rbind (mcfg_num_of_entries mem mcfg) (\<lambda>n.
       if n \<noteq> 1 then Panic ''assertion failed: mcfg.num_of_entries() == 1''
       else rbind (mcfg_entry mem mcfg 0) (\<lambda>e. rbind (unwrap (ok_or e ''out of range'')) (\<lambda>e.
         let base = unat (ecam_base_address mem e) in
         rbind (add_usize base (2 ^ 24)) (\<lambda>end'. Ok \<lparr>ecm_start = base, ecm_end = end'\<rparr>))))"

definition ecm_base :: "Pci \<Rightarrow> BusDeviceFunction \<Rightarrow> usize result" where
  "ecm_base pci id' = add_usize (ecm_start pci) (push_bit 12 (unat id'))"

definition read_register_u16 :: "'hw ConfigAccess \<Rightarrow> Pci \<Rightarrow> BusDeviceFunction \<Rightarrow> usize \<Rightarrow> 'hw \<Rightarrow> u16 result" where
  "read_register_u16 acc pci bdf ofs hw =
     rbind (ecm_base pci bdf) (\<lambda>b. rbind (config_register ''PCI config register read out of range'' 2 b ofs) (\<lambda>a.
       Ok (cfg_read16 acc hw a)))"

definition read_register_u32 :: "'hw ConfigAccess \<Rightarrow> Pci \<Rightarrow> BusDeviceFunction \<Rightarrow> usize \<Rightarrow> 'hw \<Rightarrow> u32 result" where
  "read_register_u32 acc pci bdf ofs hw =
     rbind (ecm_base pci bdf) (\<lambda>b. rbind (config_register ''PCI config register read out of range'' 4 b ofs) (\<lambda>a.
       Ok (cfg_read32 acc hw a)))"

definition write_register_u32 :: "'hw ConfigAccess \<Rightarrow> Pci \<Rightarrow> BusDeviceFunction \<Rightarrow> usize \<Rightarrow> u32 \<Rightarrow> 'hw \<Rightarrow> 'hw result" where
  "write_register_u32 acc pci bdf ofs data hw =
     rbind (ecm_base pci bdf) (\<lambda>b. rbind (config_register ''PCI config register write out of range'' 4 b ofs) (\<lambda>a.
       Ok (cfg_write32 acc hw a data)))"

definition read_register_u64 :: "'hw ConfigAccess \<Rightarrow> Pci \<Rightarrow> BusDeviceFunction \<Rightarrow> usize \<Rightarrow> 'hw \<Rightarrow> u64 result" where
  "read_register_u64 acc pci bdf ofs hw =
     rbind (read_register_u32 acc pci bdf ofs hw) (\<lambda>lo. rbind (read_register_u32 acc pci bdf (ofs + 4) hw) (\<lambda>hi.
       Ok (push_bit 32 (ucast hi) OR ucast lo)))"

definition write_register_u64 :: "'hw ConfigAccess \<Rightarrow> Pci \<Rightarrow> BusDeviceFunction \<Rightarrow> usize \<Rightarrow> u64 \<Rightarrow> 'hw \<Rightarrow> 'hw result" where
  "write_register_u64 acc pci bdf ofs data hw =
     rbind (write_register_u32 acc pci bdf ofs (ucast data) hw) (\<lambda>hw.
       write_register_u32 acc pci bdf (ofs + 4) (ucast (drop_bit 32 data)) hw)"

text \<open>\<open>.ok()?\<close> turns an error into \<open>None\<close>; a panic stays one.\<close>

definition read_vendor_id_and_device_id ::
  "'hw ConfigAccess \<Rightarrow> Pci \<Rightarrow> BusDeviceFunction \<Rightarrow> 'hw \<Rightarrow> VendorDeviceId option result" where
  "read_vendor_id_and_device_id acc pci id' hw =
     (case rbind (read_register_u16 acc pci id' 0 hw) (\<lambda>v. rbind (read_register_u16 acc pci id' 2 hw) (\<lambda>d. Ok (v, d))) of
        Err _ \<Rightarrow> Ok None
      | Panic e \<Rightarrow> Panic e
      | Ok (v, d) \<Rightarrow>
          if v = 0xFFFF \<or> d = 0xFFFF then Ok None
          else if v = 0 \<or> d = 0 then Ok None
          else Ok (Some \<lparr>vendor = v, device_id = d\<rparr>))"

definition xhci_supports :: "VendorDeviceId \<Rightarrow> bool" where
  "xhci_supports vd \<longleftrightarrow> vd \<in> set [\<lparr>vendor = 0x1B36, device_id = 0x000D\<rparr>, \<lparr>vendor = 0x8086, device_id = 0x31A8\<rparr>,
     \<lparr>vendor = 0x8086, device_id = 0x02ED\<rparr>, \<lparr>vendor = 0x8086, device_id = 0x9D2F\<rparr>]"

text \<open>
  \<open>probe_devices\<close>: the three loops in order, over a state that the configuration space is a part of.
  \<open>attach\<close> is the driver's attach function, which may not return; its error is logged and the loop goes on.
\<close>

definition probe_order :: "(usize \<times> usize \<times> usize) list" where
  "probe_order = concat (map (\<lambda>bus. concat (map (\<lambda>device. map (\<lambda>f. (bus, device, f)) [0..<8]) [0..<32])) [0..<32])"

definition probe_one ::
  "'hw ConfigAccess \<Rightarrow> ('s \<Rightarrow> 'hw) \<Rightarrow> (BusDeviceFunction \<Rightarrow> 's \<Rightarrow> (unit result \<times> 's) option) \<Rightarrow> Pci \<Rightarrow> usize \<times> usize \<times> usize \<Rightarrow> 's \<Rightarrow>
   (unit result \<times> 's) option" where
  "probe_one acc hw_of attach pci bdf s =
     (case bdf of (b, d, f) \<Rightarrow>
        (case BusDeviceFunction_new b d f of
           Err _ \<Rightarrow> Some (Ok (), s)
         | Panic e \<Rightarrow> Some (Panic e, s)
         | Ok id' \<Rightarrow>
             (case read_vendor_id_and_device_id acc pci id' (hw_of s) of
                Err e \<Rightarrow> Some (Err e, s)
              | Panic e \<Rightarrow> Some (Panic e, s)
              | Ok None \<Rightarrow> Some (Ok (), s)
              | Ok (Some vd) \<Rightarrow>
                  if xhci_supports vd
                  then map_option (\<lambda>(r, s'). (case r of Panic e \<Rightarrow> Panic e | _ \<Rightarrow> Ok (), s')) (attach id' s)
                  else Some (Ok (), s))))"

definition probe_devices ::
  "'hw ConfigAccess \<Rightarrow> ('s \<Rightarrow> 'hw) \<Rightarrow> (BusDeviceFunction \<Rightarrow> 's \<Rightarrow> (unit result \<times> 's) option) \<Rightarrow> Pci \<Rightarrow> 's \<Rightarrow> (unit result \<times> 's) option" where
  "probe_devices acc hw_of attach pci = for_each (probe_one acc hw_of attach pci) probe_order"

record BarMem64 =
  bar_addr :: u64
  bar_size :: u64

definition try_bar0_mem64 :: "'hw ConfigAccess \<Rightarrow> Pci \<Rightarrow> BusDeviceFunction \<Rightarrow> 'hw \<Rightarrow> (BarMem64 \<times> 'hw) result" where
  "try_bar0_mem64 acc pci bdf hw =
     rbind (read_register_u64 acc pci bdf 0x10 hw) (\<lambda>bar0.
       if bar0 AND 7 = 4
       then rbind (write_register_u64 acc pci bdf 0x10 (NOT 0) hw) (\<lambda>hw1.
            rbind (read_register_u64 acc pci bdf 0x10 hw1) (\<lambda>v.
            rbind (add_word 1 (NOT (v AND NOT 7))) (\<lambda>size.
            rbind (write_register_u64 acc pci bdf 0x10 bar0 hw1) (\<lambda>hw2.
              Ok (\<lparr>bar_addr = bar0 AND NOT 7, bar_size = size\<rparr>, hw2)))))
       else Err ''BAR0 is not a memory-mapped I/O region'')"

definition set_command_and_status_flags :: "'hw ConfigAccess \<Rightarrow> Pci \<Rightarrow> BusDeviceFunction \<Rightarrow> u32 \<Rightarrow> 'hw \<Rightarrow> 'hw result" where
  "set_command_and_status_flags acc pci bdf flags hw =
     rbind (read_register_u32 acc pci bdf 4 hw) (\<lambda>cmd. write_register_u32 acc pci bdf 4 (cmd OR flags) hw)"

definition enable_bus_mastering :: "'hw ConfigAccess \<Rightarrow> Pci \<Rightarrow> BusDeviceFunction \<Rightarrow> 'hw \<Rightarrow> 'hw result" where
  "enable_bus_mastering acc pci bdf = set_command_and_status_flags acc pci bdf (push_bit 2 1)"

definition disable_interrupt :: "'hw ConfigAccess \<Rightarrow> Pci \<Rightarrow> BusDeviceFunction \<Rightarrow> 'hw \<Rightarrow> 'hw result" where
  "disable_interrupt acc pci bdf = set_command_and_status_flags acc pci bdf (push_bit 10 1)"

definition disable_cach :: "BarMem64 \<Rightarrow> AddressSpace \<Rightarrow> (unit result \<times> AddressSpace) option" where
  "disable_cach bar s =
     (case add_word (bar_addr bar) (bar_size bar) of
        Ok vend \<Rightarrow> with_current_page_table (\<lambda>pt t. expect (create_mapping pt (bar_addr bar) vend (bar_addr bar) ReadWriteIo t)) s
      | Err e \<Rightarrow> Some (Err e, s)
      | Panic e \<Rightarrow> Some (Panic e, s))"

section \<open>Lemmas\<close>

lemma bdf_masks: "MASK_BUS = push_bit 8 (mask 8)" "MASK_DEVICE = push_bit 3 (mask 5)" "MASK_FUNCTION = mask 3"
  by (simp_all add: field_defs mask_eq_exp_minus_1)

lemma nat_bit_less: "(d :: nat) < 2 ^ k \<Longrightarrow> bit d n \<Longrightarrow> n < k"
  by (metis bit_take_bit_iff take_bit_nat_eq_self_iff)

lemma bdf_bits:
  "bit (bdf_bus i) n \<longleftrightarrow> n < 8 \<and> bit i (n + 8)"
  "bit (bdf_device i) n \<longleftrightarrow> n < 5 \<and> bit i (n + 3)"
  "bit (bdf_function i) n \<longleftrightarrow> n < 3 \<and> bit i n"
  unfolding bdf_bus_def bdf_device_def bdf_function_def bdf_masks
  by (auto simp: bit_simps SHIFT_BUS_def SHIFT_DEVICE_def SHIFT_FUNCTION_def add.commute)

lemma bdf_new_bits:
  assumes "BusDeviceFunction_new b d f = Ok i"
  shows "b < 256" "d < 32" "f < 8"
    "bit i n \<longleftrightarrow> n < 16 \<and> (8 \<le> n \<and> bit b (n - 8) \<or> 3 \<le> n \<and> bit d (n - 3) \<or> bit f n)"
  using assms by (auto simp: BusDeviceFunction_new_def bit_simps SHIFT_BUS_def SHIFT_DEVICE_def SHIFT_FUNCTION_def split: if_splits)

lemma u64_halves: "push_bit 32 (ucast (ucast (drop_bit 32 x) :: u32)) OR ucast (ucast x :: u32) = (x :: u64)"
  by (rule bit_word_eqI) (auto simp: bit_simps)

lemma config_register_eq: "ofs < 256 \<Longrightarrow> sz dvd ofs \<Longrightarrow> config_register msg sz b ofs = Ok (b + ofs)"
  by (simp add: config_register_def)

text \<open>
  What the PCI specification documents of a 64-bit memory BAR of \<open>2 ^ k\<close> bytes: its address bits
  are written and read back, the others are fixed.
\<close>

definition bar_reads :: "nat \<Rightarrow> u64 \<Rightarrow> u64 \<Rightarrow> u64" where
  "bar_reads k flags v = (v AND NOT (mask k)) OR flags"

definition bar_device :: "'hw ConfigAccess \<Rightarrow> usize \<Rightarrow> nat \<Rightarrow> u64 \<Rightarrow> bool" where
  "bar_device acc a k flags \<longleftrightarrow>
     (\<forall>hw v. cfg_read32 acc (cfg_write32 acc hw a v) a = ucast (bar_reads k flags (ucast v)) \<and>
        cfg_read32 acc (cfg_write32 acc hw (a + 4) v) (a + 4) = ucast (drop_bit 32 (bar_reads k flags (push_bit 32 (ucast v)))) \<and>
        cfg_read32 acc (cfg_write32 acc hw a v) (a + 4) = cfg_read32 acc hw (a + 4) \<and>
        cfg_read32 acc (cfg_write32 acc hw (a + 4) v) a = cfg_read32 acc hw a)"

text \<open>The two accesses of \<open>read_register_u64\<close> and \<open>write_register_u64\<close> at BAR 0.\<close>

lemma register_u64_eq:
  assumes "ecm_base pci bdf = Ok b"
  shows "read_register_u64 acc pci bdf 0x10 hw =
      Ok (push_bit 32 (ucast (cfg_read32 acc hw (b + 0x14))) OR ucast (cfg_read32 acc hw (b + 0x10)))"
    and "write_register_u64 acc pci bdf 0x10 v hw =
      Ok (cfg_write32 acc (cfg_write32 acc hw (b + 0x10) (ucast v)) (b + 0x14) (ucast (drop_bit 32 v)))"
  using assms by (simp_all add: read_register_u64_def write_register_u64_def read_register_u32_def write_register_u32_def
      config_register_eq)

lemma bar_write_read:
  assumes "bar_device acc (b + 0x10) k flags"
  defines "w \<equiv> \<lambda>v hw. cfg_write32 acc (cfg_write32 acc hw (b + 0x10) (ucast v)) (b + 0x14) (ucast (drop_bit 32 v))"
    and "r \<equiv> \<lambda>hw. push_bit 32 (ucast (cfg_read32 acc hw (b + 0x14))) OR ucast (cfg_read32 acc hw (b + 0x10)) :: u64"
  shows "r (w v hw) = bar_reads k flags v"
proof -
  have a: "b + 0x10 + 4 = b + 0x14" by simp
  note d = assms(1) [unfolded bar_device_def a]
  have hi: "cfg_read32 acc (w v hw) (b + 0x14) = ucast (drop_bit 32 (bar_reads k flags (push_bit 32 (ucast (ucast (drop_bit 32 v) :: u32)))))"
    and lo: "cfg_read32 acc (w v hw) (b + 0x10) = ucast (bar_reads k flags (ucast (ucast v :: u32)))"
    unfolding w_def using d by simp_all
  show ?thesis unfolding r_def hi lo
    by (rule bit_word_eqI) (auto simp: bar_reads_def bit_simps)
qed

lemma bar_bits:
  "bit (4 :: int) n \<longleftrightarrow> n = 2" "bit (7 :: int) n \<longleftrightarrow> n < 3" "bit (8 :: int) n \<longleftrightarrow> n = 3" "bit (12 :: int) n \<longleftrightarrow> n = 2 \<or> n = 3"
proof -
  have e4: "(4 :: int) = push_bit 2 1" and e7: "(7 :: int) = mask 3" and e8: "(8 :: int) = push_bit 3 1"
    and e12: "(12 :: int) = push_bit 2 (mask 2)" by (simp_all add: mask_eq_exp_minus_1)
  show "bit (4 :: int) n \<longleftrightarrow> n = 2" by (simp only: e4 bit_push_bit_iff bit_1_iff) auto
  show "bit (7 :: int) n \<longleftrightarrow> n < 3" using bit_mask_iff [where 'a = int, of 3 n] by (simp add: mask_eq_exp_minus_1)
  show "bit (8 :: int) n \<longleftrightarrow> n = 3" by (simp only: e8 bit_push_bit_iff bit_1_iff) auto
  show "bit (12 :: int) n \<longleftrightarrow> n = 2 \<or> n = 3" using bit_push_bit_iff [of 2 "mask 2 :: int" n] bit_mask_iff [where 'a = int, of 2 "n - 2"]
    by (auto simp: e12 [symmetric])
qed

lemma unat_mask_u64: "k \<le> 64 \<Longrightarrow> unat (mask k :: u64) = 2 ^ k - 1"
proof -
  assume "k \<le> 64"
  then have "(2 :: nat) ^ k \<le> 2 ^ 64" by (intro power_increasing) simp_all
  then have "2 ^ k - 1 < (2 :: nat) ^ LENGTH(64)" using zero_less_power [of "2 :: nat" k] by simp
  moreover have "(mask k :: u64) = of_nat (2 ^ k - 1)" by (simp add: mask_eq_exp_minus_1 of_nat_diff)
  ultimately show ?thesis by (simp only: unat_of_nat take_bit_nat_eq_self_iff) (simp add: take_bit_nat_eq_self)
qed

text \<open>The size computed from what a BAR reads back: short by 8 when the prefetchable bit is set.\<close>

lemma bar_size_word:
  assumes "4 \<le> k" "k < 64" "flags = 4 \<or> flags = 12"
  shows "unat (NOT (bar_reads k flags (NOT 0) AND NOT 7)) = 2 ^ k - 1 - unat (flags AND 8)"
proof -
  have le: "(8 :: u64) \<le> mask k"
  proof -
    have "(2 :: nat) ^ 4 \<le> 2 ^ k" using assms(1) by (rule power_increasing) simp
    then show ?thesis using assms(2) by (simp add: word_le_nat_alt unat_mask_u64)
  qed
  from assms(3) show ?thesis
  proof
    assume f: "flags = 4"
    have "NOT (bar_reads k flags (NOT 0) AND NOT 7) = mask k"
      using assms(1,2) by (intro bit_word_eqI) (auto simp: bar_reads_def f bit_simps bar_bits)
    then show ?thesis using assms(2) f by (simp add: unat_mask_u64)
  next
    assume f: "flags = 12"
    have e: "NOT (bar_reads k flags (NOT 0) AND NOT 7) = mask k AND NOT 8"
      using assms(1,2) by (intro bit_word_eqI) (auto simp: bar_reads_def f bit_simps bar_bits)
    have "(mask k AND NOT 8) + 8 = (mask k AND NOT 8) OR (8 :: u64)"
      by (rule disjunctive_add) (simp add: bit_simps bar_bits)
    also have "\<dots> = mask k" using assms(1,2) by (intro bit_word_eqI) (auto simp: bit_simps bar_bits)
    finally have "mask k AND NOT 8 = mask k - (8 :: u64)" by (simp add: eq_diff_eq)
    then show ?thesis unfolding e using le assms(2) f by (simp add: unat_sub unat_mask_u64)
  qed
qed

lemma bar_addr_low: "flags = 4 \<or> flags = 12 \<Longrightarrow> 4 \<le> k \<Longrightarrow> bar_reads k flags v AND 7 = 4"
  by (rule bit_word_eqI) (auto simp: bar_reads_def bit_simps bar_bits)

lemma bar_addr_high: "flags = 4 \<or> flags = 12 \<Longrightarrow> 4 \<le> k \<Longrightarrow> bar_reads k flags v AND NOT 7 = (v AND NOT (mask k)) + (flags AND 8)"
proof -
  assume a: "flags = 4 \<or> flags = 12" "4 \<le> k"
  have "(v AND NOT (mask k)) + (flags AND 8) = (v AND NOT (mask k)) OR (flags AND 8)"
    using a by (intro disjunctive_add) (auto simp: bit_simps bar_bits)
  also have "\<dots> = bar_reads k flags v AND NOT 7"
    using a by (intro bit_word_eqI) (auto simp: bar_reads_def bit_simps bar_bits)
  finally show ?thesis by simp
qed

section \<open>Properties\<close>

text \<open>
  \<open>BusDeviceFunction::new\<close> accepts exactly the numbers in range; the three accessors
  return what it was given, and every identifier is the one built from its own fields.
\<close>

theorem bdf_roundtrip:
  "(BusDeviceFunction_new b d f = Ok i \<longleftrightarrow> bdf_bus i = b \<and> bdf_device i = d \<and> bdf_function i = f) \<and>
   (is_ok (BusDeviceFunction_new b d f) \<longleftrightarrow> b < 256 \<and> d < 32 \<and> f < 8)"
proof -
  have fwd: "bdf_bus i = b \<and> bdf_device i = d \<and> bdf_function i = f" if "BusDeviceFunction_new b d f = Ok i"
  proof -
    note n = bdf_new_bits [OF that]
    have lim: "bit b m \<Longrightarrow> m < 8" "bit d m \<Longrightarrow> m < 5" "bit f m \<Longrightarrow> m < 3" for m
      using n(1-3) nat_bit_less [of b 8 m] nat_bit_less [of d 5 m] nat_bit_less [of f 3 m] by simp_all
    have "bdf_bus i = b" by (rule bit_eqI) (auto simp: bdf_bits n(4) dest: lim)
    moreover have "bdf_device i = d" by (rule bit_eqI) (auto simp: bdf_bits n(4) dest: lim)
    moreover have "bdf_function i = f" by (rule bit_eqI) (auto simp: bdf_bits n(4) dest: lim)
    ultimately show ?thesis by simp
  qed
  have range: "bdf_bus i < 256" "bdf_device i < 32" "bdf_function i < 8"
  proof -
    have "take_bit 8 (bdf_bus i) = bdf_bus i" "take_bit 5 (bdf_device i) = bdf_device i" "take_bit 3 (bdf_function i) = bdf_function i"
      by (rule bit_eqI; auto simp: bit_take_bit_iff bdf_bits)+
    then show "bdf_bus i < 256" "bdf_device i < 32" "bdf_function i < 8" by (simp_all add: take_bit_nat_eq_self_iff)
  qed
  have "BusDeviceFunction_new (bdf_bus i) (bdf_device i) (bdf_function i) = Ok i"
  proof -
    obtain j where j: "BusDeviceFunction_new (bdf_bus i) (bdf_device i) (bdf_function i) = Ok j"
      using range by (simp add: BusDeviceFunction_new_def)
    have "bit j n = bit i n" for n
      unfolding bdf_new_bits(4) [OF j] by (cases "8 \<le> n"; cases "3 \<le> n") (auto simp: bdf_bits dest: bit_imp_le_length)
    then have "j = i" by (intro bit_word_eqI) simp
    with j show ?thesis by simp
  qed
  with fwd show ?thesis by (auto simp: BusDeviceFunction_new_def)
qed

lemma try_bar0_outcome:
  assumes "bar_device acc (b + 0x10) k flags" and "ecm_base pci bdf = Ok b"
    and "4 \<le> k" and "k < 64" and "flags = 4 \<or> flags = 12"
    and "read_register_u64 acc pci bdf 0x10 hw = Ok (bar_reads k flags base)"
  shows "\<exists>hw'. try_bar0_mem64 acc pci bdf hw =
      Ok (\<lparr>bar_addr = (base AND NOT (mask k)) + (flags AND 8), bar_size = push_bit k 1 - (flags AND 8)\<rparr>, hw') \<and>
    read_register_u64 acc pci bdf 0x10 hw' = Ok (bar_reads k flags base)"
proof -
  let ?bar = "bar_reads k flags base" let ?m = "NOT (bar_reads k flags (NOT 0) AND NOT 7)"
  define w where "w = (\<lambda>v hw. cfg_write32 acc (cfg_write32 acc hw (b + 0x10) (ucast (v :: u64))) (b + 0x14) (ucast (drop_bit 32 v)))"
  have wr: "write_register_u64 acc pci bdf 0x10 v hw = Ok (w v hw)" for v hw
    using register_u64_eq(2) [OF assms(2)] by (simp add: w_def)
  have rd: "read_register_u64 acc pci bdf 0x10 (w v hw) = Ok (bar_reads k flags v)" for v hw
    unfolding register_u64_eq(1) [OF assms(2)] w_def by (simp only: bar_write_read [OF assms(1)])
  have low: "?bar AND 7 = 4" using assms(5,3) by (rule bar_addr_low)
  have high: "?bar AND NOT 7 = (base AND NOT (mask k)) + (flags AND 8)" using assms(5,3) by (rule bar_addr_high)
  note m = bar_size_word [OF assms(3-5)]
  have k: "(2 :: nat) ^ k < 2 ^ 64" using assms(4) by (intro power_strict_increasing) simp_all
  have "(2 :: nat) ^ 4 \<le> 2 ^ k" using assms(3) by (rule power_increasing) simp
  then have f: "unat (flags AND 8) < 2 ^ k" using assms(5) by auto
  have add: "add_word 1 ?m = Ok (1 + ?m)" using m k by (simp add: add_word_def)
  have e: "1 + unat ?m = 2 ^ k - unat (flags AND 8)" unfolding m using f by simp
  then have "unat (1 + ?m) = 2 ^ k - unat (flags AND 8)"
    using k unat_word_ariths(1) [of 1 ?m] by (simp add: take_bit_eq_mod)
  moreover have "(push_bit k 1 :: u64) = of_nat (2 ^ k)" by (simp add: push_bit_eq_mult)
  then have "unat (push_bit k 1 :: u64) = 2 ^ k" using k by (simp only: unat_of_nat) (simp add: take_bit_nat_eq_self)
  then have "unat (push_bit k 1 - (flags AND 8)) = 2 ^ k - unat (flags AND 8)" using f by (simp add: unat_sub word_le_nat_alt)
  ultimately have sz: "1 + ?m = push_bit k 1 - (flags AND 8)" by (simp add: word_unat_eq_iff)
  have "try_bar0_mem64 acc pci bdf hw =
      Ok (\<lparr>bar_addr = (base AND NOT (mask k)) + (flags AND 8), bar_size = push_bit k 1 - (flags AND 8)\<rparr>, w ?bar (w (NOT 0) hw))"
    by (simp only: try_bar0_mem64_def assms(6) rbind.simps low if_True simp_thms wr rd add sz high)
  moreover have "bar_reads k flags ?bar = ?bar" by (rule bit_word_eqI) (auto simp: bar_reads_def bit_simps)
  ultimately show ?thesis using rd [of ?bar] by auto
qed

text \<open>
  C39. For a device whose BAR 0 is a 64-bit memory BAR of \<open>2 ^ k\<close> bytes as the PCI specification
  documents it, \<open>try_bar0_mem64\<close> returns its address and size and leaves the BAR as it
  found it. When the BAR is prefetchable (bit 3 of its flags), both come out wrong by
  that bit: the address is 8 too high and the size 8 too small.
\<close>

theorem try_bar0_mem64_spec:
  assumes "bar_device acc (b + 0x10) k flags" and "ecm_base pci bdf = Ok b"
    and "4 \<le> k" and "k < 64" and "flags = 4 \<or> flags = 12"
    and "read_register_u64 acc pci bdf 0x10 hw = Ok (bar_reads k flags base)"
  shows "\<exists>hw'. try_bar0_mem64 acc pci bdf hw =
      Ok (\<lparr>bar_addr = (base AND NOT (mask k)) + (flags AND 8), bar_size = push_bit k 1 - (flags AND 8)\<rparr>, hw') \<and>
    read_register_u64 acc pci bdf 0x10 hw' = Ok (bar_reads k flags base)"
  by (rule try_bar0_outcome [OF assms])

text \<open>A device with a 64 KiB BAR at \<open>0xFEB00000\<close> whose state is the BAR.\<close>

definition bar_at :: "usize \<Rightarrow> u64 ConfigAccess" where
  "bar_at a = \<lparr>cfg_read16 = (\<lambda>hw x. 0),
     cfg_read32 = (\<lambda>hw x. if x = a then ucast (bar_reads 16 4 hw)
        else if x = a + 4 then ucast (drop_bit 32 (bar_reads 16 4 hw)) else 0),
     cfg_write32 = (\<lambda>hw x v. if x = a then push_bit 32 (drop_bit 32 hw) OR ucast v
        else if x = a + 4 then take_bit 32 hw OR push_bit 32 (ucast v) else hw)\<rparr>"

lemma bar_at_device: "bar_device (bar_at a) a 16 4"
  unfolding bar_device_def
  by (intro allI conjI; rule bit_word_eqI) (auto simp: bar_at_def bar_reads_def bit_simps bar_bits dest: bit_imp_le_length)

theorem try_bar0_mem64_spec_witness:
  "\<exists>hw'. try_bar0_mem64 (bar_at 0xB0018010) \<lparr>ecm_start = 0xB0000000, ecm_end = 0xB1000000\<rparr> 0x18 0xFEB00004 =
     Ok (\<lparr>bar_addr = 0xFEB00000, bar_size = 0x10000\<rparr>, hw')"
proof -
  let ?pci = "\<lparr>ecm_start = 0xB0000000, ecm_end = 0xB1000000\<rparr>"
  have b: "ecm_base ?pci 0x18 = Ok 0xB0018000" by (simp add: ecm_base_def add_usize_def)
  have rd: "bar_reads 16 4 0xFEB00004 = 0xFEB00004" by (simp add: bar_reads_def mask_eq_exp_minus_1)
  have "read_register_u64 (bar_at 0xB0018010) ?pci 0x18 0x10 0xFEB00004 = Ok (bar_reads 16 4 0xFEB00004)"
    unfolding rd register_u64_eq(1) [OF b] by (simp add: bar_at_def u64_halves rd)
  from try_bar0_mem64_spec [OF _ b _ _ _ this] bar_at_device [of "0xB0018010"]
  show ?thesis by (auto simp: mask_eq_exp_minus_1)
qed

text \<open>
  The configuration windows of different functions are disjoint pages above the base
  address of the MCFG entry, so no access to one function reaches another; and the window
  of a function lies in the range that \<open>Pci::new\<close> records exactly when its bus is below 16.
\<close>

theorem ecm_windows:
  assumes "ecm_start pci + 2 ^ 28 \<le> 2 ^ 64" and "ecm_end pci = ecm_start pci + 2 ^ 24"
  shows "\<exists>w. ecm_base pci i = Ok w \<and>
    (\<forall>j. \<exists>v. ecm_base pci j = Ok v \<and> (i \<noteq> j \<longrightarrow> w + 4096 \<le> v \<or> v + 4096 \<le> w)) \<and>
    (ecm_start pci \<le> w \<and> w + 4096 \<le> ecm_end pci \<longleftrightarrow> bdf_bus i < 16)"
proof -
  have u: "unat j < 2 ^ 16" for j :: u16 using unsigned_less [of j] by simp
  have base: "ecm_base pci j = Ok (ecm_start pci + unat j * 4096)" for j
    using u [of j] assms(1) by (simp add: ecm_base_def add_usize_def push_bit_eq_mult)
  have apart: "i \<noteq> j \<Longrightarrow> unat i * 4096 + 4096 \<le> unat j * 4096 \<or> unat j * 4096 + 4096 \<le> unat i * 4096" for j
    by (metis (no_types) add.commute add_le_cancel_left linorder_neq_iff mult.commute mult_Suc_right mult_le_mono2 Suc_leI unsigned_word_eqI)
  have "bdf_bus i = unat i div 256"
  proof -
    have "bdf_bus i = drop_bit 8 (unat i)"
      by (rule bit_eqI) (use u [of i] in \<open>auto simp: bdf_bits bit_simps add.commute dest: bit_imp_le_length\<close>)
    then show ?thesis by (simp add: drop_bit_eq_div)
  qed
  then have "unat i * 4096 + 4096 \<le> 2 ^ 24 \<longleftrightarrow> bdf_bus i < 16" by (simp add: div_less_iff_less_mult) linarith
  with base apart assms(2) show ?thesis by auto
qed

theorem ecm_windows_witness:
  "\<exists>w. ecm_base \<lparr>ecm_start = 0xB0000000, ecm_end = 0xB1000000\<rparr> 0x1F00 = Ok w \<and> \<not> w + 4096 \<le> 0xB1000000"
proof -
  have "bdf_bus 0x1F00 = 31"
    by (simp add: bdf_bus_def MASK_BUS_def SHIFT_BUS_def)
  with ecm_windows [of "\<lparr>ecm_start = 0xB0000000, ecm_end = 0xB1000000\<rparr>" "0x1F00"] show ?thesis
    by (auto simp: ecm_base_def add_usize_def)
qed

section \<open>Probing\<close>

text \<open>A function that answers with the ids of a supported controller.\<close>

definition xhci_at :: "'hw ConfigAccess \<Rightarrow> Pci \<Rightarrow> 'hw \<Rightarrow> BusDeviceFunction \<Rightarrow> bool" where
  "xhci_at acc pci hw bdf \<longleftrightarrow>
     (case read_vendor_id_and_device_id acc pci bdf hw of Ok (Some vd) \<Rightarrow> xhci_supports vd | _ \<Rightarrow> False)"

lemma bdf_new_sum:
  assumes "b < 256" "d < 32" "f < 8"
  shows "BusDeviceFunction_new b d f = Ok (of_nat (b * 256 + (d * 8 + f)))"
proof -
  have "push_bit 3 d AND f = 0"
  proof (rule bit_eqI)
    show "bit (push_bit 3 d AND f) n \<longleftrightarrow> bit 0 n" for n
      using nat_bit_less [of f 3 n] assms(3) by (auto simp: bit_and_iff bit_push_bit_iff_nat)
  qed
  then have df: "push_bit 3 d OR f = d * 8 + f"
    using disjunctive_add_eq_or [of "push_bit 3 d" f] by (simp add: push_bit_eq_mult)
  have "d * 8 + f < 2 ^ 8" using assms(2,3) by simp
  have "push_bit 8 b AND (d * 8 + f) = 0"
  proof (rule bit_eqI)
    show "bit (push_bit 8 b AND (d * 8 + f)) n \<longleftrightarrow> bit 0 n" for n
      using nat_bit_less [of "d * 8 + f" 8 n] \<open>d * 8 + f < 2 ^ 8\<close> by (auto simp: bit_and_iff bit_push_bit_iff_nat)
  qed
  then have "push_bit 8 b OR (push_bit 3 d OR f) = b * 256 + (d * 8 + f)"
    using disjunctive_add_eq_or [of "push_bit 8 b" "d * 8 + f"] df by (simp add: push_bit_eq_mult)
  then show ?thesis using assms
    by (simp add: BusDeviceFunction_new_def SHIFT_BUS_def SHIFT_DEVICE_def SHIFT_FUNCTION_def or.assoc del: of_nat_add of_nat_mult)
qed

lemma concat_blocks: "concat (map (\<lambda>i. map (\<lambda>j. g (i * k + j)) [0..<k]) [0..<n]) = map g [0..<n * k]"
proof (induction n)
  case (Suc n)
  have "[0..<Suc n * k] = [0..<n * k] @ map (\<lambda>j. n * k + j) [0..<k]"
    using upt_add_eq_append [of 0 "n * k" k] by (simp add: map_add_upt add.commute)
  with Suc show ?case by simp
qed simp

lemma probe_order_ids:
  "map (\<lambda>(b, d, f). b * 256 + (d * 8 + f)) probe_order = [0..<0x2000]"
proof -
  have "map (\<lambda>(b, d, f). b * 256 + (d * 8 + f)) probe_order =
      concat (map (\<lambda>b. concat (map (\<lambda>d. map (\<lambda>f. b * 256 + (d * 8 + f)) [0..<8]) [0..<32])) [0..<32])"
    unfolding probe_order_def by (simp add: map_concat o_def del: upt_rec_numeral upt_conv_Cons)
  also have "\<dots> = concat (map (\<lambda>b. map (\<lambda>x. b * 256 + x) [0..<256]) [0..<32])"
    using concat_blocks [of "\<lambda>x. b * 256 + x" 8 32 for b] by (simp del: upt_rec_numeral)
  also have "\<dots> = [0..<0x2000]" using concat_blocks [of "\<lambda>x. x" 256 32] by (simp del: upt_rec_numeral)
  finally show ?thesis .
qed

text \<open>What \<open>probe_devices\<close> does at a function that answers: an error of the driver is logged and forgotten.\<close>

definition attach_logged :: "(BusDeviceFunction \<Rightarrow> 's \<Rightarrow> (unit result \<times> 's) option) \<Rightarrow> BusDeviceFunction \<Rightarrow> 's \<Rightarrow> (unit result \<times> 's) option" where
  "attach_logged attach bdf s = map_option (\<lambda>(r, s'). (if is_panic r then r else Ok (), s')) (attach bdf s)"

lemma read_ids_Ok:
  assumes "ecm_start pci + 2 ^ 28 \<le> 2 ^ 64"
  shows "\<exists>v. read_vendor_id_and_device_id acc pci i hw = Ok v"
proof -
  have "unat i < 2 ^ 16" using unsigned_less [of i] by simp
  then obtain w where "ecm_base pci i = Ok w" using assms by (simp add: ecm_base_def add_usize_def push_bit_eq_mult)
  then show ?thesis by (auto simp: read_vendor_id_and_device_id_def read_register_u16_def config_register_def)
qed

lemma probe_one_id:
  assumes "ecm_start pci + 2 ^ 28 \<le> 2 ^ 64" and "b < 256" "d < 32" "f < 8"
  shows "probe_one acc hw_of attach pci (b, d, f) s =
    (if xhci_at acc pci (hw_of s) (of_nat (b * 256 + (d * 8 + f))) then attach_logged attach (of_nat (b * 256 + (d * 8 + f))) s else Some (Ok (), s))"
proof -
  let ?i = "of_nat (b * 256 + (d * 8 + f)) :: u16"
  obtain v where v: "read_vendor_id_and_device_id acc pci ?i (hw_of s) = Ok v" using read_ids_Ok [OF assms(1), of acc ?i "hw_of s"] by blast
  have p: "(\<lambda>(r, s'). (case r of Panic e \<Rightarrow> Panic e | _ \<Rightarrow> Ok (), s')) = (\<lambda>(r, s'). (if is_panic r then r else Ok (), s'))"
    by (auto simp: fun_eq_iff split: result.splits)
  show ?thesis
    by (cases v) (simp_all add: probe_one_def bdf_new_sum [OF assms(2-4)] xhci_at_def attach_logged_def v p del: of_nat_add)
qed

lemma set_probe_order: "set probe_order \<subseteq> {(b, d, f). b < 32 \<and> d < 32 \<and> f < 8}"
  by (auto simp: probe_order_def)

lemma probe_devices_idle:
  assumes "ecm_start pci + 2 ^ 28 \<le> 2 ^ 64" and "\<And>j. \<not> xhci_at acc pci (hw_of s) j"
  shows "probe_devices acc hw_of attach pci s = Some (Ok (), s)"
proof -
  have "for_each (probe_one acc hw_of attach pci) xs s = Some (Ok (), s)" if "set xs \<subseteq> {(b, d, f). b < 32 \<and> d < 32 \<and> f < 8}" for xs
    using that
  proof (induction xs)
    case (Cons x xs)
    obtain b d f where x: "x = (b, d, f)" "b < 256" "d < 32" "f < 8" using Cons.prems by (cases x) auto
    have "probe_one acc hw_of attach pci x s = Some (Ok (), s)"
      using probe_one_id [OF assms(1) x(2-4), of acc hw_of attach s] assms(2) unfolding x(1) by (simp del: of_nat_add of_nat_mult)
    with Cons show ?case by simp
  qed simp
  then show ?thesis using set_probe_order by (simp add: probe_devices_def)
qed

text \<open>
  C40. When attaching does not change the ids that functions answer with, probing the bus attaches the driver once to
  each of the first 8192 functions that answers with the ids of a supported controller, in the order of bus,
  device and function, whether or not an earlier attach failed; a panic of the driver ends it.
\<close>

theorem probe_devices_attaches:
  assumes "ecm_start pci + 2 ^ 28 \<le> 2 ^ 64"
    and "\<And>bdf s r s' j. attach bdf s = Some (r, s') \<Longrightarrow> xhci_at acc pci (hw_of s') j = xhci_at acc pci (hw_of s) j"
  shows "probe_devices acc hw_of attach pci s =
    for_each (attach_logged attach) (filter (xhci_at acc pci (hw_of s)) (map of_nat [0..<0x2000])) s"
proof -
  let ?id = "\<lambda>(b, d, f). of_nat (b * 256 + (d * 8 + f)) :: u16"
  let ?P = "\<lambda>bdf. xhci_at acc pci (hw_of s) (?id bdf)"
  have "probe_devices acc hw_of attach pci s = for_each (\<lambda>bdf. attach_logged attach (?id bdf)) (filter ?P probe_order) s"
    unfolding probe_devices_def
  proof (rule for_each_filter [where I = "\<lambda>t. \<forall>j. xhci_at acc pci (hw_of t) j = xhci_at acc pci (hw_of s) j"
        and A = "{(b, d, f). b < 32 \<and> d < 32 \<and> f < 8}"])
    show "probe_one acc hw_of attach pci x t = (if ?P x then attach_logged attach (?id x) t else Some (Ok (), t))"
      if same: "\<forall>j. xhci_at acc pci (hw_of t) j = xhci_at acc pci (hw_of s) j" and x: "x \<in> {(b, d, f). b < 32 \<and> d < 32 \<and> f < 8}" for x t
    proof -
      obtain b d f where bdf: "x = (b, d, f)" "b < 256" "d < 32" "f < 8" using x by auto
      show ?thesis using same probe_one_id [OF assms(1) bdf(2-4), of acc hw_of attach t]
        unfolding bdf(1) by (simp del: of_nat_add of_nat_mult)
    qed
    show "\<forall>j. xhci_at acc pci (hw_of t') j = xhci_at acc pci (hw_of s) j"
      if "\<forall>j. xhci_at acc pci (hw_of t) j = xhci_at acc pci (hw_of s) j" "attach_logged attach (?id x) t = Some (r, t')" for x t r t'
      using that assms(2) by (auto simp: attach_logged_def simp del: of_nat_add of_nat_mult)
  qed (use set_probe_order in auto)
  also have "\<dots> = for_each (attach_logged attach) (map ?id (filter ?P probe_order)) s" by (simp only: for_each_map)
  also have "map ?id (filter ?P probe_order) = filter (xhci_at acc pci (hw_of s)) (map ?id probe_order)"
    by (simp add: filter_map o_def)
  also have "map ?id probe_order = map of_nat (map (\<lambda>(b, d, f). b * 256 + (d * 8 + f)) probe_order)"
    by (auto simp: comp_def split_def)
  finally show ?thesis by (simp only: probe_order_ids)
qed

text \<open>A machine with one controller at device 1, function 0 of bus 0; attaching to it fails and counts.\<close>

definition one_xhci :: "unit ConfigAccess" where
  "one_xhci = \<lparr>cfg_read16 = (\<lambda>hw a. if a = 0xB0008000 then 0x1B36 else if a = 0xB0008002 then 0x000D else 0xFFFF),
      cfg_read32 = (\<lambda>hw a. 0), cfg_write32 = (\<lambda>hw a v. hw)\<rparr>"

theorem probe_devices_attaches_witness:
  "probe_devices one_xhci (\<lambda>s. ()) (\<lambda>bdf s. Some (Err ''no'', s @ [bdf])) \<lparr>ecm_start = 0xB0000000, ecm_end = 0xB1000000\<rparr> [] =
     Some (Ok (), [8])"
proof -
  let ?pci = "\<lparr>ecm_start = 0xB0000000, ecm_end = 0xB1000000\<rparr>"
  have at: "xhci_at one_xhci ?pci () = (\<lambda>j. j = 8)"
  proof
    show "xhci_at one_xhci ?pci () j \<longleftrightarrow> j = 8" for j
    proof -
      have "unat j = 8 \<longleftrightarrow> j = 8" by (simp add: word_unat_eq_iff)
      then show ?thesis using unsigned_less [of j]
        by (simp add: xhci_at_def read_vendor_id_and_device_id_def read_register_u16_def config_register_def ecm_base_def
            add_usize_def push_bit_eq_mult xhci_supports_def one_xhci_def)
    qed
  qed
  have "filter (\<lambda>j. j = 8) (map of_nat [0..<0x2000]) = [8 :: u16]"
  proof -
    have "(of_nat n :: u16) = 8 \<longleftrightarrow> n = 8" if "n < 0x2000" for n
      using that by (simp add: word_unat_eq_iff unsigned_of_nat take_bit_nat_eq_self)
    then have "filter (\<lambda>n. (of_nat n :: u16) = 8) [0..<0x2000] = filter (\<lambda>n. n = 8) [0..<0x2000]"
      by (intro filter_cong) auto
    then have "filter (\<lambda>j. j = 8) (map of_nat [0..<0x2000]) = map (of_nat :: nat \<Rightarrow> u16) (filter (\<lambda>n. n = 8) [0..<0x2000])"
      by (simp only: filter_map o_def)
    also have "filter (\<lambda>n. n = 8) [0..<0x2000 :: nat] = [8]"
      using upt_split_at [of 8 "0x2000"] by (simp del: upt_rec_numeral)
    finally show ?thesis by simp
  qed
  then show ?thesis
    using probe_devices_attaches [of ?pci "\<lambda>bdf s. Some (Err ''no'', s @ [bdf])" one_xhci "\<lambda>s. ()" "[]"]
    by (simp add: at attach_logged_def del: upt_rec_numeral)
qed

end
