(* ===== verification/XhciRegisters.thy ===== *)
theory XhciRegisters
  imports XhciContexts EventRing Pci "HOL-Library.While_Combinator"
begin

text \<open>
  The register blocks of the controller in \<open>xhci.rs\<close>: capability, operational and runtime
  registers, the port status registers and the doorbells. A register is the word its cell
  holds; the device that moves between two accesses of a polling loop is a parameter, a
  function on the registers, and a loop that may not end has the value \<open>None\<close>.
\<close>

section \<open>Capability registers\<close>

record CapabilityRegisters =
  cap_caplength :: u8
  hcsparams1 :: u32
  hcsparams2 :: u32
  cap_dboff :: u32
  cap_rtsoff :: u32

definition caplength :: "CapabilityRegisters \<Rightarrow> usize" where
  "caplength c = unat (cap_caplength c)"

definition rtsoff :: "CapabilityRegisters \<Rightarrow> usize" where
  "rtsoff c = unat (cap_rtsoff c)"

definition dboff :: "CapabilityRegisters \<Rightarrow> usize" where
  "dboff c = unat (cap_dboff c)"

definition num_of_device_slots :: "CapabilityRegisters \<Rightarrow> usize" where
  "num_of_device_slots c = unat (extract_bits (hcsparams1 c) 0 8)"

definition num_scratchpad_bufs :: "CapabilityRegisters \<Rightarrow> usize" where
  "num_scratchpad_bufs c =
     unat (push_bit 5 (extract_bits (hcsparams2 c) 21 5) OR extract_bits (hcsparams2 c) 27 5)"

definition num_of_ports :: "CapabilityRegisters \<Rightarrow> usize" where
  "num_of_ports c = unat (extract_bits (hcsparams1 c) 24 8)"

section \<open>Operational registers\<close>

record OperationalRegisters =
  op_usbcmd :: u32
  op_usbsts :: u32
  op_pagesize :: u32
  op_crcr :: u64
  op_dcbaap :: u64
  op_config :: u64

definition STATUS_HC_HALTED :: u32 where
  [field_defs]: "STATUS_HC_HALTED = 1"

definition CMD_RUN_STOP :: u32 where
  [field_defs]: "CMD_RUN_STOP = 1"

definition CMD_HC_RESET :: u32 where
  [field_defs]: "CMD_HC_RESET = 2"

text \<open>\<open>count_ones\<close> and \<open>trailing_zeros\<close> of Rust's integers.\<close>

definition count_ones :: "'a::len word \<Rightarrow> nat" where
  "count_ones w = length (filter (bit w) [0..<LENGTH('a)])"

definition trailing_zeros :: "'a::len word \<Rightarrow> nat" where
  "trailing_zeros w = length (takeWhile (\<lambda>i. \<not> bit w i) [0..<LENGTH('a)])"

definition page_size :: "OperationalRegisters \<Rightarrow> usize result" where
  "page_size r =
     (let page_size_bits = op_pagesize r AND 0xFFFF in
      if count_ones page_size_bits \<noteq> 1 then Err ''Invalid page size bits''
      else Ok (2 ^ (trailing_zeros page_size_bits + 12)))"

definition set_command_bits :: "u32 \<Rightarrow> OperationalRegisters \<Rightarrow> OperationalRegisters" where
  "set_command_bits bits r = r\<lparr>op_usbcmd := op_usbcmd r OR bits\<rparr>"

definition clear_command_bits :: "u32 \<Rightarrow> OperationalRegisters \<Rightarrow> OperationalRegisters" where
  "clear_command_bits bits r = r\<lparr>op_usbcmd := op_usbcmd r AND NOT bits\<rparr>"

text \<open>A polling loop: between two reads of the register the device makes a move.\<close>

definition reset_xhc ::
  "(OperationalRegisters \<Rightarrow> OperationalRegisters) \<Rightarrow> OperationalRegisters \<Rightarrow> OperationalRegisters option" where
  "reset_xhc device r =
     Option.bind (while_option (\<lambda>r. op_usbsts r AND STATUS_HC_HALTED = 0) device (clear_command_bits CMD_RUN_STOP r)) (\<lambda>r.
       while_option (\<lambda>r. op_usbsts r AND CMD_HC_RESET \<noteq> 0) device (set_command_bits CMD_HC_RESET r))"

definition start_xhc ::
  "(OperationalRegisters \<Rightarrow> OperationalRegisters) \<Rightarrow> OperationalRegisters \<Rightarrow> OperationalRegisters option" where
  "start_xhc device r =
     while_option (\<lambda>r. op_usbsts r AND STATUS_HC_HALTED \<noteq> 0) device (set_command_bits CMD_RUN_STOP r)"

definition set_cmd_ring_ctrl :: "u64 \<Rightarrow> OperationalRegisters \<Rightarrow> OperationalRegisters" where
  "set_cmd_ring_ctrl ring_phys r = r\<lparr>op_crcr := ring_phys OR 1\<rparr>"

definition set_dcbaa_ptr :: "u64 \<Rightarrow> OperationalRegisters \<Rightarrow> OperationalRegisters" where
  "set_dcbaa_ptr p r = r\<lparr>op_dcbaap := p\<rparr>"

definition set_num_device_slots :: "usize \<Rightarrow> OperationalRegisters \<Rightarrow> OperationalRegisters" where
  "set_num_device_slots num r =
     (let c = op_config r AND NOT 0xFF; c = c OR of_nat num in r\<lparr>op_config := c\<rparr>)"

section \<open>Runtime registers\<close>

record InterrupterRegisterSet =
  irs_management :: u32
  irs_moderation :: u32
  irs_erst_size :: u32
  irs_erst_base :: u64
  irs_erdp :: u64

text \<open>
  \<open>init_irs\<close>: the interrupter, and the event ring that is told its dequeue-pointer register;
  the addresses of the segment table and of the ring are the ring's.
\<close>

definition init_irs ::
  "usize \<Rightarrow> u64 \<Rightarrow> InterrupterRegisterSet list \<Rightarrow> EventRing \<Rightarrow> (InterrupterRegisterSet list \<times> EventRing) result" where
  "init_irs index erst_phys irs ring =
     (if index < length irs
      then let s = (irs ! index)\<lparr>irs_erst_size := 1, irs_erst_base := erst_phys,
             irs_erdp := ring_addr (er_ring ring), irs_moderation := 0, irs_management := 1\<rparr>
           in Ok (irs[index := s], set_erdp (irs_erdp s) ring)
      else Err ''Index out of range'')"

section \<open>Ports\<close>

text \<open>
  \<open>PortSc\<close>: the addresses of the port registers, four words apart. \<open>get\<close> subtracts with
  wrap-around, so that port 0 has no entry.
\<close>

definition PortSc_new :: "u64 \<Rightarrow> CapabilityRegisters \<Rightarrow> u64 list" where
  "PortSc_new bar0 cap =
     (let base = bar0 + of_nat (caplength cap) + 0x400
      in map (\<lambda>port. base + of_nat ((port - 1) * 4 * 4)) [1..<num_of_ports cap + 1])"

definition port_range :: "u64 list \<Rightarrow> usize list" where
  "port_range entries = [1..<length entries + 1]"

definition portsc_get :: "u64 list \<Rightarrow> usize \<Rightarrow> u64 option" where
  "portsc_get entries port =
     (let i = wrapping_sub_usize port 1 in if i < length entries then Some (entries ! i) else None)"

definition port_bit :: "nat \<Rightarrow> u32 \<Rightarrow> bool" where
  "port_bit pos v \<longleftrightarrow> v AND push_bit pos 1 \<noteq> 0"

definition PRESERVE_MASK :: u32 where
  "PRESERVE_MASK = 0x4F01FFE9"

text \<open>The word that \<open>assert_bit\<close> writes over the word it read.\<close>

definition assert_bit :: "nat \<Rightarrow> u32 \<Rightarrow> u32" where
  "assert_bit pos old = (old AND PRESERVE_MASK) OR push_bit pos 1"

definition ccs :: "u32 \<Rightarrow> bool" where "ccs v = port_bit 0 v"

definition ped :: "u32 \<Rightarrow> bool" where "ped v = port_bit 1 v"

definition pr :: "u32 \<Rightarrow> bool" where "pr v = port_bit 4 v"

definition pp :: "u32 \<Rightarrow> bool" where "pp v = port_bit 9 v"

definition is_enabled :: "u32 \<Rightarrow> bool" where
  "is_enabled v \<longleftrightarrow> pp v \<and> ccs v \<and> ped v \<and> \<not> pr v"

definition port_speed :: "u32 \<Rightarrow> UsbMode" where
  "port_speed v =
     (let s = extract_bits v 10 4 in
      if s = 1 then FullSpeed else if s = 2 then LowSpeed else if s = 3 then HighSpeed
      else if s = 4 then SuperSpeed else UnknownMode s)"

definition port_max_packet_size :: "u32 \<Rightarrow> u16 result" where
  "port_max_packet_size v =
     (case port_speed v of
        FullSpeed \<Rightarrow> Ok 8 | LowSpeed \<Rightarrow> Ok 8 | HighSpeed \<Rightarrow> Ok 64 | SuperSpeed \<Rightarrow> Ok 512
      | UnknownMode _ \<Rightarrow> Err ''unknown Protocol Speed ID'')"

text \<open>
  A port behind its register: what a read returns, what a write does, and what happens until the
  task that yielded runs again. \<open>reset_port\<close> asserts the power and then the reset bit and waits
  for each with a yield per read.
\<close>

record 'p Port =
  port_read :: "'p \<Rightarrow> u32"
  port_write :: "u32 \<Rightarrow> 'p \<Rightarrow> 'p"
  port_yield :: "'p \<Rightarrow> 'p"

definition port_assert :: "'p Port \<Rightarrow> nat \<Rightarrow> 'p \<Rightarrow> 'p" where
  "port_assert hw pos p = port_write hw (assert_bit pos (port_read hw p)) p"

definition reset_port :: "'p Port \<Rightarrow> 'p \<Rightarrow> 'p option" where
  "reset_port hw p =
     Option.bind (while_option (\<lambda>p. \<not> pp (port_read hw p)) (port_yield hw) (port_assert hw 9 p)) (\<lambda>p.
       while_option (\<lambda>p. pr (port_read hw p)) (port_yield hw) (port_assert hw 4 p))"

section \<open>Doorbells\<close>

definition doorbell_value :: "u8 \<Rightarrow> u16 \<Rightarrow> u32" where
  "doorbell_value target task = ucast target OR push_bit 16 (ucast task)"

text \<open>\<open>setup_xhc_registers\<close>: where the register blocks and the doorbells lie.\<close>

record XhcRegisters =
  cap_regs :: CapabilityRegisters
  op_regs_at :: u64
  rt_regs_at :: u64
  doorbell_regs :: "u64 list"
  portsc_regs :: "u64 list"

definition setup_xhc_registers :: "(u64 \<Rightarrow> CapabilityRegisters) \<Rightarrow> BarMem64 \<Rightarrow> XhcRegisters result" where
  "setup_xhc_registers read_caps bar0 =
     (let base = bar_addr bar0; cap = read_caps base; num_slots = num_of_ports cap;
          doorbells = map (\<lambda>i. base + of_nat (dboff cap) + of_nat (4 * i)) [0..<num_slots + 1]
      in if length doorbells = 1 + num_slots
         then Ok \<lparr>cap_regs = cap, op_regs_at = base + of_nat (caplength cap), rt_regs_at = base + of_nat (rtsoff cap),
                doorbell_regs = doorbells, portsc_regs = PortSc_new base cap\<rparr>
         else Panic ''assertion failed'')"

section \<open>Polling loops\<close>

text \<open>A loop whose body is one move of the other side ends at the first state that fails the test.\<close>

lemma poll_ends:
  assumes "\<not> b ((c ^^ n) s)"
  shows "\<exists>k \<le> n. while_option b c s = Some ((c ^^ k) s) \<and> \<not> b ((c ^^ k) s) \<and> (\<forall>i < k. b ((c ^^ i) s))"
proof -
  let ?k = "LEAST k. \<not> b ((c ^^ k) s)"
  have "while_option b c s = Some ((c ^^ ?k) s)" using assms by (auto simp: while_option_def)
  moreover have "\<not> b ((c ^^ ?k) s)" by (rule LeastI [of "\<lambda>k. \<not> b ((c ^^ k) s)", OF assms])
  moreover have "?k \<le> n" by (rule Least_le) (rule assms)
  ultimately show ?thesis using not_less_Least by blast
qed

lemma poll_skips: "\<not> b s \<Longrightarrow> while_option b c s = Some s"
  using poll_ends [of b 0 c s] by simp

section \<open>Bits of the registers\<close>

lemma port_bit_iff: "pos < 32 \<Longrightarrow> port_bit pos v \<longleftrightarrow> bit v pos"
  using and_exp_eq_0_iff_not_bit [of v pos] by (simp add: port_bit_def push_bit_eq_mult)

lemma preserve_bits: "bit PRESERVE_MASK n \<longleftrightarrow> n < 32 \<and> n \<notin> {1, 2, 4, 17, 18, 19, 20, 21, 22, 23, 28, 29, 31}"
proof (cases "n < 32")
  case True
  then have "n \<in> set [0..<32]" by simp
  then show ?thesis by (simp add: PRESERVE_MASK_def upt_rec) (elim disjE; simp add: bit_numeral_rec)
next
  case False
  then show ?thesis using bit_imp_le_length [of PRESERVE_MASK n] by auto
qed

lemma assert_bit_bits:
  "pos < 32 \<Longrightarrow> bit (assert_bit pos old) n \<longleftrightarrow>
    n = pos \<or> bit old n \<and> n \<notin> {1, 2, 4, 17, 18, 19, 20, 21, 22, 23, 28, 29, 31}"
  using bit_imp_le_length [of old n] by (auto simp: assert_bit_def bit_simps preserve_bits)

lemma poll_first: "(\<forall>i < n. b ((c ^^ i) s)) \<Longrightarrow> \<not> b ((c ^^ n) s) \<Longrightarrow> while_option b c s = Some ((c ^^ n) s)"
  using poll_ends [of b n c s] by (metis le_neq_implies_less)

lemma count_ones_1_iff: "count_ones (w :: 'a::len word) = 1 \<longleftrightarrow> (\<exists>k < LENGTH('a). w = push_bit k 1)"
proof
  assume "count_ones w = 1"
  then obtain k where k: "filter (bit w) [0..<LENGTH('a)] = [k]"
    by (auto simp: count_ones_def length_Suc_conv)
  then have "set (filter (bit w) [0..<LENGTH('a)]) = {k}" by simp
  then have "n < LENGTH('a) \<and> bit w n \<longleftrightarrow> n = k" for n by (auto simp: set_eq_iff)
  then have "k < LENGTH('a)" "w = push_bit k 1"
    by (blast, intro bit_word_eqI) (auto simp: bit_simps)
  then show "\<exists>k < LENGTH('a). w = push_bit k 1" by blast
next
  assume "\<exists>k < LENGTH('a). w = push_bit k 1"
  then obtain k where k: "k < LENGTH('a)" "w = push_bit k 1" by blast
  have "filter (bit w) [0..<LENGTH('a)] = [k]"
    using k by (auto simp: upt_split_at [OF k(1)] bit_simps filter_empty_conv)
  then show "count_ones w = 1" by (simp add: count_ones_def)
qed

lemma trailing_zeros_push: "k < LENGTH('a) \<Longrightarrow> trailing_zeros (push_bit k 1 :: 'a::len word) = k"
  by (auto simp: trailing_zeros_def upt_split_at [of k] bit_simps takeWhile_append)

section \<open>Properties\<close>

text \<open>The bits of a port register that a 1 clears: the enable bit and the change bits.\<close>

definition clears_nothing :: "u32 \<Rightarrow> bool" where
  "clears_nothing v \<longleftrightarrow> (\<forall>i \<in> {1, 17, 18, 19, 20, 21, 22, 23}. \<not> bit v i)"

lemma assert_clears_nothing: "clears_nothing (assert_bit 9 v)" "clears_nothing (assert_bit 4 v)"
  by (simp_all add: clears_nothing_def assert_bit_bits)

text \<open>
  C31. On a port with a device attached that behaves as the xHCI specification says, and as long as
  no write clears the enable or a change bit (powered some time after the power bit is written;
  enabled when the reset bit, written with the power bit kept, reads 0 again), \<open>reset_port\<close> ends,
  and then the port is enabled: the words it writes meet these conditions whatever it read.
\<close>

theorem reset_port_enables:
  assumes power: "\<And>v p. bit v 9 \<Longrightarrow> clears_nothing v \<Longrightarrow>
      \<exists>n. (\<forall>i < n. \<not> pp (port_read hw ((port_yield hw ^^ i) (port_write hw v p)))) \<and>
        bit (port_read hw ((port_yield hw ^^ n) (port_write hw v p))) 9 \<and>
        ccs (port_read hw ((port_yield hw ^^ n) (port_write hw v p)))"
    and reset: "\<And>v p. bit (port_read hw p) 9 \<Longrightarrow> ccs (port_read hw p) \<Longrightarrow> bit v 9 \<Longrightarrow> bit v 4 \<Longrightarrow> clears_nothing v \<Longrightarrow>
      \<exists>n. (\<forall>i < n. pr (port_read hw ((port_yield hw ^^ i) (port_write hw v p)))) \<and>
        is_enabled (port_read hw ((port_yield hw ^^ n) (port_write hw v p)))"
  shows "\<exists>q. reset_port hw p = Some q \<and> is_enabled (port_read hw q)"
proof -
  let ?on = "assert_bit 9 (port_read hw p)"
  have "bit ?on 9" by (simp add: assert_bit_bits)
  from power [OF this assert_clears_nothing(1), of p] obtain m where
    m: "\<forall>i < m. \<not> pp (port_read hw ((port_yield hw ^^ i) (port_write hw ?on p)))"
      "bit (port_read hw ((port_yield hw ^^ m) (port_write hw ?on p))) 9"
      "ccs (port_read hw ((port_yield hw ^^ m) (port_write hw ?on p)))" by blast
  define p1 where "p1 = (port_yield hw ^^ m) (port_write hw ?on p)"
  have w1: "while_option (\<lambda>p. \<not> pp (port_read hw p)) (port_yield hw) (port_assert hw 9 p) = Some p1"
    using m(1,2) unfolding port_assert_def p1_def by (intro poll_first) (simp_all add: pp_def port_bit_iff)
  let ?rs = "assert_bit 4 (port_read hw p1)"
  have "bit ?rs 9" "bit ?rs 4" using m(2) by (simp_all add: assert_bit_bits p1_def)
  from reset [OF _ _ this assert_clears_nothing(2), of p1] m(2,3) obtain n where
    n: "\<forall>i < n. pr (port_read hw ((port_yield hw ^^ i) (port_write hw ?rs p1)))"
      "is_enabled (port_read hw ((port_yield hw ^^ n) (port_write hw ?rs p1)))" by (auto simp: p1_def)
  have "while_option (\<lambda>p. pr (port_read hw p)) (port_yield hw) (port_assert hw 4 p1) =
      Some ((port_yield hw ^^ n) (port_write hw ?rs p1))"
    using n unfolding port_assert_def by (intro poll_first) (simp_all add: is_enabled_def)
  with w1 n(2) show ?thesis by (simp add: reset_port_def)
qed

text \<open>A port that is powered at once and takes two turns for a reset.\<close>

definition example_port :: "(u32 \<times> nat) Port" where
  "example_port = \<lparr>port_read = fst, port_write = (\<lambda>v _. (v OR 1, 2)),
     port_yield = (\<lambda>(v, n). (if n = 1 \<and> bit v 4 then (v AND NOT 16) OR 2 else v, n - 1))\<rparr>"

theorem reset_port_enables_witness:
  "\<exists>q. reset_port example_port (0x2A1, 0) = Some q \<and> is_enabled (port_read example_port q)"
proof (rule reset_port_enables)
  fix v :: u32 and p :: "u32 \<times> nat"
  assume "bit v 9"
  then show "\<exists>n. (\<forall>i < n. \<not> pp (port_read example_port ((port_yield example_port ^^ i) (port_write example_port v p)))) \<and>
        bit (port_read example_port ((port_yield example_port ^^ n) (port_write example_port v p))) 9 \<and>
        ccs (port_read example_port ((port_yield example_port ^^ n) (port_write example_port v p)))"
    by (intro exI [of _ 0]) (simp add: example_port_def ccs_def port_bit_iff bit_simps)
next
  fix v :: u32 and p :: "u32 \<times> nat"
  assume v: "bit v 9" "bit v 4"
  have not16: "bit (NOT (16 :: u32)) n \<longleftrightarrow> n < 32 \<and> n \<noteq> 4" for n
    using bit_push_bit_iff [of 4 "1 :: u32" n] by (auto simp: bit_not_iff push_bit_eq_mult bit_simps)
  have two: "bit (2 :: u32) n \<longleftrightarrow> n = 1" for n
    using bit_push_bit_iff [of 1 "1 :: u32" n] by (auto simp: push_bit_eq_mult bit_simps)
  show "\<exists>n. (\<forall>i < n. pr (port_read example_port ((port_yield example_port ^^ i) (port_write example_port v p)))) \<and>
        is_enabled (port_read example_port ((port_yield example_port ^^ n) (port_write example_port v p)))"
    using v by (intro exI [of _ 2])
      (auto simp: example_port_def is_enabled_def ccs_def ped_def pr_def pp_def port_bit_iff bit_or_iff bit_and_iff
        not16 two bit_1_iff numeral_2_eq_2 less_Suc_eq)
qed

lemma page_size_eq_Ok:
  "page_size r = Ok sz \<longleftrightarrow> (\<exists>k < 16. op_pagesize r AND 0xFFFF = push_bit k 1 \<and> sz = 2 ^ (k + 12))"
proof -
  have low: "k < 16" if "op_pagesize r AND 0xFFFF = push_bit k 1" "k < 32" for k
  proof -
    have "op_pagesize r AND 0xFFFF = take_bit 16 (op_pagesize r)" by (simp add: take_bit_eq_mask mask_eq_exp_minus_1)
    with that have "bit (take_bit 16 (op_pagesize r)) k" by (simp add: bit_simps)
    then show ?thesis by (simp add: bit_take_bit_iff)
  qed
  show ?thesis
  proof (cases "count_ones (op_pagesize r AND 0xFFFF) = 1")
    case True
    then obtain k where "k < LENGTH(32)" and w: "op_pagesize r AND 0xFFFF = push_bit k 1"
      using count_ones_1_iff [THEN iffD1, OF True] by blast
    then have k: "k < 32" "op_pagesize r AND 0xFFFF = push_bit k 1" by simp_all
    have inj: "i = k" if "i < 16" "push_bit k (1 :: u32) = push_bit i 1" for i
      using trailing_zeros_push [of i, where 'a = 32] trailing_zeros_push [of k, where 'a = 32] k(1) that by simp
    have "page_size r = Ok (2 ^ (k + 12))"
      using True trailing_zeros_push [of k, where 'a = 32] k(1) by (simp only: page_size_def Let_def w) simp
    moreover have "k < 16" using low k by blast
    ultimately show ?thesis using w inj by auto
  next
    case False
    then have "\<not> (\<exists>k < 16. op_pagesize r AND 0xFFFF = push_bit k 1)"
      unfolding count_ones_1_iff by (auto dest!: spec less_trans [of _ 16 32])
    with False show ?thesis by (auto simp: page_size_def)
  qed
qed

text \<open>
  On a controller that stops when its run bit is cleared, and whose status bit 1 reads 0 (the
  specification reserves it), \<open>reset_xhc\<close> waits for the stop, sets the reset bit of the command
  register and returns at once, with that bit still set: the wait for the end of the reset polls
  the reset bit in the status register, where it never is.
\<close>

theorem reset_xhc_does_not_wait:
  assumes halts: "bit (op_usbsts ((device ^^ n) (clear_command_bits CMD_RUN_STOP r))) 0"
    and reserved: "\<And>i. \<not> bit (op_usbsts ((device ^^ i) (clear_command_bits CMD_RUN_STOP r))) 1"
  shows "\<exists>k \<le> n. reset_xhc device r = Some (set_command_bits CMD_HC_RESET ((device ^^ k) (clear_command_bits CMD_RUN_STOP r))) \<and>
    bit (op_usbsts ((device ^^ k) (clear_command_bits CMD_RUN_STOP r))) 0 \<and>
    (\<exists>q. reset_xhc device r = Some q \<and> bit (op_usbcmd q) 1)"
proof -
  have h: "v AND STATUS_HC_HALTED = 0 \<longleftrightarrow> \<not> bit v 0" for v :: u32
    using and_exp_eq_0_iff_not_bit [of v 0] by (simp add: STATUS_HC_HALTED_def)
  have c: "v AND CMD_HC_RESET = 0 \<longleftrightarrow> \<not> bit v 1" for v :: u32
    using and_exp_eq_0_iff_not_bit [of v 1] by (simp add: CMD_HC_RESET_def)
  from poll_ends [of "\<lambda>r. op_usbsts r AND STATUS_HC_HALTED = 0" n device "clear_command_bits CMD_RUN_STOP r"] halts
  obtain k where k: "k \<le> n" "while_option (\<lambda>r. op_usbsts r AND STATUS_HC_HALTED = 0) device (clear_command_bits CMD_RUN_STOP r) =
      Some ((device ^^ k) (clear_command_bits CMD_RUN_STOP r))" "bit (op_usbsts ((device ^^ k) (clear_command_bits CMD_RUN_STOP r))) 0"
    by (auto simp: h)
  let ?q = "set_command_bits CMD_HC_RESET ((device ^^ k) (clear_command_bits CMD_RUN_STOP r))"
  have "op_usbsts ?q AND CMD_HC_RESET = 0" using reserved [of k] by (simp add: c set_command_bits_def)
  then have "reset_xhc device r = Some ?q" using k(2) by (simp add: reset_xhc_def poll_skips)
  moreover have "bit (op_usbcmd ?q) 1"
    using bit_push_bit_iff [of 1 "1 :: u32" 1] by (simp add: set_command_bits_def CMD_HC_RESET_def bit_or_iff push_bit_eq_mult)
  ultimately show ?thesis using k(1,3) by blast
qed

definition example_op_regs :: OperationalRegisters where
  "example_op_regs = \<lparr>op_usbcmd = 5, op_usbsts = 0, op_pagesize = 1, op_crcr = 0, op_dcbaap = 0, op_config = 0\<rparr>"

text \<open>A controller that halts two moves after its run bit is cleared.\<close>

theorem reset_xhc_does_not_wait_witness:
  "\<exists>q. reset_xhc (\<lambda>r. if op_usbcmd r = 4 then r\<lparr>op_usbcmd := 12\<rparr> else r\<lparr>op_usbsts := 1\<rparr>) example_op_regs = Some q \<and> bit (op_usbcmd q) 1"
proof -
  let ?d = "\<lambda>r. if op_usbcmd r = 4 then r\<lparr>op_usbcmd := 12\<rparr> else r\<lparr>op_usbsts := 1\<rparr>"
  let ?r = "clear_command_bits CMD_RUN_STOP example_op_regs"
  have r: "op_usbcmd ?r = 4" "op_usbsts ?r = 0"
    by (simp_all add: clear_command_bits_def example_op_regs_def CMD_RUN_STOP_def)
  have moves: "op_usbcmd ((?d ^^ i) ?r) \<in> {4, 12} \<and> op_usbsts ((?d ^^ i) ?r) \<in> {0, 1}" for i
    by (induction i) (auto simp: r)
  then have "\<not> bit (op_usbsts ((?d ^^ i) ?r)) 1" for i
  proof -
    from moves [of i] have "op_usbsts ((?d ^^ i) ?r) = 0 \<or> op_usbsts ((?d ^^ i) ?r) = 1" by blast
    then show ?thesis by (auto simp: bit_1_iff)
  qed
  moreover have "(?d ^^ 2) ?r = ?d (?d ?r)" by (simp only: numeral_2_eq_2 funpow.simps o_apply id_apply)
  then have "bit (op_usbsts ((?d ^^ 2) ?r)) 0" using r by simp
  ultimately show ?thesis using reset_xhc_does_not_wait [of 2 ?d example_op_regs] by blast
qed

end
