(* ===== verification/CommandRing.thy ===== *)
theory CommandRing
  imports Trb
begin

text \<open>
  \<open>CommandRing\<close> of \<open>xhci.rs\<close>, used for the command ring and for every transfer ring: the
  producer side of a TRB ring. It writes an entry with its own cycle state, flips the cycle
  bit to hand the entry to the controller, and passes the Link entry at the end of the
  segment, where its cycle state flips.
\<close>

record CommandRing =
  cr_ring :: TrbRing
  cycle_state_ours :: bool

definition CommandRing_default :: "u64 \<Rightarrow> CommandRing result" where
  "CommandRing_default addr =
     (let ring = TrbRing_new addr in
      rbind (trb_link (phys_addr ring)) (\<lambda>link_trb.
      rbind (unwrap (ring_write (NUM_TRB - 1) link_trb ring)) (\<lambda>ring'.
        Ok \<lparr>cr_ring = ring', cycle_state_ours = False\<rparr>)))"

definition ring_phys_addr :: "CommandRing \<Rightarrow> u64" where
  "ring_phys_addr cr = ring_addr (cr_ring cr)"

text \<open>
  \<open>push\<close>: the outcome and the ring it leaves. The entry is cleared before it is written;
  the returned address is computed from the address of the first entry and the offset.
\<close>

definition push_advance :: "u64 \<Rightarrow> CommandRing \<Rightarrow> u64 result \<times> CommandRing" where
  "push_advance dst cr =
     (let ours = cycle_state_ours cr in
      case advance_index (\<not> ours) (cr_ring cr) of
        Err e \<Rightarrow> (Err e, cr)
      | Panic e \<Rightarrow> (Panic e, cr)
      | Ok ring \<Rightarrow>
         (case rbind (current ring) trb_type of
            Err e \<Rightarrow> (Err e, cr\<lparr>cr_ring := ring\<rparr>)
          | Panic e \<Rightarrow> (Panic e, cr\<lparr>cr_ring := ring\<rparr>)
          | Ok ty \<Rightarrow>
             (if ty = trb_type_code Link
              then (case advance_index (\<not> ours) ring of
                      Err e \<Rightarrow> (Err e, cr\<lparr>cr_ring := ring\<rparr>)
                    | Panic e \<Rightarrow> (Panic e, cr\<lparr>cr_ring := ring\<rparr>)
                    | Ok ring' \<Rightarrow> (Ok dst, cr\<lparr>cr_ring := ring', cycle_state_ours := \<not> ours\<rparr>))
              else (Ok dst, cr\<lparr>cr_ring := ring\<rparr>))))"

definition push :: "GenericTrbEntry \<Rightarrow> CommandRing \<Rightarrow> u64 result \<times> CommandRing" where
  "push src cr =
     (let ring = cr_ring cr; ours = cycle_state_ours cr in
      case rbind (current ring) cycle_state of
        Err e \<Rightarrow> (Err e, cr)
      | Panic e \<Rightarrow> (Panic e, cr)
      | Ok c \<Rightarrow>
         (if c \<noteq> ours then (Err ''Command Ring is Full'', cr)
          else (case rbind (current_ptr ring) (\<lambda>dst_ptr.
                  rbind (sub_word dst_ptr (ring_addr ring)) (\<lambda>ofs.
                  rbind (add_word (phys_addr ring) ofs) (\<lambda>dst_phys_addr.
                  rbind (unwrap (ring_write (current_index ring) default_trb ring)) (\<lambda>ring1.
                  rbind (set_cycle_state ours src) (\<lambda>src'.
                  rbind (write_current src' ring1) (\<lambda>ring2. Ok (dst_phys_addr, ring2)))))))  of
                  Err e \<Rightarrow> (Err e, cr)
                | Panic e \<Rightarrow> (Panic e, cr)
                | Ok (dst, ring2) \<Rightarrow> push_advance dst (cr\<lparr>cr_ring := ring2\<rparr>))))"

fun push_all :: "GenericTrbEntry list \<Rightarrow> CommandRing \<Rightarrow> u64 list result \<times> CommandRing" where
  "push_all [] cr = (Ok [], cr)"
| "push_all (x # xs) cr =
     (case push x cr of
        (Ok a, cr') \<Rightarrow> (case push_all xs cr' of (r, cr'') \<Rightarrow> (rbind r (\<lambda>as. Ok (a # as)), cr''))
      | (Err e, cr') \<Rightarrow> (Err e, cr')
      | (Panic e, cr') \<Rightarrow> (Panic e, cr'))"

section \<open>The abstract ring\<close>

text \<open>
  After \<open>n\<close> pushes the ring is in lap \<open>n div 15\<close> at slot \<open>n mod 15\<close>. The entries of the laps
  are told apart by their cycle bit: \<open>lap_cycle j\<close> for the \<open>j\<close>-th entry pushed. A ring at
  \<open>n\<close> holds the entries of \<open>hist\<close> that no later entry has overwritten, and the slot of the
  next push still has the bit of the lap before.
\<close>

definition lap_cycle :: "nat \<Rightarrow> bool" where
  "lap_cycle j \<longleftrightarrow> even (j div 15)"

definition link_control :: u32 where
  "link_control = set_field (set_field 0 10 6 (trb_type_code Link)) 1 1 1"

definition ring_at :: "GenericTrbEntry list \<Rightarrow> CommandRing \<Rightarrow> bool" where
  "ring_at hist cr \<longleftrightarrow>
     (let n = length hist; r = cr_ring cr in
      length (trbs r) = 16 \<and> current_index r = n mod 15 \<and> cycle_state_ours cr = (\<not> lap_cycle n) \<and>
      unat (ring_addr r) + 256 \<le> 2 ^ 64 \<and>
      trbs r ! 15 = with_cycle (\<not> lap_cycle n) \<lparr>trb_data = ring_addr r, trb_option = 0, trb_control = link_control\<rparr> \<and>
      (\<forall>j < n. n \<le> j + 15 \<longrightarrow> trbs r ! (j mod 15) = with_cycle (lap_cycle j) (hist ! j)) \<and>
      (\<forall>k < 15. n \<le> k \<longrightarrow> trbs r ! k = default_trb) \<and>
      (\<forall>e \<in> set hist. get_field (trb_control e) 10 6 \<noteq> trb_type_code Link))"

lemma lap_cycle_15: "15 \<le> n \<Longrightarrow> lap_cycle (n - 15) = (\<not> lap_cycle n)"
proof -
  assume "15 \<le> n"
  then have "n div 15 = Suc ((n - 15) div 15)" by (simp add: le_div_geq)
  then show ?thesis by (simp add: lap_cycle_def)
qed

lemma lap_cycle_Suc: "lap_cycle (Suc n) = (if n mod 15 = 14 then \<not> lap_cycle n else lap_cycle n)"
  by (simp add: lap_cycle_def div_Suc mod_Suc)

lemma default_trb_cycle: "with_cycle False default_trb = default_trb"
  by (simp add: with_cycle_def default_trb_def set_field_def)

text \<open>What every slot holds before the next push.\<close>

lemma slot_owner:
  assumes "k < 15" "k < n"
  shows "\<exists>j < n. n \<le> j + 15 \<and> j mod 15 = k \<and> (n mod 15 \<le> k \<longrightarrow> lap_cycle j = (\<not> lap_cycle n))"
proof -
  define q i where "q = n div 15" and "i = n mod 15"
  then have n: "n = q * 15 + i" "i < 15" by simp_all
  show ?thesis
  proof (cases "k < i")
    case True
    with n assms show ?thesis by (intro exI [of _ "q * 15 + k"]) simp
  next
    case False
    with n assms(2) obtain p where q: "q = Suc p" by (cases q) auto
    then have "n div 15 = Suc p" by (simp add: q_def)
    then have "lap_cycle (p * 15 + k) = (\<not> lap_cycle n)" using assms(1) by (simp add: lap_cycle_def)
    with False n q assms(1) show ?thesis by (intro exI [of _ "p * 15 + k"]) simp
  qed
qed

lemma ring_at_slot:
  assumes "ring_at hist cr" and "k < 15"
  shows "get_field (trb_control (trbs (cr_ring cr) ! k)) 10 6 \<noteq> trb_type_code Link \<and>
    (length hist mod 15 \<le> k \<longrightarrow> bit (trb_control (trbs (cr_ring cr) ! k)) 0 = cycle_state_ours cr)"
proof (cases "length hist \<le> k")
  case True
  with assms have "trbs (cr_ring cr) ! k = default_trb" "cycle_state_ours cr = (\<not> lap_cycle (length hist))"
    by (auto simp: ring_at_def Let_def)
  with True assms(2) show ?thesis by (simp add: default_trb_def get_field_def lap_cycle_def)
next
  case False
  with slot_owner [OF assms(2), of "length hist"] obtain j where j: "j < length hist" "length hist \<le> j + 15"
    "j mod 15 = k" "length hist mod 15 \<le> k \<longrightarrow> lap_cycle j = (\<not> lap_cycle (length hist))" by auto
  then have "trbs (cr_ring cr) ! k = with_cycle (lap_cycle j) (hist ! j)" "hist ! j \<in> set hist"
    "cycle_state_ours cr = (\<not> lap_cycle (length hist))"
    using assms(1) by (auto simp: ring_at_def Let_def)
  with assms(1) j(4) show ?thesis by (auto simp: ring_at_def Let_def)
qed

lemma advance_index_eq:
  assumes "current_index r < length (trbs r)" and "bit (trb_control (trbs r ! current_index r)) 0 = (\<not> c)"
  shows "advance_index c r = Ok (r\<lparr>trbs := (trbs r)[current_index r := with_cycle c (trbs r ! current_index r)],
     current_index := (current_index r + 1) mod length (trbs r)\<rparr>)"
  using assms by (simp add: advance_index_def current_def ring_trb_def)

lemma current_ptr_offset:
  assumes "i < 16" "unat (a :: u64) + 256 \<le> 2 ^ 64"
  shows "rbind (sub_word (a + of_nat (16 * i)) a) (\<lambda>ofs. add_word a ofs) = Ok (a + of_nat (16 * i))"
proof -
  have u: "unat (of_nat (16 * i) :: u64) = 16 * i" using assms(1) by (simp add: unat_of_nat del: of_nat_mult)
  then have "unat (a + of_nat (16 * i)) = unat a + 16 * i" using assms by (subst unat_plus_if') (simp del: of_nat_mult)
  then have "a \<le> a + of_nat (16 * i)" by (simp add: word_le_nat_alt del: of_nat_mult)
  then show ?thesis using assms u by (simp add: checked_defs del: of_nat_mult)
qed

lemma push_eq:
  assumes "ring_at hist cr"
  defines "r \<equiv> cr_ring cr" and "i \<equiv> length hist mod 15" and "ours \<equiv> cycle_state_ours cr"
  shows "push src cr = push_advance (ring_addr r + of_nat (16 * i))
     (cr\<lparr>cr_ring := r\<lparr>trbs := (trbs r)[i := with_cycle ours src]\<rparr>\<rparr>)"
proof -
  have i: "i < 15" by (simp add: i_def)
  have r: "length (trbs r) = 16" "current_index r = i" "unat (ring_addr r) + 256 \<le> 2 ^ 64"
    using assms(1) by (auto simp: ring_at_def Let_def r_def i_def)
  have "bit (trb_control (trbs r ! i)) 0 = ours"
    using ring_at_slot [OF assms(1) i] by (simp add: r_def i_def ours_def)
  then have cyc: "rbind (current r) cycle_state = Ok ours" using r i by (simp add: current_def ring_trb_def)
  have ptr: "current_ptr r = Ok (ring_addr r + of_nat (16 * i))" using r i by (simp add: current_ptr_def)
  have "rbind (sub_word (ring_addr r + of_nat (16 * i)) (ring_addr r)) (\<lambda>ofs. add_word (phys_addr r) ofs) =
      Ok (ring_addr r + of_nat (16 * i))"
    using current_ptr_offset [of i "ring_addr r"] r(3) i by (simp add: phys_addr_def del: rbind_eq_Ok of_nat_mult)
  then obtain ofs where ofs: "sub_word (ring_addr r + of_nat (16 * i)) (ring_addr r) = Ok ofs"
    "add_word (phys_addr r) ofs = Ok (ring_addr r + of_nat (16 * i))" by (auto simp del: of_nat_mult)
  show ?thesis
    using r i ofs unfolding push_def Let_def
    by (simp add: cyc ptr ring_write_def write_current_def flip: r_def ours_def del: of_nat_mult)
qed

text \<open>The slots once an entry is written and handed over, before the link entry is passed.\<close>

definition slots_after :: "GenericTrbEntry list \<Rightarrow> CommandRing \<Rightarrow> GenericTrbEntry \<Rightarrow> GenericTrbEntry list" where
  "slots_after hist cr src = (trbs (cr_ring cr))[length hist mod 15 := with_cycle (\<not> cycle_state_ours cr) src]"

lemma slots_after_facts:
  fixes src :: GenericTrbEntry
  assumes at: "ring_at hist cr"
  defines "ts \<equiv> slots_after hist cr src" and "n \<equiv> length hist"
  shows "length ts = 16" and "ts ! 15 = trbs (cr_ring cr) ! 15"
    and "j < Suc n \<Longrightarrow> Suc n \<le> j + 15 \<Longrightarrow> ts ! (j mod 15) = with_cycle (lap_cycle j) ((hist @ [src]) ! j)"
    and "k < 15 \<Longrightarrow> Suc n \<le> k \<Longrightarrow> ts ! k = default_trb"
proof -
  define i where "i = n mod 15"
  have i: "i < 15" by (simp add: i_def)
  have r: "length (trbs (cr_ring cr)) = 16" "cycle_state_ours cr = (\<not> lap_cycle n)"
    "\<And>j. j < n \<Longrightarrow> n \<le> j + 15 \<Longrightarrow> trbs (cr_ring cr) ! (j mod 15) = with_cycle (lap_cycle j) (hist ! j)"
    "\<And>k. k < 15 \<Longrightarrow> n \<le> k \<Longrightarrow> trbs (cr_ring cr) ! k = default_trb"
    using at by (auto simp: ring_at_def Let_def n_def)
  have ts: "ts = (trbs (cr_ring cr))[i := with_cycle (\<not> cycle_state_ours cr) src]"
    by (simp add: ts_def slots_after_def i_def n_def)
  show "length ts = 16" "ts ! 15 = trbs (cr_ring cr) ! 15" using r(1) i by (simp_all add: ts)
  show "ts ! k = default_trb" if "k < 15" "Suc n \<le> k" using that r(1,4) by (simp add: ts i_def)
  assume j: "j < Suc n" "Suc n \<le> j + 15"
  show "ts ! (j mod 15) = with_cycle (lap_cycle j) ((hist @ [src]) ! j)"
  proof (cases "j = n")
    case True
    then show ?thesis using r(1,2) i by (simp add: ts i_def n_def)
  next
    case False
    with j have j: "j < n" "n \<le> j + 15" "n < j + 15" by simp_all
    have "j mod 15 \<noteq> i"
    proof
      assume "j mod 15 = i"
      then have "15 dvd n - j" using j(1) mod_eq_dvd_iff_nat [of j n 15] by (simp add: i_def)
      then show False using j by (auto dest: dvd_imp_le)
    qed
    with r(3) [OF j(1,2)] j(1) show ?thesis by (simp add: ts nth_append n_def)
  qed
qed

lemma push_hands_over:
  assumes at: "ring_at hist cr"
  defines "r \<equiv> cr_ring cr" and "i \<equiv> length hist mod 15"
  shows "advance_index (\<not> cycle_state_ours cr) (r\<lparr>trbs := (trbs r)[i := with_cycle (cycle_state_ours cr) src]\<rparr>) =
    Ok (r\<lparr>trbs := slots_after hist cr src, current_index := i + 1\<rparr>)"
proof -
  have r: "length (trbs r) = 16" "current_index r = i" using at by (auto simp: ring_at_def Let_def r_def i_def)
  have "i < 15" by (simp add: i_def)
  with r show ?thesis by (subst advance_index_eq) (simp_all add: slots_after_def flip: r_def i_def)
qed

text \<open>One push: the address of the slot, and the ring that holds one more entry.\<close>

lemma push_inside:
  assumes at: "ring_at hist cr" and src: "get_field (trb_control src) 10 6 \<noteq> trb_type_code Link" and i: "length hist mod 15 \<noteq> 14"
  defines "cr' \<equiv> cr\<lparr>cr_ring := (cr_ring cr)\<lparr>trbs := slots_after hist cr src, current_index := length hist mod 15 + 1\<rparr>\<rparr>"
  shows "push src cr = (Ok (ring_addr (cr_ring cr) + of_nat (16 * (length hist mod 15))), cr') \<and> ring_at (hist @ [src]) cr'"
proof -
  let ?i = "length hist mod 15" let ?ts = "slots_after hist cr src"
  have i1: "?i + 1 < 15" using i mod_less_divisor [of 15 "length hist"] by linarith
  note f = slots_after_facts [OF at, where src = src]
  have ty: "rbind (current ((cr_ring cr)\<lparr>trbs := ?ts, current_index := ?i + 1\<rparr>)) trb_type = Ok (get_field (trb_control (?ts ! (?i + 1))) 10 6)"
    using i1 f(1) by (simp add: current_def ring_trb_def)
  have "?ts ! (?i + 1) = trbs (cr_ring cr) ! (?i + 1)" by (simp add: slots_after_def)
  then have nl: "get_field (trb_control (?ts ! (?i + 1))) 10 6 \<noteq> trb_type_code Link" using ring_at_slot [OF at i1] by simp
  have "push src cr = (Ok (ring_addr (cr_ring cr) + of_nat (16 * ?i)), cr')"
    unfolding push_eq [OF at] push_advance_def Let_def using push_hands_over [OF at, of src] ty nl
    by (simp add: cr'_def del: rbind_eq_Ok of_nat_mult)
  moreover have "ring_at (hist @ [src]) cr'"
    using at i src f unfolding ring_at_def Let_def by (auto simp: cr'_def lap_cycle_Suc mod_Suc)
  ultimately show ?thesis ..
qed

lemma push_wraps:
  assumes at: "ring_at hist cr" and src: "get_field (trb_control src) 10 6 \<noteq> trb_type_code Link" and i: "length hist mod 15 = 14"
  defines "ts \<equiv> slots_after hist cr src" and "ours \<equiv> cycle_state_ours cr"
  defines "cr' \<equiv> cr\<lparr>cr_ring := (cr_ring cr)\<lparr>trbs := ts[15 := with_cycle (\<not> ours) (ts ! 15)], current_index := 0\<rparr>, cycle_state_ours := \<not> ours\<rparr>"
  shows "push src cr = (Ok (ring_addr (cr_ring cr) + of_nat (16 * (length hist mod 15))), cr') \<and> ring_at (hist @ [src]) cr'"
proof -
  let ?r = "(cr_ring cr)\<lparr>trbs := ts, current_index := 15\<rparr>"
  note f = slots_after_facts [OF at, where src = src, folded ts_def]
  have e15: "ts ! 15 = with_cycle ours \<lparr>trb_data = ring_addr (cr_ring cr), trb_option = 0, trb_control = link_control\<rparr>"
    using at f(2) by (auto simp: ring_at_def Let_def ours_def)
  have "get_field link_control 10 6 = trb_type_code Link" by (simp add: link_control_def get_set_field get_set_field_other)
  then have ty: "rbind (current ?r) trb_type = Ok (trb_type_code Link)" using f(1) e15 by (simp add: current_def ring_trb_def)
  have adv: "advance_index (\<not> ours) ?r = Ok ((cr_ring cr)\<lparr>trbs := ts[15 := with_cycle (\<not> ours) (ts ! 15)], current_index := 0\<rparr>)"
    using f(1) e15 by (subst advance_index_eq) simp_all
  have over: "advance_index (\<not> ours) ((cr_ring cr)\<lparr>trbs := (trbs (cr_ring cr))[14 := with_cycle ours src]\<rparr>) = Ok ?r"
    using push_hands_over [OF at, of src] by (simp add: i ts_def ours_def)
  have "push src cr = (Ok (ring_addr (cr_ring cr) + of_nat (16 * (length hist mod 15))), cr')"
    unfolding push_eq [OF at] push_advance_def Let_def i using over ty adv
    by (simp add: cr'_def del: rbind_eq_Ok of_nat_mult flip: ours_def)
  moreover have "ring_at (hist @ [src]) cr'"
    using at src i f e15 unfolding ring_at_def Let_def by (auto simp: cr'_def ours_def lap_cycle_Suc mod_Suc)
  ultimately show ?thesis ..
qed

lemma push_step:
  assumes "ring_at hist cr" and "get_field (trb_control src) 10 6 \<noteq> trb_type_code Link"
  shows "\<exists>cr'. push src cr = (Ok (ring_addr (cr_ring cr) + of_nat (16 * (length hist mod 15))), cr') \<and>
    ring_at (hist @ [src]) cr' \<and> ring_addr (cr_ring cr') = ring_addr (cr_ring cr)"
  using push_inside [OF assms] push_wraps [OF assms] by (cases "length hist mod 15 = 14") fastforce+

lemma push_all_at:
  assumes "ring_at hist cr" and "\<forall>x \<in> set xs. get_field (trb_control x) 10 6 \<noteq> trb_type_code Link"
  shows "\<exists>cr'. push_all xs cr = (Ok (map (\<lambda>j. ring_addr (cr_ring cr) + of_nat (16 * (j mod 15)))
       [length hist..<length hist + length xs]), cr') \<and> ring_at (hist @ xs) cr'"
  using assms
proof (induction xs arbitrary: hist cr)
  case (Cons x xs)
  from push_step [OF Cons.prems(1), of x] Cons.prems(2) obtain cr1 where
    p: "push x cr = (Ok (ring_addr (cr_ring cr) + of_nat (16 * (length hist mod 15))), cr1)"
    and at: "ring_at (hist @ [x]) cr1" and ra: "ring_addr (cr_ring cr1) = ring_addr (cr_ring cr)" by auto
  from Cons.IH [OF at] Cons.prems(2) obtain cr2 where
    q: "push_all xs cr1 = (Ok (map (\<lambda>j. ring_addr (cr_ring cr) + of_nat (16 * (j mod 15)))
       [Suc (length hist)..<Suc (length hist + length xs)]), cr2)" "ring_at (hist @ x # xs) cr2"
    unfolding ra by auto
  have "[length hist..<length hist + length (x # xs)] = length hist # [Suc (length hist)..<Suc (length hist + length xs)]"
    by (simp add: upt_rec)
  with p q show ?case by (simp del: upt_Suc of_nat_mult)
qed simp

lemma CommandRing_default_at:
  assumes "unat addr + 256 \<le> 2 ^ 64"
  shows "\<exists>cr. CommandRing_default addr = Ok cr \<and> ring_at [] cr \<and> ring_addr (cr_ring cr) = addr"
proof -
  let ?link = "\<lparr>trb_data = addr, trb_option = 0, trb_control = link_control\<rparr>"
  have link: "trb_link addr = Ok ?link"
    by (simp add: trb_link_def set_trb_type_eq set_toggle_cycle_eq default_trb_def link_control_def)
  have "with_cycle False ?link = ?link" by (simp add: with_cycle_def link_control_def set_field_def)
  then show ?thesis using assms
    by (auto simp: CommandRing_default_def Let_def link ring_write_def phys_addr_def TrbRing_new_def NUM_TRB_def
        ring_at_def lap_cycle_def nth_list_update)
qed

section \<open>Properties\<close>

text \<open>
  C2. On a new ring, whose address leaves room for its 16 entries, every sequence of pushes of
  entries that are not Link succeeds; the \<open>j\<close>-th push returns the address of slot
  \<open>j mod 15\<close>; and the ring then holds the last 15 entries pushed, each in its slot with the
  cycle bit of its lap and otherwise as it was given, while the slot of the next push
  carries the opposite of the bit that push will leave.
\<close>

theorem push_all_ring:
  assumes "unat addr + 256 \<le> 2 ^ 64" and "\<forall>x \<in> set xs. get_field (trb_control x) 10 6 \<noteq> trb_type_code Link"
  shows "\<exists>cr cr'. CommandRing_default addr = Ok cr \<and>
    push_all xs cr = (Ok (map (\<lambda>j. addr + of_nat (16 * (j mod 15))) [0..<length xs]), cr') \<and>
    (\<forall>j < length xs. length xs \<le> j + 15 \<longrightarrow> trbs (cr_ring cr') ! (j mod 15) = with_cycle (even (j div 15)) (xs ! j)) \<and>
    bit (trb_control (trbs (cr_ring cr') ! (length xs mod 15))) 0 = odd (length xs div 15)"
proof -
  from CommandRing_default_at [OF assms(1)] obtain cr where
    cr: "CommandRing_default addr = Ok cr" "ring_at [] cr" "ring_addr (cr_ring cr) = addr" by blast
  from push_all_at [OF cr(2) assms(2)] obtain cr' where
    p: "push_all xs cr = (Ok (map (\<lambda>j. addr + of_nat (16 * (j mod 15))) [0..<length xs]), cr')"
    and at: "ring_at xs cr'" by (auto simp: cr(3))
  have "\<forall>j < length xs. length xs \<le> j + 15 \<longrightarrow> trbs (cr_ring cr') ! (j mod 15) = with_cycle (even (j div 15)) (xs ! j)"
    using at by (auto simp: ring_at_def Let_def lap_cycle_def)
  moreover have "cycle_state_ours cr' = odd (length xs div 15)" using at by (simp add: ring_at_def Let_def lap_cycle_def)
  ultimately show ?thesis using cr(1) p ring_at_slot [OF at, of "length xs mod 15"] by auto
qed

theorem push_all_ring_witness:
  "\<exists>cr cr'. CommandRing_default 0x5000 = Ok cr \<and>
    push_all (replicate 16 (normal_in 0x9000 512)) cr = (Ok (map (\<lambda>j. 0x5000 + of_nat (16 * (j mod 15))) [0..<16]), cr') \<and>
    trbs (cr_ring cr') ! 0 = normal_in 0x9000 512 \<and> trbs (cr_ring cr') ! 1 = with_cycle True (normal_in 0x9000 512)"
proof -
  let ?xs = "replicate 16 (normal_in 0x9000 512)"
  have "get_field (trb_control (normal_in 0x9000 512)) 10 6 \<noteq> trb_type_code Link"
    by (simp add: normal_in_def field_defs get_field_def take_bit_eq_mask mask_eq_exp_minus_1 drop_bit_eq_div)
  then obtain cr cr' where c: "CommandRing_default 0x5000 = Ok cr"
    "push_all ?xs cr = (Ok (map (\<lambda>j. 0x5000 + of_nat (16 * (j mod 15))) [0..<16]), cr')"
    and t: "\<forall>j < 16. 16 \<le> j + 15 \<longrightarrow> trbs (cr_ring cr') ! (j mod 15) = with_cycle (even (j div 15)) (?xs ! j)"
    using push_all_ring [of "0x5000" ?xs] by (auto simp del: upt_Suc)
  from t [rule_format, of 15] have "trbs (cr_ring cr') ! 0 = normal_in 0x9000 512"
    by (simp add: normal_in_def field_defs with_cycle_def set_field_def)
  with c t [rule_format, of 1] show ?thesis by auto
qed

end
