(* ===== verification/UsbDescriptors.thy ===== *)
theory UsbDescriptors
  imports Bytes BitFields
begin

text \<open>
  The USB descriptors of \<open>xhci.rs\<close> and the iterator that walks the bytes of a configuration:
  the layouts of the packed structures, \<open>DescriptorIterator::next\<close>, and the collection of all
  descriptors, which need not end. Then the endpoints and the device context indices that
  \<open>handle_mass_storage_device\<close> takes from the list.
\<close>

section \<open>Descriptors\<close>

datatype UsbDescriptorType = DeviceType | ConfigType | StringType | InterfaceType | EndpointDescType

primrec descriptor_type_code :: "UsbDescriptorType \<Rightarrow> u8" where
  "descriptor_type_code DeviceType = 1"
| "descriptor_type_code ConfigType = 2"
| "descriptor_type_code StringType = 3"
| "descriptor_type_code InterfaceType = 4"
| "descriptor_type_code EndpointDescType = 5"

record ConfigDescriptor =
  cfg_length :: u8
  total_length :: u16
  num_of_interfaces :: u8
  config_value :: u8
  config_string_index :: u8
  cfg_attributes :: u8
  max_power :: u8

record InterfaceDescriptor =
  if_length :: u8
  interface_number :: u8
  alt_setting :: u8
  num_of_endpoints :: u8
  interface_class :: u8
  interface_subclass :: u8
  interface_protocol :: u8
  interface_index :: u8

record EndpointDescriptor =
  ed_length :: u8
  endpoint_address :: u8
  ed_attributes :: u8
  ed_max_packet_size :: u16
  interval :: u8

datatype UsbDescriptor =
    ConfigD ConfigDescriptor
  | InterfaceD InterfaceDescriptor
  | EndpointD EndpointDescriptor
  | UnknownD u8 u8

text \<open>The packed layouts; byte 1 is the type, which the constructor of \<open>UsbDescriptor\<close> carries.\<close>

definition decode_config :: "u8 list \<Rightarrow> ConfigDescriptor" where
  "decode_config b = \<lparr>cfg_length = b ! 0, total_length = of_nat (le_at b 2 2), num_of_interfaces = b ! 4,
     config_value = b ! 5, config_string_index = b ! 6, cfg_attributes = b ! 7, max_power = b ! 8\<rparr>"

definition decode_interface :: "u8 list \<Rightarrow> InterfaceDescriptor" where
  "decode_interface b = \<lparr>if_length = b ! 0, interface_number = b ! 2, alt_setting = b ! 3, num_of_endpoints = b ! 4,
     interface_class = b ! 5, interface_subclass = b ! 6, interface_protocol = b ! 7, interface_index = b ! 8\<rparr>"

definition decode_endpoint :: "u8 list \<Rightarrow> EndpointDescriptor" where
  "decode_endpoint b = \<lparr>ed_length = b ! 0, endpoint_address = b ! 2, ed_attributes = b ! 3,
     ed_max_packet_size = of_nat (le_at b 4 2), interval = b ! 6\<rparr>"

section \<open>DescriptorIterator\<close>

text \<open>\<open>r.ok()?\<close> in a function that returns an option: an error ends the iteration.\<close>

definition ok_or_none :: "'a result \<Rightarrow> ('a \<Rightarrow> 'b option) \<Rightarrow> 'b option" where
  "ok_or_none r f = (case r of Ok x \<Rightarrow> f x | _ \<Rightarrow> None)"

definition parse_descriptor :: "u8 list \<Rightarrow> u8 \<Rightarrow> u8 \<Rightarrow> UsbDescriptor option" where
  "parse_descriptor buf desc_len desc_type =
     (if desc_type = descriptor_type_code ConfigType
      then ok_or_none (copy_from_slice 9 decode_config buf) (\<lambda>d. Some (ConfigD d))
      else if desc_type = descriptor_type_code InterfaceType
      then ok_or_none (copy_from_slice 9 decode_interface buf) (\<lambda>d. Some (InterfaceD d))
      else if desc_type = descriptor_type_code EndpointDescType
      then ok_or_none (copy_from_slice 7 decode_endpoint buf) (\<lambda>d. Some (EndpointD d))
      else Some (UnknownD desc_len desc_type))"

definition descriptor_next :: "u8 list \<Rightarrow> usize \<Rightarrow> (UsbDescriptor option \<times> usize) result" where
  "descriptor_next data index =
     (if index \<ge> length data then Ok (None, index)
      else let buf = drop index data in
        rbind (byte_index buf 0) (\<lambda>desc_len.
        rbind (byte_index buf 1) (\<lambda>desc_type.
          case parse_descriptor buf desc_len desc_type of
            None \<Rightarrow> Ok (None, index)
          | Some d \<Rightarrow> Ok (Some d, index + unat desc_len))))"

text \<open>
  \<open>iter.collect()\<close>: \<open>None\<close> when the walk never ends.
\<close>

partial_function (option) collect_descriptors :: "u8 list \<Rightarrow> usize \<Rightarrow> UsbDescriptor list result option" where
  "collect_descriptors data index =
     (case descriptor_next data index of
        Ok (None, _) \<Rightarrow> Some (Ok [])
      | Ok (Some d, j) \<Rightarrow>
          Option.bind (collect_descriptors data j) (\<lambda>r. Some (rbind r (\<lambda>ds. Ok (d # ds))))
      | Err e \<Rightarrow> Some (Err e)
      | Panic e \<Rightarrow> Some (Panic e))"

section \<open>Endpoints of a mass storage device\<close>

record Selection =
  last_config :: "ConfigDescriptor option"
  usb_interface :: "InterfaceDescriptor option"
  bulk_in_ep :: "EndpointDescriptor option"
  bulk_out_ep :: "EndpointDescriptor option"
  ep_desc_list :: "EndpointDescriptor list"

definition Selection_start :: Selection where
  "Selection_start = \<lparr>last_config = None, usb_interface = None, bulk_in_ep = None, bulk_out_ep = None, ep_desc_list = []\<rparr>"

definition select_endpoint :: "EndpointDescriptor \<Rightarrow> Selection \<Rightarrow> Selection" where
  "select_endpoint ep s =
     (let s = (if ed_attributes ep AND 3 = 2
               then if endpoint_address ep AND 0x80 \<noteq> 0 then s\<lparr>bulk_in_ep := Some ep\<rparr> else s\<lparr>bulk_out_ep := Some ep\<rparr>
               else s)
      in s\<lparr>ep_desc_list := ep_desc_list s @ [ep]\<rparr>)"

fun select_loop :: "UsbDescriptor list \<Rightarrow> Selection \<Rightarrow> Selection" where
  "select_loop [] s = s"
| "select_loop (ConfigD c # ds) s =
     (if usb_interface s \<noteq> None then s else select_loop ds (s\<lparr>last_config := Some c, ep_desc_list := []\<rparr>))"
| "select_loop (InterfaceD i # ds) s = select_loop ds (s\<lparr>usb_interface := Some i\<rparr>)"
| "select_loop (EndpointD ep # ds) s = select_loop ds (select_endpoint ep s)"
| "select_loop (UnknownD _ _ # ds) s = select_loop ds s"

definition select_endpoints ::
  "UsbDescriptor list \<Rightarrow> (ConfigDescriptor \<times> InterfaceDescriptor \<times> EndpointDescriptor \<times> EndpointDescriptor) result" where
  "select_endpoints ds =
     (let s = select_loop ds Selection_start in
      rbind (ok_or (last_config s) ''Config descriptor not found'') (\<lambda>c.
      rbind (ok_or (usb_interface s) ''Interface descriptor not found'') (\<lambda>i.
      rbind (ok_or (bulk_in_ep s) ''Bulk IN endpoint not found'') (\<lambda>bi.
      rbind (ok_or (bulk_out_ep s) ''Bulk OUT endpoint not found'') (\<lambda>bo. Ok (c, i, bi, bo))))))"

definition bulk_out_dci :: "EndpointDescriptor \<Rightarrow> usize result" where
  "bulk_out_dci ep =
     (if endpoint_address ep AND 0x80 = 0
      then rbind (mul_word (endpoint_address ep AND 0xF) 2) (\<lambda>n. Ok (unat n))
      else Err ''OUT endpoint has IN direction bit set'')"

definition bulk_in_dci :: "EndpointDescriptor \<Rightarrow> usize result" where
  "bulk_in_dci ep =
     (if endpoint_address ep AND 0x80 \<noteq> 0
      then rbind (mul_word (endpoint_address ep AND 0xF) 2) (\<lambda>n. rbind (add_word n 1) (\<lambda>n. Ok (unat n)))
      else Err ''IN endpoint has OUT direction bit set'')"

definition is_bulk_only_storage :: "UsbDescriptor \<Rightarrow> bool" where
  "is_bulk_only_storage d =
     (case d of InterfaceD i \<Rightarrow> interface_class i = 8 \<and> interface_subclass i = 6 \<and> interface_protocol i = 0x50
      | _ \<Rightarrow> False)"

section \<open>The walk over the bytes\<close>

lemmas collect_step = collect_descriptors.simps

lemma collect_done: "descriptor_next data i = Ok (None, j) \<Longrightarrow> collect_descriptors data i = Some (Ok [])"
  by (simp add: collect_step [of data i])

lemma collect_more:
  "descriptor_next data i = Ok (Some d, j) \<Longrightarrow>
   collect_descriptors data i = Option.bind (collect_descriptors data j) (\<lambda>r. Some (rbind r (\<lambda>ds. Ok (d # ds))))"
  by (simp add: collect_step [of data i])

lemma collect_panic: "descriptor_next data i = Panic e \<Longrightarrow> collect_descriptors data i = Some (Panic e)"
  by (simp add: collect_step [of data i])

lemma collect_past_end: "length data \<le> i \<Longrightarrow> collect_descriptors data i = Some (Ok [])"
  by (rule collect_done) (simp add: descriptor_next_def)

lemma descriptor_next_not_Err: "descriptor_next data i \<noteq> Err e"
  by (simp add: descriptor_next_def byte_index_def Let_def split: option.split)

lemma descriptor_next_index:
  "descriptor_next data i = Ok (Some d, j) \<Longrightarrow> i < length data \<and> j = i + unat (data ! i)"
  by (auto simp: descriptor_next_def byte_index_def Let_def split: if_splits option.splits)

text \<open>The indices that the walk visits.\<close>

inductive visits :: "u8 list \<Rightarrow> usize \<Rightarrow> usize \<Rightarrow> bool" for data where
  here: "visits data i i"
| step: "visits data i k" if "descriptor_next data i = Ok (Some d, j)" "visits data j k"

inductive_cases visitsE: "visits data i k"

definition stuck_at :: "u8 list \<Rightarrow> usize \<Rightarrow> bool" where
  "stuck_at data k \<longleftrightarrow> (\<exists>d. descriptor_next data k = Ok (Some d, k))"

lemma collect_ends_unless_stuck:
  "(\<And>k. visits data i k \<Longrightarrow> \<not> stuck_at data k) \<Longrightarrow> \<exists>r. collect_descriptors data i = Some r"
proof (induction "length data - i" arbitrary: i rule: less_induct)
  case less
  show ?case
  proof (cases "descriptor_next data i")
    case (Ok p)
    obtain x j where p: "p = (x, j)" by fastforce
    show ?thesis
    proof (cases x)
      case None
      with Ok p show ?thesis using collect_done by blast
    next
      case (Some d)
      with Ok p have n: "descriptor_next data i = Ok (Some d, j)" by simp
      with less.prems [OF visits.here] have "j \<noteq> i" by (auto simp: stuck_at_def)
      with descriptor_next_index [OF n] have lt: "length data - j < length data - i" by linarith
      have "\<exists>r. collect_descriptors data j = Some r"
        by (rule less.hyps [OF lt]) (use less.prems visits.step [OF n] in blast)
      then show ?thesis by (auto simp: collect_more [OF n])
    qed
  next
    case (Err e)
    then show ?thesis by (simp add: descriptor_next_not_Err)
  next
    case (Panic e)
    then show ?thesis using collect_panic by blast
  qed
qed

lemma collect_not_stuck: "collect_descriptors data k = Some r \<Longrightarrow> \<not> stuck_at data k"
proof (rule collect_descriptors.raw_induct [where P = "\<lambda>data k r. \<not> stuck_at data k"], rule notI)
  fix collect data k and r :: "UsbDescriptor list result"
  assume ih: "\<And>data k r. collect data k = Some r \<Longrightarrow> \<not> stuck_at data k"
    and body: "(case descriptor_next data k of Ok (None, x) \<Rightarrow> Some (Ok [])
      | Ok (Some d, x) \<Rightarrow> Option.bind (collect data x) (\<lambda>r. Some (rbind r (\<lambda>ds. Ok (d # ds))))
      | Err e \<Rightarrow> Some (Err e) | Panic e \<Rightarrow> Some (Panic e)) = Some r"
    and stuck: "stuck_at data k"
  from stuck obtain d where "descriptor_next data k = Ok (Some d, k)" by (auto simp: stuck_at_def)
  with body obtain r' where "collect data k = Some r'" by (auto split: bind_splits)
  from ih [OF this] stuck show False by blast
qed

lemma collect_visits_stuck: "visits data i k \<Longrightarrow> stuck_at data k \<Longrightarrow> collect_descriptors data i = None"
proof (induction rule: visits.induct)
  case (here i)
  then show ?case using collect_not_stuck by (cases "collect_descriptors data i") auto
next
  case (step i d j k)
  then show ?case by (simp add: collect_more)
qed

lemma stuck_at_iff:
  "stuck_at data k \<longleftrightarrow> k + 1 < length data \<and> data ! k = 0 \<and>
     k + (if data ! (k + 1) = 2 \<or> data ! (k + 1) = 4 then 9 else if data ! (k + 1) = 5 then 7 else 2) \<le> length data"
  by (auto simp: stuck_at_def descriptor_next_def parse_descriptor_def byte_index_def copy_from_slice_def
      ok_or_none_def Let_def unat_eq_0 split: if_splits)

section \<open>Descriptors on the wire\<close>

text \<open>
  What a device sends: a descriptor in its layout, followed by \<open>extra\<close> bytes when its length says
  that it is longer than the structure the driver knows.
\<close>

primrec encode_descriptor :: "UsbDescriptor \<Rightarrow> u8 list" where
  "encode_descriptor (ConfigD c) = [cfg_length c, 2] @ to_le_bytes 2 (unat (total_length c)) @
     [num_of_interfaces c, config_value c, config_string_index c, cfg_attributes c, max_power c]"
| "encode_descriptor (InterfaceD i) = [if_length i, 4, interface_number i, alt_setting i, num_of_endpoints i,
     interface_class i, interface_subclass i, interface_protocol i, interface_index i]"
| "encode_descriptor (EndpointD e) = [ed_length e, 5, endpoint_address e, ed_attributes e] @
     to_le_bytes 2 (unat (ed_max_packet_size e)) @ [interval e]"
| "encode_descriptor (UnknownD len ty) = [len, ty]"

primrec descriptor_length :: "UsbDescriptor \<Rightarrow> u8" where
  "descriptor_length (ConfigD c) = cfg_length c"
| "descriptor_length (InterfaceD i) = if_length i"
| "descriptor_length (EndpointD e) = ed_length e"
| "descriptor_length (UnknownD len ty) = len"

fun on_wire :: "UsbDescriptor \<times> u8 list \<Rightarrow> bool" where
  "on_wire (d, extra) \<longleftrightarrow> unat (descriptor_length d) = length (encode_descriptor d @ extra) \<and>
     (case d of UnknownD _ ty \<Rightarrow> ty \<noteq> 2 \<and> ty \<noteq> 4 \<and> ty \<noteq> 5 | _ \<Rightarrow> True)"

definition wire_bytes :: "(UsbDescriptor \<times> u8 list) list \<Rightarrow> u8 list" where
  "wire_bytes ds = concat (map (\<lambda>(d, extra). encode_descriptor d @ extra) ds)"

lemma length_encode [simp]:
  "length (encode_descriptor d) = (case d of ConfigD _ \<Rightarrow> 9 | InterfaceD _ \<Rightarrow> 9 | EndpointD _ \<Rightarrow> 7 | UnknownD _ _ \<Rightarrow> 2)"
  by (cases d) simp_all

lemma encode_head: "encode_descriptor d = descriptor_length d # tl (encode_descriptor d)"
  by (cases d) simp_all

lemma u16_le_bytes: "to_le_bytes 2 n = [of_nat (n mod 256), of_nat (n div 256 mod 256)]"
  by (simp add: numeral_2_eq_2)

lemma le_at_pair: "k + 1 < length b \<Longrightarrow> le_at b k 2 = unat (b ! k) + 256 * unat (b ! (k + 1))"
proof -
  assume k: "k + 1 < length b"
  then have "drop k b = b ! k # b ! (k + 1) # drop (k + 2) b"
    by (simp add: Cons_nth_drop_Suc)
  then show ?thesis by (simp add: le_at_def bytes_at_def numeral_2_eq_2)
qed

lemma u16_pair: "(of_nat (unat (of_nat (unat (w :: u16) mod 256) :: u8) + 256 * unat (of_nat (unat w div 256 mod 256) :: u8)) :: u16) = w"
proof -
  have "unat w < 2 ^ LENGTH(16)" by (rule unsigned_less)
  then have "unat w div 256 < 256" by (simp add: div_less_iff_less_mult)
  then have "unat w mod 256 + 256 * (unat w div 256 mod 256) = unat w" by simp
  then show ?thesis by (simp add: unat_of_nat take_bit_eq_mod)
qed

lemma parse_encoded:
  assumes "case d of UnknownD _ ty \<Rightarrow> ty \<noteq> 2 \<and> ty \<noteq> 4 \<and> ty \<noteq> 5 | _ \<Rightarrow> True"
  shows "parse_descriptor (encode_descriptor d @ rest) (descriptor_length d) ((encode_descriptor d @ rest) ! 1) = Some d"
  using assms
  by (cases d)
     (simp_all add: parse_descriptor_def copy_from_slice_def ok_or_none_def decode_config_def decode_interface_def
        decode_endpoint_def le_at_pair u16_le_bytes u16_pair [simplified])

lemma descriptor_next_encoded:
  assumes "on_wire (d, extra)"
  shows "descriptor_next (pre @ encode_descriptor d @ extra @ rest) (length pre) =
    Ok (Some d, length (pre @ encode_descriptor d @ extra))"
proof -
  let ?data = "pre @ encode_descriptor d @ extra @ rest"
  have l: "2 \<le> length (encode_descriptor d)" by (simp split: UsbDescriptor.split)
  have "byte_index (encode_descriptor d @ extra @ rest) 0 = Ok (descriptor_length d)"
    by (subst encode_head) (simp add: byte_index_def)
  moreover have "byte_index (encode_descriptor d @ extra @ rest) 1 = Ok ((encode_descriptor d @ extra @ rest) ! 1)"
    using l by (simp add: byte_index_def)
  moreover have "parse_descriptor (encode_descriptor d @ extra @ rest) (descriptor_length d)
      ((encode_descriptor d @ extra @ rest) ! 1) = Some d"
    using assms by (intro parse_encoded) simp
  moreover have "length pre < length ?data" using l by simp
  ultimately show ?thesis
    using assms by (simp add: descriptor_next_def Let_def)
qed

lemma collect_wire:
  "list_all on_wire ds \<Longrightarrow> collect_descriptors (pre @ wire_bytes ds) (length pre) = Some (Ok (map fst ds))"
proof (induction ds arbitrary: pre)
  case Nil
  then show ?case by (simp add: wire_bytes_def collect_past_end)
next
  case (Cons x ds)
  obtain d extra where x: "x = (d, extra)" by fastforce
  have data: "pre @ wire_bytes (x # ds) = pre @ encode_descriptor d @ extra @ wire_bytes ds"
    by (simp add: wire_bytes_def x)
  have "descriptor_next (pre @ wire_bytes (x # ds)) (length pre) = Ok (Some d, length (pre @ encode_descriptor d @ extra))"
    unfolding data using Cons.prems x by (intro descriptor_next_encoded) simp
  moreover have "collect_descriptors (pre @ wire_bytes (x # ds)) (length (pre @ encode_descriptor d @ extra)) = Some (Ok (map fst ds))"
    unfolding data using Cons.IH [of "pre @ encode_descriptor d @ extra"] Cons.prems by simp
  ultimately show ?case by (simp only: collect_more) (simp add: x)
qed

text \<open>
  C32. Every list of descriptors a device sends, each with a length byte that covers it (and
  possibly more bytes than the driver's structure), is read back by the iterator: the same
  descriptors, in order, to the end of the buffer.
\<close>

theorem descriptors_roundtrip:
  assumes "list_all on_wire ds"
  shows "collect_descriptors (wire_bytes ds) 0 = Some (Ok (map fst ds))"
  using collect_wire [OF assms, of "[]"] by simp

definition example_configuration :: "(UsbDescriptor \<times> u8 list) list" where
  "example_configuration =
    [(ConfigD \<lparr>cfg_length = 9, total_length = 44, num_of_interfaces = 1, config_value = 1, config_string_index = 0,
        cfg_attributes = 0x80, max_power = 50\<rparr>, []),
     (InterfaceD \<lparr>if_length = 9, interface_number = 0, alt_setting = 0, num_of_endpoints = 2, interface_class = 8,
        interface_subclass = 6, interface_protocol = 0x50, interface_index = 0\<rparr>, []),
     (EndpointD \<lparr>ed_length = 7, endpoint_address = 0x81, ed_attributes = 2, ed_max_packet_size = 512, interval = 0\<rparr>, []),
     (UnknownD 6 0x30, [1, 2, 3, 4]),
     (EndpointD \<lparr>ed_length = 9, endpoint_address = 2, ed_attributes = 2, ed_max_packet_size = 512, interval = 0\<rparr>, [7, 7])]"

theorem descriptors_roundtrip_witness:
  "collect_descriptors (wire_bytes example_configuration) 0 = Some (Ok (map fst example_configuration))"
  by (rule descriptors_roundtrip) (simp add: example_configuration_def)

text \<open>
  C33. The collection of descriptors fails to end exactly when the walk reaches a descriptor that
  says it has length 0 and that the buffer still has the bytes to parse; nothing else makes it loop.
\<close>

theorem descriptor_walk_diverges_iff:
  "collect_descriptors data i = None \<longleftrightarrow>
    (\<exists>k. visits data i k \<and> k + 1 < length data \<and> data ! k = 0 \<and>
      k + (if data ! (k + 1) = 2 \<or> data ! (k + 1) = 4 then 9 else if data ! (k + 1) = 5 then 7 else 2) \<le> length data)"
  (is "?l \<longleftrightarrow> ?r")
proof
  assume ?l
  with collect_ends_unless_stuck [of data i] obtain k where "visits data i k" "stuck_at data k" by auto
  then show ?r unfolding stuck_at_iff by blast
next
  assume ?r
  then obtain k where "visits data i k" "stuck_at data k" unfolding stuck_at_iff by blast
  then show ?l by (rule collect_visits_stuck)
qed

section \<open>The endpoints that are selected\<close>

text \<open>
  The descriptors that the loop looks at: up to the first configuration that follows an
  interface. Among them, the ones of each kind.
\<close>

fun scanned :: "bool \<Rightarrow> UsbDescriptor list \<Rightarrow> UsbDescriptor list" where
  "scanned seen [] = []"
| "scanned seen (d # ds) =
     (case d of ConfigD _ \<Rightarrow> if seen then [] else d # scanned seen ds
      | InterfaceD _ \<Rightarrow> d # scanned True ds
      | _ \<Rightarrow> d # scanned seen ds)"

definition is_bulk :: "EndpointDescriptor \<Rightarrow> bool" where
  "is_bulk ep \<longleftrightarrow> ed_attributes ep AND 3 = 2"

definition is_in :: "EndpointDescriptor \<Rightarrow> bool" where
  "is_in ep \<longleftrightarrow> endpoint_address ep AND 0x80 \<noteq> 0"

definition configs :: "UsbDescriptor list \<Rightarrow> ConfigDescriptor list" where
  "configs ds = [c. ConfigD c \<leftarrow> ds]"

definition interfaces :: "UsbDescriptor list \<Rightarrow> InterfaceDescriptor list" where
  "interfaces ds = [i. InterfaceD i \<leftarrow> ds]"

definition bulk_endpoints :: "bool \<Rightarrow> UsbDescriptor list \<Rightarrow> EndpointDescriptor list" where
  "bulk_endpoints inward ds = [ep. EndpointD ep \<leftarrow> ds, is_bulk ep \<and> is_in ep = inward]"

definition last_or :: "'a option \<Rightarrow> 'a list \<Rightarrow> 'a option" where
  "last_or d xs = (if xs = [] then d else Some (last xs))"

lemma last_or_simps [simp]: "last_or d [] = d" "last_or d (x # xs) = last_or (Some x) xs"
  by (simp_all add: last_or_def)

lemma kinds_simps [simp]:
  "configs [] = []" "interfaces [] = []" "bulk_endpoints b [] = []"
  "configs (d # ds) = (case d of ConfigD c \<Rightarrow> c # configs ds | _ \<Rightarrow> configs ds)"
  "interfaces (d # ds) = (case d of InterfaceD i \<Rightarrow> i # interfaces ds | _ \<Rightarrow> interfaces ds)"
  "bulk_endpoints b (d # ds) = (case d of EndpointD ep \<Rightarrow>
     (if is_bulk ep \<and> is_in ep = b then ep # bulk_endpoints b ds else bulk_endpoints b ds) | _ \<Rightarrow> bulk_endpoints b ds)"
  by (cases d; simp add: configs_def interfaces_def bulk_endpoints_def)+

lemma select_endpoint_fields [simp]:
  "last_config (select_endpoint ep s) = last_config s"
  "usb_interface (select_endpoint ep s) = usb_interface s"
  "bulk_in_ep (select_endpoint ep s) = (if is_bulk ep \<and> is_in ep then Some ep else bulk_in_ep s)"
  "bulk_out_ep (select_endpoint ep s) = (if is_bulk ep \<and> \<not> is_in ep then Some ep else bulk_out_ep s)"
  by (simp_all add: select_endpoint_def Let_def is_bulk_def is_in_def)

lemma select_loop_fields:
  fixes s :: Selection and ds :: "UsbDescriptor list"
  defines "p \<equiv> scanned (usb_interface s \<noteq> None) ds"
  shows "last_config (select_loop ds s) = last_or (last_config s) (configs p) \<and>
    usb_interface (select_loop ds s) = last_or (usb_interface s) (interfaces p) \<and>
    bulk_in_ep (select_loop ds s) = last_or (bulk_in_ep s) (bulk_endpoints True p) \<and>
    bulk_out_ep (select_loop ds s) = last_or (bulk_out_ep s) (bulk_endpoints False p)"
  unfolding p_def
  by (induction ds s rule: select_loop.induct) (auto split: if_splits)

lemma in_bulk_endpoints: "ep \<in> set (bulk_endpoints b ds) \<Longrightarrow> is_bulk ep \<and> is_in ep = b"
  by (induction ds) (auto split: UsbDescriptor.splits if_splits)

lemma last_or_None_eq_Some [simp]: "last_or None xs = Some x \<longleftrightarrow> xs \<noteq> [] \<and> last xs = x"
  by (simp add: last_or_def)

lemma endpoint_number_less: "unat (a AND 0xF :: u8) < 16"
proof -
  have "a AND 0xF = take_bit 4 a" by (simp add: take_bit_eq_mask mask_eq_exp_minus_1)
  then have "unat (a AND 0xF) < 2 ^ 4" by (simp only: flip: take_bit_eq_self_unat) simp
  then show ?thesis by simp
qed

lemma bulk_dci:
  "is_in ep \<Longrightarrow> bulk_in_dci ep = Ok (2 * unat (endpoint_address ep AND 0xF) + 1)"
  "\<not> is_in ep \<Longrightarrow> bulk_out_dci ep = Ok (2 * unat (endpoint_address ep AND 0xF))"
  using endpoint_number_less [of "endpoint_address ep"]
  by (simp_all add: bulk_in_dci_def bulk_out_dci_def is_in_def checked_defs unat_word_ariths mult.commute)


end
