(* ===== verification/MassStorage.thy ===== *)
theory MassStorage
  imports Bytes BitFields
begin

text \<open>
  The data of the mass-storage driver: \<open>cbw.rs\<close>, the command blocks that \<open>scsi_inquiry\<close> and
  \<open>scsi_read_10\<close> of \<open>xhci.rs\<close> write byte by byte, the check of the command status, the
  capacity response, and the analysis of the master boot record and of the strings of a sector,
  whose log lines are lists of the values they show.
\<close>

section \<open>Command block wrappers\<close>

record CommandBlockWrapper =
  cbw_signature :: u32
  cbw_tag :: u32
  data_transfer_length :: u32
  cbw_flags :: u8
  lun :: u8
  cb_length :: u8
  command_block :: "u8 list"

definition CBW_SIGNATURE :: u32 where
  "CBW_SIGNATURE = 0x43425355"

definition FLAG_DATA_IN :: u8 where
  "FLAG_DATA_IN = 0x80"

definition new_read_10 :: "u32 \<Rightarrow> u16 \<Rightarrow> u32 \<Rightarrow> CommandBlockWrapper result" where
  "new_read_10 lba transfer_length tag =
     rbind (mul_word (ucast transfer_length) 512) (\<lambda>dtl.
       let cb = replicate 16 0;
           cb = cb[0 := 0x28]; cb = cb[1 := 0];
           cb = cb[2 := ucast (drop_bit 24 lba)]; cb = cb[3 := ucast (drop_bit 16 lba)];
           cb = cb[4 := ucast (drop_bit 8 lba)]; cb = cb[5 := ucast lba];
           cb = cb[6 := 0];
           cb = cb[7 := ucast (drop_bit 8 transfer_length)]; cb = cb[8 := ucast transfer_length];
           cb = cb[9 := 0]
       in Ok \<lparr>cbw_signature = CBW_SIGNATURE, cbw_tag = tag, data_transfer_length = dtl, cbw_flags = FLAG_DATA_IN,
            lun = 0, cb_length = 10, command_block = cb\<rparr>)"

text \<open>The bytes of the packed structure.\<close>

definition cbw_bytes :: "CommandBlockWrapper \<Rightarrow> u8 list" where
  "cbw_bytes c = to_le_bytes 4 (unat (cbw_signature c)) @ to_le_bytes 4 (unat (cbw_tag c)) @
     to_le_bytes 4 (unat (data_transfer_length c)) @ [cbw_flags c, lun c, cb_length c] @ command_block c"

text \<open>\<open>buf[a..a + n].copy_from_slice(bytes)\<close>, with its two panics.\<close>

definition copy_into :: "nat \<Rightarrow> u8 list \<Rightarrow> nat \<Rightarrow> u8 list \<Rightarrow> u8 list result" where
  "copy_into a bs n buf =
     (if a + n > length buf then Panic ''range end index out of range''
      else if length bs \<noteq> n then Panic ''copy_from_slice: source slice length does not match destination slice length''
      else Ok (take a buf @ bs @ drop (a + n) buf))"

definition byte_set :: "nat \<Rightarrow> u8 \<Rightarrow> u8 list \<Rightarrow> u8 list result" where
  "byte_set i b buf = (if i < length buf then Ok (buf[i := b]) else Panic ''index out of bounds'')"

definition inquiry_cbw :: "u8 list result" where
  "inquiry_cbw =
     rbind (copy_into 0 (to_le_bytes 4 0x43425355) 4 (replicate 31 0)) (\<lambda>b.
     rbind (copy_into 4 (to_le_bytes 4 1) 4 b) (\<lambda>b.
     rbind (copy_into 8 (to_le_bytes 4 36) 4 b) (\<lambda>b.
     rbind (byte_set 12 0x80 b) (\<lambda>b. rbind (byte_set 13 0 b) (\<lambda>b. rbind (byte_set 14 6 b) (\<lambda>b.
     rbind (byte_set 15 0x12 b) (\<lambda>b. rbind (byte_set 16 0 b) (\<lambda>b. rbind (byte_set 17 0 b) (\<lambda>b.
     rbind (byte_set 18 0 b) (\<lambda>b. rbind (byte_set 19 36 b) (\<lambda>b. byte_set 20 0 b)))))))))))"

definition read_10_cbw :: "u32 \<Rightarrow> u16 \<Rightarrow> u8 list result" where
  "read_10_cbw lba transfer_length =
     rbind (copy_into 0 (to_le_bytes 4 0x43425355) 4 (replicate 31 0)) (\<lambda>b.
     rbind (copy_into 4 (to_le_bytes 4 3) 4 b) (\<lambda>b.
     rbind (mul_word (ucast transfer_length) 512) (\<lambda>dtl :: u32.
     rbind (copy_into 8 (to_le_bytes 4 (unat dtl)) 4 b) (\<lambda>b.
     rbind (byte_set 12 0x80 b) (\<lambda>b. rbind (byte_set 13 0 b) (\<lambda>b. rbind (byte_set 14 10 b) (\<lambda>b.
     rbind (byte_set 15 0x28 b) (\<lambda>b. rbind (byte_set 16 0 b) (\<lambda>b.
     rbind (copy_into 17 (to_be_bytes 4 (unat lba)) 4 b) (\<lambda>b.
     rbind (byte_set 21 0 b) (\<lambda>b.
     rbind (copy_into 22 (to_be_bytes 2 (unat transfer_length)) 2 b) (\<lambda>b. byte_set 24 0 b))))))))))))"

section \<open>Command status and capacity\<close>

definition check_csw :: "u8 list \<Rightarrow> unit result" where
  "check_csw csw =
     rbind (byte_index csw 12) (\<lambda>csw_status.
       if from_le_bytes (bytes_at csw 0 4) \<noteq> 0x53425355 then Err ''Invalid CSW signature''
       else if csw_status \<noteq> 0 then Err ''SCSI command failed''
       else Ok ())"

definition parse_read_capacity_response :: "u8 list \<Rightarrow> (u32 \<times> u32) result" where
  "parse_read_capacity_response data =
     (if length data < 8 then Err ''READ CAPACITY response too short''
      else let last_lba = of_nat (from_be_bytes (bytes_at data 0 4));
               block_size = of_nat (from_be_bytes (bytes_at data 4 4))
           in rbind (add_word last_lba 1) (\<lambda>total_blocks.
              rbind (mul_word (ucast total_blocks :: u64) (ucast block_size)) (\<lambda>_. Ok (last_lba, block_size))))"

section \<open>The master boot record\<close>

record PartitionEntry =
  boot_flag :: u8
  start_head :: u8
  start_sector :: u8
  start_cylinder :: u8
  partition_type :: u8
  end_head :: u8
  end_sector :: u8
  end_cylinder :: u8
  lba_start :: u32
  sector_count :: u32

definition analyze_partition_entry :: "u8 list \<Rightarrow> PartitionEntry option" where
  "analyze_partition_entry entry =
     (if length entry \<ge> 16
      then Some \<lparr>boot_flag = entry ! 0, start_head = entry ! 1, start_sector = entry ! 2 AND 0x3F,
        start_cylinder = push_bit 2 (entry ! 2 AND 0xC0) OR entry ! 3, partition_type = entry ! 4,
        end_head = entry ! 5, end_sector = entry ! 6 AND 0x3F,
        end_cylinder = push_bit 2 (entry ! 6 AND 0xC0) OR entry ! 7,
        lba_start = of_nat (le_at entry 8 4), sector_count = of_nat (le_at entry 12 4)\<rparr>
      else None)"

definition size_mb :: "PartitionEntry \<Rightarrow> u64 result" where
  "size_mb p = rbind (mul_word (ucast (sector_count p)) 512) (\<lambda>n. Ok (n div (1024 * 1024)))"

definition partition_type_name :: "u8 \<Rightarrow> string" where
  "partition_type_name t =
     (if t = 0x00 then ''Empty'' else if t = 0x01 then ''FAT12'' else if t = 0x04 then ''FAT16 <32MB''
      else if t = 0x05 then ''Extended'' else if t = 0x06 then ''FAT16'' else if t = 0x07 then ''NTFS/HPFS/exFAT''
      else if t = 0x0B then ''FAT32'' else if t = 0x0C then ''FAT32 LBA'' else if t = 0x0E then ''FAT16 LBA''
      else if t = 0x0F then ''Extended LBA'' else if t = 0x82 then ''Linux Swap'' else if t = 0x83 then ''Linux''
      else if t = 0xEE then ''GPT Protective'' else ''Unknown'')"

section \<open>Strings of a sector\<close>

definition is_text :: "u8 \<Rightarrow> bool" where
  "is_text b \<longleftrightarrow> (0x21 \<le> b \<and> b \<le> 0x7E) \<or> b = 0x20"

text \<open>
  The loop over the bytes: the current string and its start, and the lines shown so far.
\<close>

record Scan =
  current_string :: "u8 list"
  start_offset :: usize
  shown :: "(usize \<times> u8 list) list"

definition show_current :: "Scan \<Rightarrow> Scan" where
  "show_current s =
     (if length (current_string s) \<ge> 4 then s\<lparr>shown := shown s @ [(start_offset s, current_string s)]\<rparr> else s)"

definition scan_byte :: "usize \<times> u8 \<Rightarrow> Scan \<Rightarrow> Scan" where
  "scan_byte ib s = (case ib of (i, byte) \<Rightarrow>
     if is_text byte
     then let s = (if current_string s = [] then s\<lparr>start_offset := i\<rparr> else s)
          in s\<lparr>current_string := current_string s @ [byte]\<rparr>
     else (show_current s)\<lparr>current_string := []\<rparr>)"

definition find_ascii_strings :: "u8 list \<Rightarrow> (usize \<times> u8 list) list" where
  "find_ascii_strings data =
     shown (show_current (fold scan_byte (enumerate 0 data) \<lparr>current_string = [], start_offset = 0, shown = []\<rparr>))"

text \<open>\<open>analyze_sector_zero\<close>: the signature, the partition entries and the strings.\<close>

definition analyze_sector_zero ::
  "u8 list \<Rightarrow> (u16 \<times> (nat \<times> PartitionEntry) list \<times> (usize \<times> u8 list) list) option" where
  "analyze_sector_zero data =
     (if length data \<ge> 512
      then Some (of_nat (le_at data 510 2),
        List.map_filter (\<lambda>i. let offset = 446 + i * 16 in
          if offset + 16 \<le> length data
          then map_option (\<lambda>e. (i + 1, e)) (analyze_partition_entry (bytes_at data offset 16)) else None) [0..<4],
        find_ascii_strings data)
      else None)"

section \<open>The bytes of the commands\<close>

lemma of_nat_byte: "(of_nat (unat (w :: 'a::len word) div 2 ^ k mod 256) :: u8) = ucast (drop_bit k w)"
proof (rule bit_word_eqI)
  fix n assume "n < LENGTH(8)"
  moreover have "unat w div 2 ^ k mod 256 = take_bit 8 (drop_bit k (unat w))"
    by (simp add: take_bit_eq_mod drop_bit_eq_div)
  ultimately show "bit (of_nat (unat w div 2 ^ k mod 256) :: u8) n = bit (ucast (drop_bit k w) :: u8) n"
    by (simp add: bit_simps)
qed

lemma to_le_bytes_2: "to_le_bytes 2 n = [of_nat (n mod 256), of_nat (n div 256 mod 256)]"
  by (simp add: numeral_2_eq_2)

lemma to_le_bytes_4:
  "to_le_bytes 4 n = [of_nat (n mod 256), of_nat (n div 256 mod 256), of_nat (n div 65536 mod 256), of_nat (n div 16777216 mod 256)]"
proof -
  have four: "(4 :: nat) = Suc (Suc (Suc (Suc 0)))" by simp
  show ?thesis
    unfolding four to_le_bytes.simps using div_mult2_eq [of n 256 256] div_mult2_eq [of n 65536 256] by simp
qed

lemma be_bytes_u32:
  "to_be_bytes 4 (unat (w :: u32)) = [ucast (drop_bit 24 w), ucast (drop_bit 16 w), ucast (drop_bit 8 w), ucast w]"
proof -
  have "(2 :: nat) ^ 8 = 256" "(2 :: nat) ^ 16 = 65536" "(2 :: nat) ^ 24 = 16777216" by simp_all
  then show ?thesis
    using of_nat_byte [of w 0] of_nat_byte [of w 8] of_nat_byte [of w 16] of_nat_byte [of w 24]
    by (simp only: to_be_bytes_def to_le_bytes_4) simp
qed

lemma be_bytes_u16: "to_be_bytes 2 (unat (w :: u16)) = [ucast (drop_bit 8 w), ucast w]"
proof -
  have "(2 :: nat) ^ 8 = 256" by simp
  then show ?thesis
    using of_nat_byte [of w 0] of_nat_byte [of w 8] by (simp only: to_be_bytes_def to_le_bytes_2) simp
qed

lemma transfer_length_bytes: "mul_word (ucast (n :: u16) :: u32) 512 = Ok (of_nat (512 * unat n))"
proof -
  have "unat n < 2 ^ LENGTH(16)" by (rule unsigned_less)
  then show ?thesis
    by (simp add: mul_word_def unsigned_ucast_eq take_bit_nat_eq_self)
qed

lemma transfer_length_unat: "unat (of_nat (512 * unat (n :: u16)) :: u32) = 512 * unat n"
proof -
  have "unat n < 2 ^ LENGTH(16)" by (rule unsigned_less)
  then show ?thesis by (simp add: unat_of_nat take_bit_nat_eq_self del: of_nat_mult)
qed

lemma read_10_cbw_bytes:
  "read_10_cbw lba n = Ok ([0x55, 0x53, 0x42, 0x43, 3, 0, 0, 0] @ to_le_bytes 4 (512 * unat n) @ [0x80, 0, 10, 0x28, 0] @
     to_be_bytes 4 (unat lba) @ [0] @ to_be_bytes 2 (unat n) @ [0, 0, 0, 0, 0, 0, 0])"
proof -
  obtain d0 d1 d2 d3 where d: "to_le_bytes 4 (512 * unat n) = [d0, d1, d2, d3]" by (simp only: to_le_bytes_4)
  obtain b0 b1 b2 b3 where cb: "to_be_bytes 4 (unat lba) = [b0, b1, b2, b3]" by (simp only: be_bytes_u32)
  obtain t0 t1 where tl: "to_be_bytes 2 (unat n) = [t0, t1]" by (simp only: be_bytes_u16)
  have zeros: "replicate 31 (0 :: u8) = [0, 0, 0, 0, 0, 0, 0, 0, 0, 0, 0, 0, 0, 0, 0, 0, 0, 0, 0, 0, 0, 0, 0, 0, 0, 0, 0, 0, 0, 0, 0]"
    by (simp add: numeral_eq_Suc)
  show ?thesis
    unfolding read_10_cbw_def transfer_length_bytes rbind.simps transfer_length_unat d cb tl zeros
    by (simp add: to_le_bytes_4 copy_into_def byte_set_def)
qed

lemma new_read_10_bytes:
  "\<exists>c. new_read_10 lba n 3 = Ok c \<and> read_10_cbw lba n = Ok (cbw_bytes c)"
proof -
  have zeros: "replicate 16 (0 :: u8) = [0, 0, 0, 0, 0, 0, 0, 0, 0, 0, 0, 0, 0, 0, 0, 0]" by (simp add: numeral_eq_Suc)
  have const_bytes: "to_le_bytes 4 0x43425355 = [0x55, 0x53, 0x42, 0x43]" "to_le_bytes 4 3 = [3, 0, 0, 0]"
    by (simp_all add: to_le_bytes_4)
  obtain d0 d1 d2 d3 where d: "to_le_bytes 4 (512 * unat n) = [d0, d1, d2, d3]" by (simp only: to_le_bytes_4)
  show ?thesis
    unfolding new_read_10_def transfer_length_bytes rbind.simps Let_def zeros read_10_cbw_bytes be_bytes_u32 be_bytes_u16
    by (simp add: cbw_bytes_def transfer_length_unat d CBW_SIGNATURE_def FLAG_DATA_IN_def const_bytes del: of_nat_mult)
qed

text \<open>
  C35. The bytes that \<open>scsi_read_10\<close> writes one by one are those of the packed structure that
  \<open>CommandBlockWrapper::new_read_10\<close> fills, for every address and length, and no write is out of
  range: 31 bytes, with the block address and the length in big endian, and the number of bytes
  of the data in little endian.
\<close>

theorem read_10_cbw_equivalent:
  "\<exists>c bs. new_read_10 lba n 3 = Ok c \<and> read_10_cbw lba n = Ok bs \<and> bs = cbw_bytes c \<and> length bs = 31 \<and>
    from_be_bytes (bytes_at bs 17 4) = unat lba \<and> from_be_bytes (bytes_at bs 22 2) = unat n \<and>
    from_le_bytes (bytes_at bs 8 4) = 512 * unat n \<and> from_le_bytes (bytes_at bs 0 4) = 0x43425355"
proof -
  have "unat n < 2 ^ LENGTH(16)" "unat lba < 2 ^ LENGTH(32)" by (rule unsigned_less)+
  then have fits: "512 * unat n < 256 ^ 4" "unat n < 256 ^ 2" "unat lba < 256 ^ 4" by simp_all
  let ?bs = "[0x55, 0x53, 0x42, 0x43, 3, 0, 0, 0] @ to_le_bytes 4 (512 * unat n) @ [0x80, 0, 10, 0x28, 0] @
     to_be_bytes 4 (unat lba) @ [0] @ to_be_bytes 2 (unat n) @ [0, 0, 0, 0, 0, 0, 0]"
  have "bytes_at ?bs 17 4 = to_be_bytes 4 (unat lba)" "bytes_at ?bs 22 2 = to_be_bytes 2 (unat n)"
    "bytes_at ?bs 8 4 = to_le_bytes 4 (512 * unat n)" "bytes_at ?bs 0 4 = [0x55, 0x53, 0x42, 0x43]"
    by (simp_all add: bytes_at_def)
  moreover have "from_le_bytes [0x55, 0x53, 0x42, 0x43] = 0x43425355" by simp
  moreover have "length ?bs = 31" by simp
  ultimately show ?thesis
    using new_read_10_bytes [of lba n] from_to_le_bytes_id [OF fits(1)] from_to_be_bytes_id [OF fits(2)] from_to_be_bytes_id [OF fits(3)]
    unfolding read_10_cbw_bytes by (metis result.inject(1))
qed

section \<open>The strings that are found\<close>

text \<open>
  A run is a maximal sequence of text bytes. A run is closed when a byte that is no text follows it
  in the data seen so far; the tail is the text at the end of that data.
\<close>

definition text_from :: "u8 list \<Rightarrow> usize \<Rightarrow> u8 list \<Rightarrow> bool" where
  "text_from data ofs s \<longleftrightarrow> list_all is_text s \<and> ofs + length s \<le> length data \<and>
     take (length s) (drop ofs data) = s \<and> (if ofs = 0 then True else \<not> is_text (data ! (ofs - 1)))"

definition closed_run :: "u8 list \<Rightarrow> usize \<Rightarrow> u8 list \<Rightarrow> bool" where
  "closed_run data ofs s \<longleftrightarrow> text_from data ofs s \<and> ofs + length s < length data \<and> \<not> is_text (data ! (ofs + length s))"

definition text_tail :: "u8 list \<Rightarrow> u8 list" where
  "text_tail data = rev (takeWhile is_text (rev data))"

definition text_run :: "u8 list \<Rightarrow> usize \<Rightarrow> u8 list \<Rightarrow> bool" where
  "text_run data ofs s \<longleftrightarrow> text_from data ofs s \<and>
     (if ofs + length s < length data then \<not> is_text (data ! (ofs + length s)) else True)"

lemma text_tail_snoc [simp]: "text_tail [] = []" "text_tail (data @ [b]) = (if is_text b then text_tail data @ [b] else [])"
  by (simp_all add: text_tail_def)

lemma length_text_tail: "length (text_tail data) \<le> length data"
  by (simp add: text_tail_def) (metis length_rev length_takeWhile_le)

lemma text_from_snoc:
  "ofs + length s \<le> length data \<Longrightarrow> text_from (data @ [b]) ofs s \<longleftrightarrow> text_from data ofs s"
  by (auto simp: text_from_def nth_append)

lemma closed_run_snoc:
  "closed_run (data @ [b]) ofs s \<longleftrightarrow> closed_run data ofs s \<or> \<not> is_text b \<and> text_from data ofs s \<and> ofs + length s = length data"
  by (cases "ofs + length s \<le> length data")
     (auto simp: closed_run_def text_from_snoc nth_append text_from_def [of data])

lemma text_from_end_iff:
  assumes "s \<noteq> []"
  shows "text_from data ofs s \<and> ofs + length s = length data \<longleftrightarrow> s = text_tail data \<and> ofs = length data - length s"
proof
  assume a: "text_from data ofs s \<and> ofs + length s = length data"
  then have "drop ofs data = s" by (auto simp: text_from_def)
  then have data: "data = take ofs data @ s" by (metis append_take_drop_id)
  have "takeWhile is_text (rev (take ofs data)) = []"
  proof (cases "ofs = 0")
    case False
    with a have "rev (take ofs data) = data ! (ofs - 1) # rev (take (ofs - 1) data)"
      by (cases ofs) (auto simp: take_Suc_conv_app_nth)
    with False a show ?thesis by (auto simp: text_from_def)
  qed simp
  moreover have "\<forall>x \<in> set (rev s). is_text x" using a by (simp add: text_from_def list_all_iff)
  ultimately have "takeWhile is_text (rev s @ rev (take ofs data)) = rev s"
    by (simp only: takeWhile_append2 append_Nil2)
  then have "text_tail data = s" unfolding text_tail_def by (subst data) simp
  with a show "s = text_tail data \<and> ofs = length data - length s" by auto
next
  assume b: "s = text_tail data \<and> ofs = length data - length s"
  define r where "r = dropWhile is_text (rev data)"
  have "rev data = rev s @ r" using b by (simp add: text_tail_def r_def)
  then have data: "data = rev r @ s" by (metis rev_append rev_rev_ident)
  from arg_cong [OF data, of length] have ofs: "ofs = length r" using b by simp
  have "list_all is_text s" using b set_takeWhileD by (fastforce simp: text_tail_def list_all_iff)
  moreover have "\<not> is_text (data ! (ofs - 1))" if "ofs \<noteq> 0"
  proof -
    from that ofs have r: "r \<noteq> []" by auto
    then have "data ! (ofs - 1) = hd r" using ofs by (simp add: data nth_append rev_nth hd_conv_nth)
    with r show ?thesis using hd_dropWhile [of is_text "rev data"] by (simp add: r_def)
  qed
  ultimately show "text_from data ofs s \<and> ofs + length s = length data"
    using ofs data by (auto simp: text_from_def)
qed

lemma scan_byte_pair:
  "scan_byte (i, byte) s =
     (if is_text byte
      then (if current_string s = [] then s\<lparr>start_offset := i\<rparr> else s)\<lparr>current_string := current_string s @ [byte]\<rparr>
      else (show_current s)\<lparr>current_string := []\<rparr>)"
  by (simp add: scan_byte_def Let_def)

lemma show_current_fields [simp]:
  "shown (show_current s) = shown s @ (if length (current_string s) \<ge> 4 then [(start_offset s, current_string s)] else [])"
  "current_string (show_current s) = current_string s" "start_offset (show_current s) = start_offset s"
  by (simp_all add: show_current_def)

lemma find_ascii_invariant:
  fixes data :: "u8 list"
  defines "st \<equiv> fold scan_byte (enumerate 0 data) \<lparr>current_string = [], start_offset = 0, shown = []\<rparr>"
  shows "current_string st = text_tail data \<and>
    (text_tail data \<noteq> [] \<longrightarrow> start_offset st = length data - length (text_tail data)) \<and>
    (\<forall>ofs s. (ofs, s) \<in> set (shown st) \<longleftrightarrow> closed_run data ofs s \<and> 4 \<le> length s)"
  unfolding st_def
proof (induction data rule: rev_induct)
  case Nil
  then show ?case by (simp add: closed_run_def)
next
  case (snoc b data)
  define st where "st = fold scan_byte (enumerate 0 data) \<lparr>current_string = [], start_offset = 0, shown = []\<rparr>"
  have step: "fold scan_byte (enumerate 0 (data @ [b])) \<lparr>current_string = [], start_offset = 0, shown = []\<rparr> =
      scan_byte (length data, b) st"
    by (simp add: enumerate_append_eq st_def)
  have le: "length (text_tail data) \<le> length data" by (rule length_text_tail)
  note ih = snoc [folded st_def]
  have tail: "text_from data ofs s \<and> ofs + length s = length data \<longleftrightarrow> s = text_tail data \<and> ofs = length data - length s"
    if "4 \<le> length s" for ofs s
    using that by (intro text_from_end_iff) auto
  have long: "4 \<le> length (text_tail data) \<Longrightarrow> text_tail data \<noteq> []" by auto
  show ?case
  proof (cases "is_text b")
    case True
    then show ?thesis
      unfolding step using ih le by (auto simp: scan_byte_pair closed_run_snoc Suc_diff_le)
  next
    case False
    then have "(ofs, s) \<in> set (shown (scan_byte (length data, b) st)) \<longleftrightarrow> closed_run (data @ [b]) ofs s \<and> 4 \<le> length s" for ofs s
      using ih tail [of s ofs] long unfolding closed_run_snoc by (auto simp: scan_byte_pair)
    with False show ?thesis unfolding step by (simp add: scan_byte_pair)
  qed
qed

text \<open>
  The strings shown for a sector are its maximal runs of at least four text bytes, each with the
  offset at which it starts, and nothing else; a run that reaches the end of the data is one of them.
\<close>

theorem find_ascii_strings_spec:
  "(ofs, s) \<in> set (find_ascii_strings data) \<longleftrightarrow> text_run data ofs s \<and> 4 \<le> length s"
proof -
  define st where "st = fold scan_byte (enumerate 0 data) \<lparr>current_string = [], start_offset = 0, shown = []\<rparr>"
  note inv = find_ascii_invariant [of data, folded st_def]
  have run: "text_run data ofs s \<longleftrightarrow> closed_run data ofs s \<or> s = text_tail data \<and> ofs = length data - length s"
    if "4 \<le> length s"
  proof -
    from that have "s \<noteq> []" by auto
    from text_from_end_iff [OF this, of data ofs] show ?thesis
      by (auto simp: text_run_def closed_run_def text_from_def [of data ofs s])
  qed
  have "4 \<le> length (text_tail data) \<Longrightarrow> text_tail data \<noteq> []" by auto
  with inv run show ?thesis by (auto simp: find_ascii_strings_def st_def [symmetric])
qed

section \<open>What the analysis loses\<close>

lemma cylinder_bits_lost: "(768 :: u8) = 0"
  by simp

lemma partition_cylinders:
  "analyze_partition_entry entry = Some p \<Longrightarrow> start_cylinder p = entry ! 3 \<and> end_cylinder p = entry ! 7"
  by (auto simp: analyze_partition_entry_def cylinder_bits_lost split: if_splits)

lemma capacity_of_largest_disk_panics:
  "parse_read_capacity_response [0xFF, 0xFF, 0xFF, 0xFF, 0, 0, 2, 0] = Panic ''add overflow''"
  by (simp add: parse_read_capacity_response_def bytes_at_def from_be_bytes_def add_word_def)

end
