(* ===== verification/XhciDriver.thy ===== *)
theory XhciDriver
  imports XhciRegisters CommandRing UsbDescriptors MassStorage
begin

text \<open>
  The asynchronous driver of \<open>xhci.rs\<close>: \<open>Controller\<close> once it runs, and the functions of
  \<open>PciXhciDriver\<close> that talk to the controller and to a device. A function is a state transformer
  that may not return (\<open>None\<close>); an \<open>await\<close> polls its future and, while it is pending, lets the rest
  of the system run. That rest (the controller, the device, the task that polls the event ring)
  is the parameter \<open>turn\<close>; the addresses of new boxes and the identities of new waiters are
  parameters too. A register is the cell the driver reads and writes.

  A ring that a task owns and a heap buffer that the controller reads or writes are kept in the
  state under their address. \<open>history\<close> is a ghost: it lists what the driver handed to the controller
  and the events it received, so that properties can speak of their order.
\<close>

section \<open>The state\<close>

datatype Action =
    Pushed u64 GenericTrbEntry u64
  | Commanded GenericTrbEntry u64
  | Rang usize u32
  | Completed u64 GenericTrbEntry

record XhcState =
  usbsts :: u32
  doorbells :: "u32 list"
  ports :: "u32 list"
  dcbaa :: DeviceContextBaseAddressArray
  command_ring :: CommandRing
  event_ring :: EventRing
  wait_infos :: waiters
  transfer_rings :: "u64 \<Rightarrow> CommandRing"
  buffers :: "u64 \<Rightarrow> u8 list"
  input_contexts :: "u64 \<Rightarrow> InputContext"
  history :: "Action list"

record Machine =
  turn :: "XhcState \<Rightarrow> XhcState"
  new_box :: "usize \<Rightarrow> XhcState \<Rightarrow> u64"
  new_waiter :: "XhcState \<Rightarrow> nat"

type_synonym 'a driver = "XhcState \<Rightarrow> ('a result \<times> XhcState) option"

definition lift :: "'a result \<Rightarrow> 'a driver" where
  "lift r s = Some (r, s)"

definition note_action :: "Action \<Rightarrow> XhcState \<Rightarrow> XhcState" where
  "note_action a s = s\<lparr>history := history s @ [a]\<rparr>"

section \<open>Rings, doorbells and events\<close>

definition push_ring :: "u64 \<Rightarrow> GenericTrbEntry \<Rightarrow> u64 driver" where
  "push_ring h e s =
     (case push e (transfer_rings s h) of (r, cr) \<Rightarrow>
        let s = s\<lparr>transfer_rings := (transfer_rings s)(h := cr)\<rparr>
        in Some (r, case r of Ok p \<Rightarrow> note_action (Pushed h e p) s | _ \<Rightarrow> s))"

definition push_command :: "GenericTrbEntry \<Rightarrow> u64 driver" where
  "push_command e s =
     (case push e (command_ring s) of (r, cr) \<Rightarrow>
        let s = s\<lparr>command_ring := cr\<rparr>
        in Some (r, case r of Ok p \<Rightarrow> note_action (Commanded e p) s | _ \<Rightarrow> s))"

definition doorbell_notify :: "usize \<Rightarrow> u8 \<Rightarrow> u16 \<Rightarrow> XhcState \<Rightarrow> XhcState" where
  "doorbell_notify i target task s =
     note_action (Rang i (doorbell_value target task)) (s\<lparr>doorbells := (doorbells s)[i := doorbell_value target task]\<rparr>)"

definition notify_xhc :: "unit driver" where
  "notify_xhc s =
     (if 0 < length (doorbells s) then Some (Ok (), doorbell_notify 0 0 0 s)
      else Some (Panic ''index out of bounds'', s))"

definition TO_CLEAR :: u32 where
  "TO_CLEAR = push_bit 2 1 OR push_bit 3 1 OR push_bit 4 1"

definition notify_ep :: "u8 \<Rightarrow> usize \<Rightarrow> unit driver" where
  "notify_ep slot dci s =
     (if unat slot < length (doorbells s)
      then if dci < 256
           then let s = doorbell_notify (unat slot) (of_nat dci) 0 s
                in Some (Ok (), s\<lparr>usbsts := usbsts s AND NOT TO_CLEAR\<rparr>)
           else Some (Err ''dci out of range'', s)
      else Some (Err ''Invalid slot'', s))"

text \<open>The loop of an \<open>await\<close> on an event; the waiter goes with its future.\<close>

partial_function (option) await_event :: "Machine \<Rightarrow> nat \<Rightarrow> XhcState \<Rightarrow> (GenericTrbEntry result \<times> XhcState) option" where
  "await_event M i s =
     (case future_poll i (wait_infos s) of
        (Some e, ws) \<Rightarrow> Some (Ok e, s\<lparr>wait_infos := future_drop i ws\<rparr>)
      | (None, ws) \<Rightarrow> await_event M i (turn M (s\<lparr>wait_infos := ws\<rparr>)))"

definition wait_for :: "(nat \<Rightarrow> EventRing \<Rightarrow> waiters \<Rightarrow> EventRing \<times> waiters) \<Rightarrow> Machine \<Rightarrow> u64 \<Rightarrow> GenericTrbEntry driver" where
  "wait_for new M ptr s =
     (let i = new_waiter M s in
      case new i (event_ring s) (wait_infos s) of (er, ws) \<Rightarrow>
        sbind (await_event M i (s\<lparr>event_ring := er, wait_infos := ws\<rparr>)) (\<lambda>e s.
          Some (Ok e, note_action (Completed ptr e) s)))"

definition wait_for_trb :: "Machine \<Rightarrow> u64 \<Rightarrow> GenericTrbEntry driver" where
  "wait_for_trb M ptr = wait_for (\<lambda>i. new_for_trb i ptr) M ptr"

definition wait_for_command :: "Machine \<Rightarrow> u64 \<Rightarrow> GenericTrbEntry driver" where
  "wait_for_command M ptr = wait_for (\<lambda>i. new_for_command i ptr) M ptr"

text \<open>\<open>EventFuture::new_for_trb(..).await?.transfer_result_ok()?\<close>.\<close>

definition wait_for_transfer :: "Machine \<Rightarrow> u64 \<Rightarrow> unit driver" where
  "wait_for_transfer M ptr s = sbind (wait_for_trb M ptr s) (\<lambda>e. lift (transfer_result_ok e))"

definition send_command :: "Machine \<Rightarrow> GenericTrbEntry \<Rightarrow> GenericTrbEntry driver" where
  "send_command M cmd s =
     sbind (push_command cmd s) (\<lambda>cmd_ptr s.
     sbind (notify_xhc s) (\<lambda>_. wait_for_command M cmd_ptr))"

section \<open>Control transfers\<close>

definition REQ_TYPE_DIR_HOST_TO_DEVICE :: u8 where
  [field_defs]: "REQ_TYPE_DIR_HOST_TO_DEVICE = push_bit 7 0"

definition REQ_TYPE_TYPE_CLASS :: u8 where
  [field_defs]: "REQ_TYPE_TYPE_CLASS = push_bit 5 1"

definition REQ_TYPE_TO_ENDPOINT :: u8 where
  [field_defs]: "REQ_TYPE_TO_ENDPOINT = 2"

definition REQ_CLEAR_FEATURE :: u8 where
  [field_defs]: "REQ_CLEAR_FEATURE = 1"

definition FEATURE_ENDPOINT_HALT :: u16 where
  [field_defs]: "FEATURE_ENDPOINT_HALT = 0"

definition request_set_config :: "Machine \<Rightarrow> u8 \<Rightarrow> u64 \<Rightarrow> u8 \<Rightarrow> unit driver" where
  "request_set_config M slot ring config s =
     sbind (push_ring ring (setup_into_trb (SetupStageTrb_new 0 REQ_SET_CONFIGURATION (ucast config) 0 0)) s) (\<lambda>_ s.
     sbind (push_ring ring status_stage_in s) (\<lambda>trb_ptr s.
     sbind (notify_ep slot 1 s) (\<lambda>_. wait_for_transfer M trb_ptr)))"

definition request_descriptor :: "Machine \<Rightarrow> u8 \<Rightarrow> u64 \<Rightarrow> UsbDescriptorType \<Rightarrow> u8 \<Rightarrow> u16 \<Rightarrow> u64 \<Rightarrow> usize \<Rightarrow> unit driver" where
  "request_descriptor M slot ring ty index lang_id buf len s =
     sbind (push_ring ring (setup_into_trb (SetupStageTrb_new REQ_TYPE_DIR_DEVICE_TO_HOST REQ_GET_DESCRIPTOR
       (push_bit 8 (ucast (descriptor_type_code ty)) OR ucast index) lang_id (of_nat len))) s) (\<lambda>_ s.
     sbind (push_ring ring (data_stage_in buf len) s) (\<lambda>trb_ptr_waiting s.
     sbind (push_ring ring status_stage_out s) (\<lambda>_ s.
     sbind (notify_ep slot 1 s) (\<lambda>_. wait_for_transfer M trb_ptr_waiting))))"

definition clear_endpoint_halt :: "Machine \<Rightarrow> u8 \<Rightarrow> u64 \<Rightarrow> u8 \<Rightarrow> unit driver" where
  "clear_endpoint_halt M slot ring address s =
     sbind (push_ring ring (setup_into_trb (SetupStageTrb_new (REQ_TYPE_DIR_HOST_TO_DEVICE OR REQ_TYPE_TO_ENDPOINT)
       REQ_CLEAR_FEATURE FEATURE_ENDPOINT_HALT (ucast address) 0)) s) (\<lambda>_ s.
     sbind (push_ring ring status_stage_in s) (\<lambda>trb_ptr s.
     sbind (notify_ep slot 1 s) (\<lambda>_. wait_for_transfer M trb_ptr)))"

definition bulk_only_mass_storage_reset :: "Machine \<Rightarrow> u8 \<Rightarrow> u64 \<Rightarrow> unit driver" where
  "bulk_only_mass_storage_reset M slot ring s =
     sbind (push_ring ring (setup_into_trb (SetupStageTrb_new
       (REQ_TYPE_DIR_HOST_TO_DEVICE OR REQ_TYPE_TYPE_CLASS OR REQ_TYPE_TO_INTERFACE) 0xFF 0 0 0)) s) (\<lambda>_ s.
     sbind (push_ring ring status_stage_in s) (\<lambda>trb_ptr s.
     sbind (notify_ep slot 1 s) (\<lambda>_. wait_for_transfer M trb_ptr)))"

section \<open>Descriptors\<close>

text \<open>A new zeroed buffer, and the bytes the controller left in one.\<close>

definition new_buffer :: "Machine \<Rightarrow> usize \<Rightarrow> u64 driver" where
  "new_buffer M n s = (let a = new_box M n s in Some (Ok a, s\<lparr>buffers := (buffers s)(a := replicate n 0)\<rparr>))"

record UsbDeviceDescriptor =
  vendor_id :: u16
  product_id :: u16
  manufacturer_index :: u8
  product_index :: u8
  serial_idx :: u8

definition decode_device :: "u8 list \<Rightarrow> UsbDeviceDescriptor" where
  "decode_device b = \<lparr>vendor_id = of_nat (le_at b 8 2), product_id = of_nat (le_at b 10 2),
     manufacturer_index = b ! 14, product_index = b ! 15, serial_idx = b ! 16\<rparr>"

definition request_device_descriptor :: "Machine \<Rightarrow> u8 \<Rightarrow> u64 \<Rightarrow> UsbDeviceDescriptor driver" where
  "request_device_descriptor M slot ring s =
     sbind (new_buffer M 18 s) (\<lambda>buf s.
     sbind (request_descriptor M slot ring DeviceType 0 0 buf 18 s) (\<lambda>_ s.
       Some (Ok (decode_device (buffers s buf)), s)))"

text \<open>The bytes of a string; their conversion to text only serves the log.\<close>

definition request_string_descriptor :: "Machine \<Rightarrow> u8 \<Rightarrow> u64 \<Rightarrow> u16 \<Rightarrow> u8 \<Rightarrow> u8 list driver" where
  "request_string_descriptor M slot ring lang_id index s =
     sbind (new_buffer M 128 s) (\<lambda>buf s.
     sbind (request_descriptor M slot ring StringType index lang_id buf 128 s) (\<lambda>_ s.
       Some (Ok (drop 2 (buffers s buf)), s)))"

definition u16_slice :: "u8 list \<Rightarrow> u16 list" where
  "u16_slice b = map (\<lambda>i. of_nat (le_at b (2 * i) 2)) [0..<length b div 2]"

definition request_string_descriptor_zero :: "Machine \<Rightarrow> u8 \<Rightarrow> u64 \<Rightarrow> u16 list driver" where
  "request_string_descriptor_zero M slot ring s =
     sbind (new_buffer M 16 s) (\<lambda>buf s.
     sbind (request_descriptor M slot ring StringType 0 0 buf 16 s) (\<lambda>_ s.
       Some (Ok (u16_slice (buffers s buf)), s)))"

definition request_config_descriptor_and_rest :: "Machine \<Rightarrow> u8 \<Rightarrow> u64 \<Rightarrow> UsbDescriptor list driver" where
  "request_config_descriptor_and_rest M slot ring s =
     sbind (new_buffer M 9 s) (\<lambda>cfg s.
     sbind (request_descriptor M slot ring ConfigType 0 0 cfg 9 s) (\<lambda>_ s.
     let total = unat (total_length (decode_config (buffers s cfg))) in
     sbind (new_buffer M total s) (\<lambda>buf s.
     sbind (request_descriptor M slot ring ConfigType 0 0 buf total s) (\<lambda>_ s.
       map_option (\<lambda>ds. (ds, s)) (collect_descriptors (buffers s buf) 0)))))"

section \<open>Ports, slots and endpoints\<close>

text \<open>The register of a port in the state; a yield lets the rest of the system run.\<close>

definition port_cell :: "Machine \<Rightarrow> usize \<Rightarrow> XhcState Port" where
  "port_cell M port = \<lparr>port_read = (\<lambda>s. ports s ! (port - 1)),
     port_write = (\<lambda>v s. s\<lparr>ports := (ports s)[port - 1 := v]\<rparr>), port_yield = turn M\<rparr>"

definition port_exists :: "usize \<Rightarrow> XhcState \<Rightarrow> bool" where
  "port_exists port s \<longleftrightarrow> wrapping_sub_usize port 1 < length (ports s)"

definition init_port :: "Machine \<Rightarrow> usize \<Rightarrow> u8 driver" where
  "init_port M port s =
     (if port_exists port s
      then Option.bind (reset_port (port_cell M port) s) (\<lambda>s.
        if is_enabled (port_read (port_cell M port) s)
        then sbind (lift cmd_enable_slot s) (\<lambda>cmd s.
             sbind (send_command M cmd s) (\<lambda>e. lift (slot_id e)))
        else Some (Err ''Port is not enabled'', s))
      else Some (Err ''Port not found'', s))"

definition set_output_context_for_slot :: "u8 \<Rightarrow> u64 \<Rightarrow> unit driver" where
  "set_output_context_for_slot slot ctx s =
     sbind (lift (set_output_context slot ctx (dcbaa s)) s) (\<lambda>a s. Some (Ok (), s\<lparr>dcbaa := a\<rparr>))"

definition new_ring :: "Machine \<Rightarrow> u64 driver" where
  "new_ring M s =
     (let a = new_box M 256 s in
      sbind (lift (CommandRing_default a) s) (\<lambda>cr s.
        Some (Ok (ring_phys_addr cr), s\<lparr>transfer_rings := (transfer_rings s)(ring_phys_addr cr := cr)\<rparr>)))"

definition new_input_context :: "Machine \<Rightarrow> u64 driver" where
  "new_input_context M s =
     (let a = new_box M 4096 s in Some (Ok a, s\<lparr>input_contexts := (input_contexts s)(a := InputContext_default)\<rparr>))"

definition on_input_context :: "u64 \<Rightarrow> (InputContext \<Rightarrow> InputContext result) \<Rightarrow> unit driver" where
  "on_input_context a f s =
     sbind (lift (f (input_contexts s a)) s) (\<lambda>ic s. Some (Ok (), s\<lparr>input_contexts := (input_contexts s)(a := ic)\<rparr>))"

definition address_device :: "Machine \<Rightarrow> usize \<Rightarrow> u8 \<Rightarrow> u64 driver" where
  "address_device M port slot s =
     sbind (set_output_context_for_slot slot (new_box M 4096 s) s) (\<lambda>_ s.
     sbind (lift (rbind (add_context 0 InputControlContext_default) (add_context 1)) s) (\<lambda>ctrl s.
     sbind (new_input_context M s) (\<lambda>ic s.
     sbind (on_input_context ic (set_input_ctrl_ctx ctrl) s) (\<lambda>_ s.
     sbind (on_input_context ic (on_device_ctx (set_root_hub_port_number port)) s) (\<lambda>_ s.
     sbind (on_input_context ic (on_device_ctx (set_last_valid_dci 1)) s) (\<lambda>_ s.
     if port_exists port s
     then let portsc = ports s ! (port - 1) in
       sbind (on_input_context ic (on_device_ctx (set_port_speed (port_speed portsc))) s) (\<lambda>_ s.
       sbind (new_ring M s) (\<lambda>ring s.
       sbind (lift (rbind (port_max_packet_size portsc) (\<lambda>mps. new_control_endpoint mps ring)) s) (\<lambda>ep s.
       sbind (on_input_context ic (set_ep_ctx 1 ep) s) (\<lambda>_ s.
       sbind (lift (cmd_address_device ic slot) s) (\<lambda>cmd s.
       sbind (send_command M cmd s) (\<lambda>e s.
       sbind (lift (cmd_result_ok e) s) (\<lambda>_ s. Some (Ok ring, s))))))))
     else Some (Err ''PORTSC was invalid'', s)))))))"

definition configure_bulk_endpoint :: "Machine \<Rightarrow> u8 \<Rightarrow> EndpointDescriptor \<Rightarrow> usize \<Rightarrow> u64 driver" where
  "configure_bulk_endpoint M slot ep dci s =
     sbind (new_ring M s) (\<lambda>ring s.
     sbind (lift (bulk_input_context (endpoint_address ep) (ed_max_packet_size ep) dci ring) s) (\<lambda>ctx s.
     sbind (new_input_context M s) (\<lambda>ic s.
     sbind (on_input_context ic (\<lambda>_. Ok ctx) s) (\<lambda>_ s.
     sbind (lift (cmd_configure_endpoint ic slot) s) (\<lambda>cmd s.
     sbind (send_command M cmd s) (\<lambda>e s.
     sbind (lift (cmd_result_ok e) s) (\<lambda>_ s. Some (Ok ring, s))))))))"

section \<open>Sequencing\<close>

lemma lift_simps [simp]: "lift (Ok x) s = Some (Ok x, s)" "lift (Err e) s = Some (Err e, s)" "lift (Panic p) s = Some (Panic p, s)"
  by (simp_all add: lift_def)

text \<open>Where an outcome of a sequence comes from: the first step that is not \<open>Ok\<close>, or the last.\<close>

lemma sbind_outcome:
  assumes "sbind m f = Some (r, s')"
  obtains (first) r1 where "m = Some (r1, s')" "\<not> is_ok r1" "\<not> is_ok r"
  | (last) x s1 where "m = Some (Ok x, s1)" "f x s1 = Some (r, s')"
proof (cases m)
  case None
  with assms show ?thesis by simp
next
  case (Some p)
  obtain r1 s1 where p: "p = (r1, s1)" by (cases p)
  show ?thesis
  proof (cases r1)
    case (Ok x)
    with Some p assms show ?thesis by (intro last [of x s1]) simp_all
  next
    case (Err e)
    with Some p assms show ?thesis by (intro first [of r1]) auto
  next
    case (Panic e)
    with Some p assms show ?thesis by (intro first [of r1]) auto
  qed
qed

section \<open>What the driver does to its history\<close>

text \<open>The rest of the system does not write the driver's history.\<close>

definition quiet :: "Machine \<Rightarrow> bool" where
  "quiet M \<longleftrightarrow> (\<forall>s. history (turn M s) = history s)"

lemma await_event_history:
  assumes "await_event M i s = Some (r, s')" and "quiet M"
  shows "history s' = history s \<and> is_ok r"
proof -
  have "quiet M \<longrightarrow> history (snd p) = history s \<and> is_ok (fst p)" if "await_event M i s = Some p" for p
    using that
  proof (rule await_event.raw_induct [where P = "\<lambda>M i s p. quiet M \<longrightarrow> history (snd p) = history s \<and> is_ok (fst p)", rotated])
    fix await M i s p
    assume ih: "\<And>M i s p. await M i s = Some p \<Longrightarrow> quiet M \<longrightarrow> history (snd p) = history s \<and> is_ok (fst p)"
      and body: "(case future_poll i (wait_infos s) of
        (Some e, ws) \<Rightarrow> Some (Ok e, s\<lparr>wait_infos := future_drop i ws\<rparr>)
      | (None, ws) \<Rightarrow> await M i (turn M (s\<lparr>wait_infos := ws\<rparr>))) = Some p"
    obtain x ws where f: "future_poll i (wait_infos s) = (x, ws)" by (cases "future_poll i (wait_infos s)")
    show "quiet M \<longrightarrow> history (snd p) = history s \<and> is_ok (fst p)"
    proof (cases x)
      case None
      with body f have "await M i (turn M (s\<lparr>wait_infos := ws\<rparr>)) = Some p" by simp
      from ih [OF this] show ?thesis by (simp add: quiet_def)
    next
      case (Some e)
      with body f show ?thesis by auto
    qed
  qed
  from this [OF assms(1)] assms(2) show ?thesis by simp
qed

text \<open>The actions of one awaited transfer, complete and cut short.\<close>

definition transfer_acts :: "u8 \<Rightarrow> u64 \<times> usize \<times> GenericTrbEntry \<Rightarrow> u64 \<Rightarrow> GenericTrbEntry \<Rightarrow> Action list" where
  "transfer_acts slot st p ev = (case st of (ring, dci, trb) \<Rightarrow>
     [Pushed ring trb p, Rang (unat slot) (doorbell_value (of_nat dci) 0), Completed p ev])"

definition completes :: "u8 \<Rightarrow> u64 \<times> usize \<times> GenericTrbEntry \<Rightarrow> Action list \<Rightarrow> bool" where
  "completes slot st acts \<longleftrightarrow> (\<exists>p ev. acts = transfer_acts slot st p ev \<and> transfer_result_ok ev = Ok ())"

definition cut_short :: "u8 \<Rightarrow> u64 \<times> usize \<times> GenericTrbEntry \<Rightarrow> Action list \<Rightarrow> bool" where
  "cut_short slot st acts \<longleftrightarrow> (\<exists>p ev n. acts = take n (transfer_acts slot st p ev) \<and> (n = 3 \<longrightarrow> transfer_result_ok ev \<noteq> Ok ()) \<and> n \<le> 3)"

text \<open>A sequence of transfers, each started only after the one before it completed without error.\<close>

fun in_order :: "u8 \<Rightarrow> (u64 \<times> usize \<times> GenericTrbEntry) list \<Rightarrow> Action list \<Rightarrow> bool" where
  "in_order slot [] acts \<longleftrightarrow> acts = []"
| "in_order slot (st # sts) acts \<longleftrightarrow>
     cut_short slot st acts \<or> (\<exists>a1 a2. acts = a1 @ a2 \<and> completes slot st a1 \<and> in_order slot sts a2)"

fun all_complete :: "u8 \<Rightarrow> (u64 \<times> usize \<times> GenericTrbEntry) list \<Rightarrow> Action list \<Rightarrow> bool" where
  "all_complete slot [] acts \<longleftrightarrow> acts = []"
| "all_complete slot (st # sts) acts \<longleftrightarrow> (\<exists>a1 a2. acts = a1 @ a2 \<and> completes slot st a1 \<and> all_complete slot sts a2)"

lemma all_complete_in_order: "all_complete slot sts acts \<Longrightarrow> in_order slot sts acts"
  by (induction sts arbitrary: acts) auto

lemma push_ring_cases:
  assumes "push_ring h e s = Some (r, s')"
  obtains p where "r = Ok p" "history s' = history s @ [Pushed h e p]" "usbsts s' = usbsts s" "doorbells s' = doorbells s"
  | "\<not> is_ok r" "history s' = history s"
  using assms by (cases "push e (transfer_rings s h)"; cases r) (auto simp: push_ring_def Let_def note_action_def)

lemma notify_ep_cases:
  assumes "notify_ep slot dci s = Some (r, s')"
  obtains "r = Ok ()" "dci < 256" "history s' = history s @ [Rang (unat slot) (doorbell_value (of_nat dci) 0)]"
  | "\<not> is_ok r" "history s' = history s"
  using assms by (auto simp: notify_ep_def doorbell_notify_def note_action_def Let_def split: if_splits)

lemma wait_for_transfer_cases:
  assumes "quiet M" "wait_for_transfer M p s = Some (r, s')"
  obtains ev where "r = transfer_result_ok ev" "history s' = history s @ [Completed p ev]"
proof -
  let ?i = "new_waiter M s"
  obtain er ws where n: "new_for_trb ?i p (event_ring s) (wait_infos s) = (er, ws)" by fastforce
  let ?s = "s\<lparr>event_ring := er, wait_infos := ws\<rparr>"
  from assms(2) n obtain r1 s1 where aw: "await_event M ?i ?s = Some (r1, s1)"
    by (cases "await_event M ?i ?s") (auto simp: wait_for_transfer_def wait_for_trb_def wait_for_def Let_def)
  from await_event_history [OF aw assms(1)] obtain ev where "r1 = Ok ev" "history s1 = history s"
    by (auto simp: is_ok_iff)
  with aw n assms(2) have "r = transfer_result_ok ev" "history s' = history s @ [Completed p ev]"
    by (auto simp: wait_for_transfer_def wait_for_trb_def wait_for_def Let_def lift_def note_action_def)
  then show ?thesis by (rule that)
qed

end
