(* ===== verification/XhciController.thy ===== *)
theory XhciController
  imports XhciDriver HeapBox
begin

text \<open>
  Bringing the controller up: \<open>ScratchpadBuffers::alloc\<close>, \<open>Controller::new\<close> with its \<open>init_\<close> functions
  and \<open>PciXhciDriver::attach\<close> of \<open>xhci.rs\<close>, over the memory of the kernel (page tables and heap), the
  registers of the controller and the PCI configuration space. As in the register theory, the
  controller moves between two reads of a polling loop by a function that is a parameter.
\<close>

section \<open>Scratchpad buffers\<close>

text \<open>
  A direct call of the allocator and \<open>slice::from_raw_parts\<close> on what it returns, which must not
  be null; and the copy of such a slice into a new box.
\<close>

definition alloc_slice :: "usize \<times> usize \<Rightarrow> usize on_heap" where
  "alloc_slice l h =
     Option.bind (alloc_with_options h (fst l) (snd l)) (\<lambda>r. Some (case r of
         Ok (p, h') \<Rightarrow> if p = 0 then (Panic ''slice at the null pointer'', h) else (Ok p, h')
       | Err e \<Rightarrow> (Err e, h)
       | Panic e \<Rightarrow> (Panic e, h)))"

definition on_heap_result :: "'a result \<Rightarrow> 'a on_heap" where
  "on_heap_result r h = Some (r, h)"

definition scratchpad_buffer :: "usize \<Rightarrow> usize on_heap" where
  "scratchpad_buffer page h =
     sbind (on_heap_result (layout_from_size_align page page ''couldnt allocated scratchpad buffer'') h) (\<lambda>l h.
     sbind (alloc_slice l h) (\<lambda>_ h. heap_box page 1 h))"

text \<open>The loop over the entries of the table.\<close>

primrec scratchpad_loop :: "nat \<Rightarrow> usize \<Rightarrow> usize list on_heap" where
  "scratchpad_loop 0 page h = Some (Ok [], h)"
| "scratchpad_loop (Suc n) page h =
     sbind (scratchpad_buffer page h) (\<lambda>b h. sbind (scratchpad_loop n page h) (\<lambda>bs h. Some (Ok (b # bs), h)))"

record ScratchpadBuffers =
  sp_table :: usize
  sp_entries :: "usize list"

definition ScratchpadBuffers_alloc :: "CapabilityRegisters \<Rightarrow> OperationalRegisters \<Rightarrow> ScratchpadBuffers on_heap" where
  "ScratchpadBuffers_alloc cap opr h =
     sbind (on_heap_result (page_size opr) h) (\<lambda>page h.
     let num = max (num_scratchpad_bufs cap) 1 in
     sbind (on_heap_result (layout_from_size_align (8 * num) page ''Failed to allocate scratchpad buffer table'') h) (\<lambda>l h.
     sbind (alloc_slice l h) (\<lambda>_ h.
     sbind (heap_box (8 * num) 8 h) (\<lambda>table h.
     sbind (scratchpad_loop num page h) (\<lambda>bufs h.
       Some (Ok \<lparr>sp_table = table, sp_entries = bufs\<rparr>, h))))))"

section \<open>The controller\<close>

record System =
  sys_space :: AddressSpace
  sys_op :: OperationalRegisters
  sys_irs :: "InterrupterRegisterSet list"

record Controller =
  c_regs :: XhcRegisters
  c_scratchpad :: ScratchpadBuffers
  c_dcbaa :: DeviceContextBaseAddressArray
  c_dcbaa_addr :: u64
  c_erst_addr :: u64
  c_event_ring :: EventRing
  c_command_ring :: CommandRing

type_synonym 'a bring_up = "System \<Rightarrow> ('a result \<times> System) option"

definition with_heap :: "'a on_heap \<Rightarrow> 'a bring_up" where
  "with_heap f s = map_option (\<lambda>(r, h). (r, s\<lparr>sys_space := (sys_space s)\<lparr>space := (space (sys_space s))\<lparr>pt_heap := h\<rparr>\<rparr>\<rparr>))
     (f (pt_heap (space (sys_space s))))"

definition with_space :: "(AddressSpace \<Rightarrow> ('a result \<times> AddressSpace) option) \<Rightarrow> 'a bring_up" where
  "with_space f s = map_option (\<lambda>(r, a). (r, s\<lparr>sys_space := a\<rparr>)) (f (sys_space s))"

definition just :: "'a result \<Rightarrow> 'a bring_up" where
  "just r s = Some (r, s)"

definition poll_op :: "(OperationalRegisters \<Rightarrow> OperationalRegisters option) \<Rightarrow> unit bring_up" where
  "poll_op f s = map_option (\<lambda>op. (Ok (), s\<lparr>sys_op := op\<rparr>)) (f (sys_op s))"

text \<open>
  \<open>EventRing::new\<close> makes the ring and then the segment table, each in an \<open>IoBox\<close> of 4096 bytes;
  \<open>CommandRing::default\<close> makes its ring. \<open>RawDeviceContextBaseAddressArray\<close> has 2048 bytes aligned to 64.
\<close>

definition new_event_ring :: "(EventRing \<times> u64) bring_up" where
  "new_event_ring s =
     sbind (with_space (IoBox_new 4096) s) (\<lambda>ring s.
     sbind (just (EventRing_new ring) s) (\<lambda>er s.
     sbind (with_space (IoBox_new 4096) s) (\<lambda>erst s. Some (Ok (er, erst), s))))"

definition new_command_ring :: "CommandRing bring_up" where
  "new_command_ring s = sbind (with_space (IoBox_new 4096) s) (\<lambda>ring. just (CommandRing_default ring))"

definition init_primary_event_ring :: "Controller \<Rightarrow> Controller bring_up" where
  "init_primary_event_ring c s =
     (case init_irs 0 (c_erst_addr c) (sys_irs s) (c_event_ring c) of
        Ok (irs, er) \<Rightarrow> Some (Ok (c\<lparr>c_event_ring := er\<rparr>), s\<lparr>sys_irs := irs\<rparr>)
      | Err e \<Rightarrow> Some (Err e, s)
      | Panic e \<Rightarrow> Some (Panic e, s))"

definition init_slots_and_contexts :: "Controller \<Rightarrow> System \<Rightarrow> System" where
  "init_slots_and_contexts c s =
     s\<lparr>sys_op := set_dcbaa_ptr (c_dcbaa_addr c) (set_num_device_slots (num_of_device_slots (cap_regs (c_regs c))) (sys_op s))\<rparr>"

definition init_command_ring :: "Controller \<Rightarrow> System \<Rightarrow> System" where
  "init_command_ring c s = s\<lparr>sys_op := set_cmd_ring_ctrl (ring_phys_addr (c_command_ring c)) (sys_op s)\<rparr>"

definition Controller_new :: "(OperationalRegisters \<Rightarrow> OperationalRegisters) \<Rightarrow> XhcRegisters \<Rightarrow> Controller bring_up" where
  "Controller_new device regs s =
     sbind (poll_op (reset_xhc device) s) (\<lambda>_ s.
     sbind (with_heap (ScratchpadBuffers_alloc (cap_regs regs) (sys_op s)) s) (\<lambda>sp s.
     sbind (with_heap (heap_box 2048 64) s) (\<lambda>dcbaa s.
     sbind (new_event_ring s) (\<lambda>(er, erst) s.
     sbind (new_command_ring s) (\<lambda>cr s.
     sbind (init_primary_event_ring
         \<lparr>c_regs = regs, c_scratchpad = sp, c_dcbaa = DeviceContextBaseAddressArray_new (of_nat (sp_table sp)),
          c_dcbaa_addr = of_nat dcbaa, c_erst_addr = erst, c_event_ring = er, c_command_ring = cr\<rparr> s) (\<lambda>c s.
     sbind (poll_op (start_xhc device) (init_command_ring c (init_slots_and_contexts c s))) (\<lambda>_ s.
       Some (Ok c, s))))))))"

section \<open>Attaching the driver\<close>

record 'hw Attach =
  at_hw :: 'hw
  at_sys :: System
  at_spawned :: "Controller list"

definition on_config :: "('hw \<Rightarrow> ('a \<times> 'hw) result) \<Rightarrow> 'hw Attach \<Rightarrow> ('a result \<times> 'hw Attach) option" where
  "on_config f s = Some (case f (at_hw s) of Ok (x, hw) \<Rightarrow> (Ok x, s\<lparr>at_hw := hw\<rparr>) | Err e \<Rightarrow> (Err e, s) | Panic e \<Rightarrow> (Panic e, s))"

definition on_system :: "'a bring_up \<Rightarrow> 'hw Attach \<Rightarrow> ('a result \<times> 'hw Attach) option" where
  "on_system f s = map_option (\<lambda>(r, y). (r, s\<lparr>at_sys := y\<rparr>)) (f (at_sys s))"

definition no_value :: "('hw \<Rightarrow> 'hw result) \<Rightarrow> 'hw \<Rightarrow> (unit \<times> 'hw) result" where
  "no_value f hw = rbind (f hw) (\<lambda>hw. Ok ((), hw))"

text \<open>
  \<open>attach\<close>; \<open>read_caps\<close> and \<open>read_regs\<close> give what the register blocks hold that the driver finds
  through BAR 0. The last step hands the controller to the executor as the task \<open>run\<close>.
\<close>

definition attach ::
  "'hw ConfigAccess \<Rightarrow> (OperationalRegisters \<Rightarrow> OperationalRegisters) \<Rightarrow> (u64 \<Rightarrow> CapabilityRegisters) \<Rightarrow>
   (XhcRegisters \<Rightarrow> OperationalRegisters \<times> InterrupterRegisterSet list) \<Rightarrow> Pci \<Rightarrow> BusDeviceFunction \<Rightarrow>
   'hw Attach \<Rightarrow> (unit result \<times> 'hw Attach) option" where
  "attach acc device read_caps read_regs pci bdf s =
     sbind (on_config (no_value (disable_interrupt acc pci bdf)) s) (\<lambda>_ s.
     sbind (on_config (no_value (enable_bus_mastering acc pci bdf)) s) (\<lambda>_ s.
     sbind (on_config (try_bar0_mem64 acc pci bdf) s) (\<lambda>bar0 s.
     sbind (on_system (with_space (disable_cach bar0)) s) (\<lambda>_ s.
     sbind (Some (setup_xhc_registers read_caps bar0, s)) (\<lambda>regs s.
     sbind (on_system (\<lambda>y. case read_regs regs of (opr, irs) \<Rightarrow> Controller_new device regs (y\<lparr>sys_op := opr, sys_irs := irs\<rparr>)) s) (\<lambda>xhc s.
       Some (Ok (), s\<lparr>at_spawned := at_spawned s @ [xhc]\<rparr>)))))))"

section \<open>Where the buffers lie\<close>

lemma page_requests:
  assumes "page = 2 ^ (k + 12)" and "k < 16"
  shows "request page page = Some (page, page)" "request page 1 = Some (page, 32)" "layout_ok page page" "layout_ok page 1"
    "layout_from_size_align page page e = Ok (page, page)" "32 dvd page" "4096 \<le> page"
proof -
  have "(2::nat) ^ (k + 12) \<le> 2 ^ 27" using assms(2) by (intro power_increasing) simp_all
  then have le: "page \<le> 2 ^ 27" using assms(1) by simp
  have "(2::nat) ^ 12 \<le> 2 ^ (k + 12)" by (intro power_increasing) simp_all
  then show ge: "4096 \<le> page" using assms(1) by simp
  have "round_up_to_nearest_pow2 page = Ok page" using assms by (simp add: round_up_exp)
  then show "request page page = Some (page, page)" "request page 1 = Some (page, 32)"
    using ge by (simp_all add: request_def HEADER_SIZE_def)
  show "layout_ok page page" "layout_ok page 1" using le assms(1) by (auto simp: layout_ok_def intro: exI [of _ 0])
  show "layout_from_size_align page page e = Ok (page, page)"
    using le is_pow2_exp [of "k + 12"] assms(1) by (simp add: layout_from_size_align_def)
  show "32 dvd page" using assms(1) le_imp_power_dvd [of 5 "k + 12" "2 :: nat"] by simp
qed

lemma scratchpad_buffer_place:
  assumes fb: "first_block h a s" and page: "page = 2 ^ (k + 12)" "k < 16" and room: "3 * page + 256 \<le> s"
  shows "\<exists>b h' s'. scratchpad_buffer page h = Some (Ok b, h') \<and> leaves a s' h h' \<and> s' \<le> s \<and> s \<le> s' + (3 * page + 256) \<and>
    b mod page = page - 32"
proof -
  note r = page_requests [OF page]
  have "page + 64 + page \<le> s" using room by simp
  from alloc_in_first_block [OF fb r(3,1) this] obtain p h1 where
    1: "alloc_with_options h page page = Some (Ok (p, h1))" "p = (a + s - page) div page * page" "p \<noteq> 0"
       "leaves a (p - 32 - a) h h1" "s - page - page - 32 \<le> p - 32 - a" "a + 64 < p" "p + page \<le> a + s" by blast
  have "page + 64 + 32 \<le> p - 32 - a" using 1(5) room by linarith
  from alloc_in_first_block [OF leavesD [OF 1(4)] r(4,2) this] obtain b h2 where
    2: "alloc_with_options h1 page 1 = Some (Ok (b, h2))" "b = (a + (p - 32 - a) - page) div 32 * 32" "b \<noteq> 0"
       "leaves a (b - 32 - a) h1 h2" "p - 32 - a - page - 32 - 32 \<le> b - 32 - a" "b + page \<le> a + (p - 32 - a)" by blast
  obtain q where q: "p = q * page" using 1(2) by blast
  have big: "page + 32 + 64 < p" using 1(5,6) room by linarith
  then have "0 < q" using q by (cases q) auto
  then obtain j where j: "q = Suc j" by (cases q) auto
  have "page \<le> j * page" using big q j r(7) by (cases j) auto
  have "a + (p - 32 - a) - page = j * page - 32" using q j 1(6) by simp
  moreover have "32 dvd j * page - 32" using r(6) \<open>page \<le> j * page\<close> r(7) by (intro dvd_diff_nat) auto
  ultimately have b: "b = j * page - 32" using 2(2) by simp
  obtain i where i: "j = Suc i" using \<open>page \<le> j * page\<close> r(7) by (cases j) auto
  have split: "b = i * page + (page - 32)" using b i r(7) by simp
  have "b mod page = page - 32" unfolding split mod_mult_self3 using r(7) by (intro mod_less) simp
  moreover have "scratchpad_buffer page h = Some (Ok b, h2)"
    using 1(1,3) 2(1,3) by (simp add: scratchpad_buffer_def on_heap_result_def r(5) alloc_slice_def heap_box_def)
  moreover have "s \<le> (b - 32 - a) + (3 * page + 256)" using 1(5) 2(5) room by linarith
  moreover have "b - 32 - a \<le> s" using 1(7) 2(6) by linarith
  ultimately show ?thesis using leaves_trans [OF 1(4) 2(4)] by blast
qed

lemma scratchpad_loop_places:
  assumes page: "page = 2 ^ (k + 12)" "k < 16"
  shows "first_block h a s \<Longrightarrow> n * (3 * page + 256) \<le> s \<Longrightarrow>
    \<exists>bs h' s'. scratchpad_loop n page h = Some (Ok bs, h') \<and> leaves a s' h h' \<and> s' \<le> s \<and> s \<le> s' + n * (3 * page + 256) \<and>
      length bs = n \<and> (\<forall>b \<in> set bs. b mod page = page - 32)"
proof (induction n arbitrary: h s)
  case 0
  then show ?case by (auto simp: leaves_def)
next
  case (Suc n)
  from scratchpad_buffer_place [OF Suc.prems(1) page] Suc.prems(2) obtain b h1 s1 where
    b: "scratchpad_buffer page h = Some (Ok b, h1)" "leaves a s1 h h1" "s1 \<le> s" "s \<le> s1 + (3 * page + 256)" "b mod page = page - 32"
    by auto
  have "n * (3 * page + 256) \<le> s1" using b(4) Suc.prems(2) by simp
  from Suc.IH [OF leavesD [OF b(2)] this] obtain bs h2 s2 where
    bs: "scratchpad_loop n page h1 = Some (Ok bs, h2)" "leaves a s2 h1 h2" "s2 \<le> s1" "s1 \<le> s2 + n * (3 * page + 256)"
      "length bs = n" "\<forall>b \<in> set bs. b mod page = page - 32" by blast
  then have "scratchpad_loop (Suc n) page h = Some (Ok (b # bs), h2)" using b(1) by simp
  moreover have "s \<le> s2 + Suc n * (3 * page + 256)" using bs(4) b(4) by simp
  ultimately show ?case using bs b(3,5) leaves_trans [OF b(2) bs(2)]
    by (intro exI [of _ "b # bs"] exI [of _ h2] exI [of _ s2]) simp
qed

lemma num_scratchpad_less: "num_scratchpad_bufs cap < 1024"
proof -
  have f: "n < 5" if "bit (extract_bits w s 5) n" "s < 32" for w :: u32 and s n
  proof (rule ccontr)
    assume "\<not> n < 5"
    have "unat (extract_bits w s 5) < 2 ^ 5" using extract_bits_value [of s w 5] that(2) by simp
    also have "(2 :: nat) ^ 5 \<le> 2 ^ n" using \<open>\<not> n < 5\<close> by (intro power_increasing) simp_all
    finally have "\<not> bit (unat (extract_bits w s 5)) n" by (simp add: bit_iff_odd)
    with that(1) show False by (simp add: bit_unsigned_iff)
  qed
  let ?w = "push_bit 5 (extract_bits (hcsparams2 cap) 21 5) OR extract_bits (hcsparams2 cap) 27 5"
  have low: "n < 10" if "bit ?w n" for n
  proof -
    from that have "bit (extract_bits (hcsparams2 cap) 21 5) (n - 5) \<or> bit (extract_bits (hcsparams2 cap) 27 5) n"
      by (auto simp: bit_or_iff bit_push_bit_iff)
    with f [of "hcsparams2 cap" 21 "n - 5"] f [of "hcsparams2 cap" 27 n] show ?thesis by auto
  qed
  have "take_bit 10 ?w = ?w"
  proof (rule bit_word_eqI)
    fix n show "bit (take_bit 10 ?w) n \<longleftrightarrow> bit ?w n" unfolding bit_take_bit_iff using low by blast
  qed
  then have "unat ?w = take_bit 10 (unat ?w)" 
    using unsigned_take_bit_eq [of 10 ?w, where 'a = nat] by simp
  also have "\<dots> < 2 ^ 10" by (rule take_bit_nat_less_exp)
  finally show ?thesis by (simp add: num_scratchpad_bufs_def)
qed

text \<open>The request for the table of \<open>num\<close> pointers.\<close>

lemma table_request:
  assumes "1 \<le> num" "num < 1024" "page = 2 ^ (k + 12)" "k < 16"
  shows "\<exists>n \<le> 16384. request (8 * num) page = Some (n, page) \<and> request (8 * num) 8 = Some (n, 32)"
    and "layout_ok (8 * num) page" "layout_ok (8 * num) 8" "layout_from_size_align (8 * num) page e = Ok (8 * num, page)"
proof -
  have ge: "4096 \<le> page" and le: "page \<le> 2 ^ 27"
    using page_requests(7) [OF assms(3,4)] assms(3,4) power_increasing [of "k + 12" 27 "2 :: nat"] by simp_all
  let ?n = "2 ^ bit_length (8 * num - 1) :: nat"
  have "8 * num \<le> ?n" "?n < 2 * (8 * num)" using round_up_bounds [of "8 * num"] assms(1) by simp_all
  then have "max ?n 32 \<le> 16384" using assms(2) by simp
  moreover have "round_up_to_nearest_pow2 (8 * num) = Ok ?n" using assms(1,2) by (simp add: round_up_eq)
  ultimately show "\<exists>n \<le> 16384. request (8 * num) page = Some (n, page) \<and> request (8 * num) 8 = Some (n, 32)"
    using ge by (auto simp: request_def HEADER_SIZE_def)
  show "layout_ok (8 * num) page" "layout_ok (8 * num) 8" using le assms by (auto simp: layout_ok_def intro: exI [of _ 3])
  show "layout_from_size_align (8 * num) page e = Ok (8 * num, page)"
    using le is_pow2_exp [of "k + 12"] assms by (simp add: layout_from_size_align_def)
qed

lemma ScratchpadBuffers_alloc_places:
  assumes "page_size opr = Ok page" and "first_block h a s"
    and "max (num_scratchpad_bufs cap) 1 * (3 * page + 256) + page + 4 * 16384 \<le> s"
  shows "\<exists>sp h' s'. ScratchpadBuffers_alloc cap opr h = Some (Ok sp, h') \<and> leaves a s' h h' \<and> s' \<le> s \<and>
    s \<le> s' + (max (num_scratchpad_bufs cap) 1 * (3 * page + 256) + page + 4 * 16384) \<and>
    length (sp_entries sp) = max (num_scratchpad_bufs cap) 1 \<and> (\<forall>b \<in> set (sp_entries sp). b mod page = page - 32 \<and> 0 < page - 32)"
proof -
  obtain k where page: "page = 2 ^ (k + 12)" "k < 16" using assms(1) by (auto simp: page_size_eq_Ok)
  define num where "num = max (num_scratchpad_bufs cap) 1"
  have num: "1 \<le> num" "num < 1024" using num_scratchpad_less [of cap] by (simp_all add: num_def)
  note room = assms(3) [folded num_def]
  from table_request(1) [OF num page] obtain n where n: "n \<le> 16384" "request (8 * num) page = Some (n, page)"
    "request (8 * num) 8 = Some (n, 32)" by blast
  have "n + 64 + page \<le> s" using room n(1) by simp
  from alloc_in_first_block [OF assms(2) table_request(2) [OF num page] n(2) this] obtain p h1 where
    1: "alloc_with_options h (8 * num) page = Some (Ok (p, h1))" "p \<noteq> 0" "leaves a (p - 32 - a) h h1"
       "s - n - page - 32 \<le> p - 32 - a" "p + n \<le> a + s" by blast
  have "n + 64 + 32 \<le> p - 32 - a" using 1(4) room n(1) by simp
  from alloc_in_first_block [OF leavesD [OF 1(3)] table_request(3) [OF num page] n(3) this] obtain q h2 where
    2: "alloc_with_options h1 (8 * num) 8 = Some (Ok (q, h2))" "q \<noteq> 0" "leaves a (q - 32 - a) h1 h2"
       "p - 32 - a - n - 32 - 32 \<le> q - 32 - a" "q + n \<le> a + (p - 32 - a)" by blast
  have q: "num * (3 * page + 256) \<le> q - 32 - a" using 1(4) 2(4) room n(1) by linarith
  from scratchpad_loop_places [OF page leavesD [OF 2(3)] q] obtain bs h3 s3 where
    3: "scratchpad_loop num page h2 = Some (Ok bs, h3)" "leaves a s3 h2 h3" "s3 \<le> q - 32 - a"
      "q - 32 - a \<le> s3 + num * (3 * page + 256)" "length bs = num" "\<forall>b \<in> set bs. b mod page = page - 32" by blast
  have "alloc_slice (8 * num, page) h = Some (Ok p, h1)" "heap_box (8 * num) 8 h1 = Some (Ok q, h2)"
    using 1(1,2) 2(1,2) by (simp_all add: alloc_slice_def heap_box_def)
  then have "ScratchpadBuffers_alloc cap opr h = Some (Ok \<lparr>sp_table = q, sp_entries = bs\<rparr>, h3)"
    unfolding ScratchpadBuffers_alloc_def Let_def num_def [symmetric] on_heap_result_def assms(1)
    using 3(1) by (simp add: table_request(4) [OF num page])
  moreover have "s3 \<le> s" using 3(3) 2(5) 1(5) by linarith
  moreover have "s \<le> s3 + (num * (3 * page + 256) + page + 4 * 16384)"
  proof -
    have "s \<le> t + n + page + 32" if "s - n - page - 32 \<le> t" for t using that by linarith
    from this [OF 1(4)] have "s \<le> (p - 32 - a) + (n + page + 32)" by simp
    also have "t \<le> u + n + 64" if "t - n - 32 - 32 \<le> u" for t u using that by linarith
    from this [OF 2(4)] have "p - 32 - a \<le> (q - 32 - a) + (n + 64)" by simp
    also note 3(4)
    finally have "s \<le> s3 + num * (3 * page + 256) + (n + 64) + (n + page + 32)" by simp
    then show ?thesis using n(1) by simp
  qed
  moreover have "0 < page - 32" using page_requests(7) [OF page] by simp
  then have "length (sp_entries \<lparr>sp_table = q, sp_entries = bs\<rparr>) = num"
    "\<forall>b \<in> set (sp_entries \<lparr>sp_table = q, sp_entries = bs\<rparr>). b mod page = page - 32 \<and> 0 < page - 32"
    using 3(5,6) by simp_all
  ultimately show ?thesis using leaves_trans [OF leaves_trans [OF 1(3) 2(3)] 3(2)] unfolding num_def [symmetric] by blast
qed

text \<open>
  C19. With room in the first block of the heap, the scratchpad buffers are allocated, as many as the
  controller asks for (one if it asks for none), but none of them is aligned to the page size that
  the allocation asked for: each ends 32 bytes below a page boundary, since the aligned
  region is copied into a box of bytes and only the box is kept.
\<close>

theorem scratchpad_misaligned:
  assumes "page_size opr = Ok page" and "first_block h a s"
    and "max (num_scratchpad_bufs cap) 1 * (3 * page + 256) + page + 4 * 16384 \<le> s"
  shows "\<exists>sp h'. ScratchpadBuffers_alloc cap opr h = Some (Ok sp, h') \<and>
    length (sp_entries sp) = max (num_scratchpad_bufs cap) 1 \<and> (\<forall>b \<in> set (sp_entries sp). b mod page = page - 32 \<and> 0 < page - 32)"
  using ScratchpadBuffers_alloc_places [OF assms] by blast

definition roomy_heap :: FirstFitAllocator where
  "roomy_heap = \<lparr>first_header = Some 0x100000, heap_mem = [0x100000 \<mapsto> new_header\<lparr>hdr_size := 0x100000\<rparr>]\<rparr>"

theorem scratchpad_misaligned_witness:
  "\<exists>sp h'. ScratchpadBuffers_alloc \<lparr>cap_caplength = 0, hcsparams1 = 0, hcsparams2 = 0x10000000, cap_dboff = 0, cap_rtsoff = 0\<rparr>
      \<lparr>op_usbcmd = 0, op_usbsts = 1, op_pagesize = 1, op_crcr = 0, op_dcbaap = 0, op_config = 0\<rparr> roomy_heap = Some (Ok sp, h') \<and>
    length (sp_entries sp) = 2 \<and> (\<forall>b \<in> set (sp_entries sp). b mod 4096 = 4064)"
proof -
  let ?cap = "\<lparr>cap_caplength = 0, hcsparams1 = 0, hcsparams2 = 0x10000000, cap_dboff = 0, cap_rtsoff = 0\<rparr>"
  let ?op = "\<lparr>op_usbcmd = 0, op_usbsts = 1, op_pagesize = 1, op_crcr = 0, op_dcbaap = 0, op_config = 0\<rparr>"
  have p: "page_size ?op = Ok 4096" by (simp add: page_size_eq_Ok) (intro exI [of _ 0], simp)
  have "extract_bits (0x10000000 :: u32) 21 5 = 0" "extract_bits (0x10000000 :: u32) 27 5 = 2"
    using extract_bits_value [of 21 "0x10000000 :: u32" 5] extract_bits_value [of 27 "0x10000000 :: u32" 5]
    by (simp_all add: word_unat_eq_iff)
  then have n: "num_scratchpad_bufs ?cap = 2" by (simp add: num_scratchpad_bufs_def)
  have r: "represents roomy_heap [(0x100000, 0x100000, False)]" by (simp add: represents_def roomy_heap_def new_header_def)
  then have "first_block roomy_heap 0x100000 0x100000" unfolding first_block_def by blast
  from scratchpad_misaligned [OF p this, of ?cap] n show ?thesis by auto
qed

end
