(* ===== verification/BringUp.thy ===== *)
theory BringUp
  imports XhciController
begin

text \<open>
  What bringing the controller up leaves: \<open>Controller::new\<close> over the allocator, the page tables, the rings
  and the registers together. The lemmas follow the first block of the heap through the boxes,
  the pages handed to the device and the page tables they take.
\<close>

section \<open>Pages taken from the first block\<close>

lemma takes_pages_live: "takes_pages k h h' \<Longrightarrow> heap_inv h \<Longrightarrow> heap_inv h' \<and> live h \<subseteq> live h'"
proof (induction k arbitrary: h)
  case (Suc k)
  from Suc.prems(1) obtain p h1 where
    a: "alloc_with_options h PAGE_SIZE PAGE_SIZE = Some (Ok (p, h1))" "takes_pages k h1 h'" by auto
  with first_fit_heap.alloc_step [OF Suc.prems(2) layout_page] have "heap_inv h1" "live h \<subseteq> live h1" by auto
  with Suc.IH [OF a(2)] show ?case by blast
qed simp

lemma page_request: "request 4096 4096 = Some (4096, 4096)" "layout_ok 4096 4096"
  using page_requests(1,3) [of 4096 0] by simp_all

lemma first_block_page:
  assumes "first_block h a s" and "8256 \<le> s"
  shows "\<exists>p h'. alloc_with_options h 4096 4096 = Some (Ok (p, h')) \<and> p \<noteq> 0 \<and> p + 4096 \<le> a + s \<and>
    first_block h' a (p - 32 - a) \<and> s \<le> (p - 32 - a) + 8224 \<and> a + (p - 32 - a) \<le> a + s"
proof -
  have "4096 + 64 + 4096 \<le> s" using assms(2) by simp
  from alloc_in_first_block [OF assms(1) page_request(2,1) this] obtain p h' where
    a: "alloc_with_options h 4096 4096 = Some (Ok (p, h'))" "p \<noteq> 0" "leaves a (p - 32 - a) h h'"
      "s - 4096 - 4096 - 32 \<le> p - 32 - a" "a + 64 < p" "p + 4096 \<le> a + s" by blast
  moreover have "s \<le> (p - 32 - a) + 8224" using a(4) by linarith
  moreover have "a + (p - 32 - a) \<le> a + s" using a(5,6) by linarith
  ultimately show ?thesis using leavesD by blast
qed

lemma takes_pages_first_block:
  "takes_pages k h h' \<Longrightarrow> first_block h a s \<Longrightarrow> k * 8224 + 32 \<le> s \<Longrightarrow>
   \<exists>s'. first_block h' a s' \<and> s \<le> s' + k * 8224 \<and> s' \<le> s"
proof (induction k arbitrary: h s)
  case (Suc k)
  have "8256 \<le> s" using Suc.prems(3) by simp
  from first_block_page [OF Suc.prems(2) this] Suc.prems(1) obtain p h1 where
    a: "takes_pages k h1 h'" "first_block h1 a (p - 32 - a)" "s \<le> (p - 32 - a) + 8224" "p - 32 - a \<le> s"
    by (auto simp: PAGE_SIZE_def)
  from Suc.IH [OF a(1,2)] a(3,4) Suc.prems(3) show ?case by fastforce
qed auto

lemma first_block_can_alloc: "first_block h a s \<Longrightarrow> k * 8224 + 32 \<le> s \<Longrightarrow> can_alloc h k"
  unfolding first_block_def using can_alloc_front by blast

lemma one_page_tables: "tables_spanned 4 n (n + 1) = 3"
  by (simp add: tables_spanned_def upt_rec div_add_self2)

section \<open>Pages for a device\<close>

text \<open>A page that is mapped to itself for a device: present, writable, write-through and uncached.\<close>

definition uncached_page :: "AddressSpace \<Rightarrow> usize \<Rightarrow> bool" where
  "uncached_page s p \<longleftrightarrow> pte (pt_tables (space s)) (cr3 s) (p div 4096) = of_nat p OR attr_bits ReadWriteIo"

text \<open>The state of memory after a page of it was given to a device.\<close>

definition device_page :: "AddressSpace \<Rightarrow> usize \<Rightarrow> AddressSpace \<Rightarrow> bool" where
  "device_page s p s' \<longleftrightarrow> 4096 dvd p \<and> p + 4096 \<le> 2 ^ 48 \<and> cr3 s' = cr3 s \<and> pt_inv (cr3 s') (space s') \<and>
     live (pt_heap (space s)) \<subseteq> live (pt_heap (space s')) \<and> (\<exists>n \<ge> 4096. (p, n) \<in> live (pt_heap (space s'))) \<and>
     (\<forall>r \<in> live (pt_heap (space s)). regions_apart (p, 4096) r) \<and> uncached_page s' p \<and>
     (\<forall>n < 2 ^ 36. n \<noteq> p div 4096 \<longrightarrow> pte (pt_tables (space s')) (cr3 s') n = pte (pt_tables (space s)) (cr3 s) n)"

lemma IoBox_new_page:
  assumes inv: "pt_inv (cr3 s) (space s)" and fb: "first_block (pt_heap (space s)) a sz" and sz: "a + sz \<le> 2 ^ 48" "32960 \<le> sz"
  shows "\<exists>p s' sz'. IoBox_new 4096 s = Some (Ok (of_nat p), s') \<and> device_page s p s' \<and>
    first_block (pt_heap (space s')) a sz' \<and> a + sz' \<le> 2 ^ 48 \<and> sz \<le> sz' + 32896"
proof -
  have "8256 \<le> sz" using sz(2) by simp
  from first_block_page [OF fb this] obtain p h where
    p: "alloc_with_options (pt_heap (space s)) 4096 4096 = Some (Ok (p, h))" "p \<noteq> 0" "p + 4096 \<le> a + sz"
      "first_block h a (p - 32 - a)" "sz \<le> (p - 32 - a) + 8224" "a + (p - 32 - a) \<le> a + sz" by blast
  from inv have hi: "heap_inv (pt_heap (space s))" by (simp add: pt_inv_def tables_live_def)
  from first_fit_heap.alloc_fresh [OF hi page_request(2) p(1,2)] obtain n where
    n: "heap_inv h" "4096 dvd p" "4096 \<le> n" "live h = insert (p, n) (live (pt_heap (space s)))" by blast
  obtain vp where vp: "p = vp * 4096" using n(2) by (auto elim!: dvdE simp: mult.commute)
  have span: "tables_spanned 4 (p div 4096) ((p + 4096 + 4095) div 4096) = 3" using one_page_tables [of vp] by (simp add: vp)
  have mem: "can_alloc h (tables_spanned 4 (p div 4096) ((p + 4096 + 4095) div 4096))"
    unfolding span by (rule first_block_can_alloc [OF p(4)]) (use p(5) sz(2) in simp)
  have "alloc_with_options (pt_heap (space s)) ((4096 + 4095) div 4096 * 4096) 4096 = Some (Ok (p, h))" "p + 4096 \<le> 2 ^ 48"
    using p(1,3) sz(1) by simp_all
  from IoBox_new_correct [OF inv _ _ this(1) p(2) this(2) mem] obtain s' k where
    s': "IoBox_new 4096 s = Some (Ok (of_nat p), s')" "cr3 s' = cr3 s" "pt_inv (cr3 s') (space s')"
      "\<forall>r \<in> live (pt_heap (space s)). regions_apart (p, 4096) r"
    and pte: "\<forall>n < 2 ^ 36. pte (pt_tables (space s')) (cr3 s') n =
       (if p div 4096 \<le> n \<and> n * 4096 < p + 4096 then of_nat (n * 4096) OR attr_bits ReadWriteIo
        else pte (pt_tables (space s)) (cr3 s) n)"
    and k: "k \<le> 3" "takes_pages k h (pt_heap (space s'))" unfolding span by auto
  note lv = takes_pages_live [OF k(2) n(1)]
  have "k * 8224 + 32 \<le> p - 32 - a" using k(1) p(5) sz(2) by simp
  from takes_pages_first_block [OF k(2) p(4) this] obtain sz' where
    "first_block (pt_heap (space s')) a sz'" "p - 32 - a \<le> sz' + k * 8224" "sz' \<le> p - 32 - a" by blast
  moreover have "uncached_page s' p" using pte [rule_format, of vp] p(3) sz(1) by (simp add: uncached_page_def vp)
  moreover have "\<forall>n < 2 ^ 36. n \<noteq> p div 4096 \<longrightarrow> pte (pt_tables (space s')) (cr3 s') n = pte (pt_tables (space s)) (cr3 s) n"
    using pte by (auto simp: vp)
  ultimately show ?thesis using s' n lv p(3,5,6) k(1) sz(1)
    unfolding device_page_def by (intro exI [of _ p] exI [of _ s'] exI [of _ sz']) auto
qed

lemma device_page_others:
  "device_page s p s' \<Longrightarrow> n < 2 ^ 36 \<Longrightarrow> n \<noteq> p div 4096 \<Longrightarrow>
   pte (pt_tables (space s')) (cr3 s') n = pte (pt_tables (space s)) (cr3 s) n"
  unfolding device_page_def by blast

text \<open>Pages given to a device one after the other are different pages, and stay uncached.\<close>

lemma device_page_later:
  assumes "device_page s p s1" and "device_page s1 q s2" 
  shows "p \<noteq> q" and "uncached_page s2 p"
proof -
  obtain n where n: "4096 \<le> n" "(p, n) \<in> live (pt_heap (space s1))" using assms(1) by (auto simp: device_page_def)
  then have "regions_apart (q, 4096) (p, n)" using assms(2) by (auto simp: device_page_def)
  then show ne: "p \<noteq> q" using n(1) by (auto simp: regions_apart_def)
  moreover have "4096 dvd p" "4096 dvd q" "p + 4096 \<le> 2 ^ 48" using assms by (auto simp: device_page_def)
  ultimately have "p div 4096 \<noteq> q div 4096" "p div 4096 < 2 ^ 36" by auto
  then show "uncached_page s2 p" using assms by (auto simp: device_page_def uncached_page_def)
qed

section \<open>The controller\<close>

lemma with_heap_Ok:
  "f (pt_heap (space (sys_space s))) = Some (Ok x, h) \<Longrightarrow>
   with_heap f s = Some (Ok x, s\<lparr>sys_space := (sys_space s)\<lparr>space := (space (sys_space s))\<lparr>pt_heap := h\<rparr>\<rparr>\<rparr>)"
  by (simp add: with_heap_def)

lemma with_space_Ok: "f (sys_space s) = Some (Ok x, a) \<Longrightarrow> with_space f s = Some (Ok x, s\<lparr>sys_space := a\<rparr>)"
  by (simp add: with_space_def)

text \<open>Memory with page tables in it, and room in the first block of its heap.\<close>

definition roomy_space :: "AddressSpace \<Rightarrow> usize \<Rightarrow> usize \<Rightarrow> bool" where
  "roomy_space s a sz \<longleftrightarrow> pt_inv (cr3 s) (space s) \<and> first_block (pt_heap (space s)) a sz \<and> a + sz \<le> 2 ^ 48"

lemma roomy_space_heap:
  assumes "roomy_space s a sz" and "leaves a sz' (pt_heap (space s)) h" and "sz' \<le> sz"
  shows "roomy_space (s\<lparr>space := (space s)\<lparr>pt_heap := h\<rparr>\<rparr>) a sz'"
proof -
  have fb: "first_block h a sz'" and live: "live (pt_heap (space s)) \<subseteq> live h" using assms(2) by (simp_all add: leaves_def)
  from assms(1) have "wf_tables (pt_tables (space s)) (cr3 s)" "tables_live (space s)" "a + sz \<le> 2 ^ 48"
    by (simp_all add: roomy_space_def pt_inv_def)
  moreover from this(2) live first_block_inv [OF fb] have "tables_live ((space s)\<lparr>pt_heap := h\<rparr>)"
    unfolding tables_live_def by (simp, blast)
  ultimately show ?thesis using fb assms(3) by (simp add: roomy_space_def pt_inv_def)
qed

lemma roomy_space_page:
  assumes "roomy_space s a sz" and "32960 \<le> sz"
  shows "\<exists>p s' sz'. IoBox_new 4096 s = Some (Ok (of_nat p), s') \<and> device_page s p s' \<and> roomy_space s' a sz' \<and> sz \<le> sz' + 32896"
proof -
  from IoBox_new_page [of s a sz] assms obtain p s' sz' where
    "IoBox_new 4096 s = Some (Ok (of_nat p), s')" "device_page s p s'"
    "first_block (pt_heap (space s')) a sz'" "a + sz' \<le> 2 ^ 48" "sz \<le> sz' + 32896" by (auto simp: roomy_space_def)
  moreover from this(2) have "pt_inv (cr3 s') (space s')" unfolding device_page_def by blast
  ultimately show ?thesis unfolding roomy_space_def by blast
qed

lemma device_page_mono: "device_page s p s' \<Longrightarrow> live (pt_heap (space s)) \<subseteq> live (pt_heap (space s'))"
  unfolding device_page_def by blast

lemma device_page_address: "device_page s p s' \<Longrightarrow> unat (of_nat p :: u64) = p \<and> 4096 dvd p \<and> p + 4096 \<le> 2 ^ 48"
  by (auto simp: device_page_def unsigned_of_nat take_bit_nat_eq_self)

lemma new_event_ring_pages:
  assumes "roomy_space (sys_space s) a sz" and "65856 \<le> sz"
  shows "\<exists>er p q x y sz'. new_event_ring s = Some (Ok (er, of_nat q), s\<lparr>sys_space := y\<rparr>) \<and> EventRing_new (of_nat p) = Ok er \<and>
    device_page (sys_space s) p x \<and> device_page x q y \<and> roomy_space y a sz' \<and> sz \<le> sz' + 65792"
proof -
  from roomy_space_page [OF assms(1)] assms(2) obtain p x sz1 where
    p: "IoBox_new 4096 (sys_space s) = Some (Ok (of_nat p), x)" "device_page (sys_space s) p x" "roomy_space x a sz1" "sz \<le> sz1 + 32896"
    by auto
  from roomy_space_page [OF p(3)] assms(2) p(4) obtain q y sz2 where
    q: "IoBox_new 4096 x = Some (Ok (of_nat q), y)" "device_page x q y" "roomy_space y a sz2" "sz1 \<le> sz2 + 32896" by auto
  obtain er where er: "EventRing_new (of_nat p) = Ok er" using EventRing_new_Ok by blast
  have "new_event_ring s = Some (Ok (er, of_nat q), s\<lparr>sys_space := y\<rparr>)"
    unfolding new_event_ring_def by (simp add: with_space_Ok [of "IoBox_new 4096" s, OF p(1)] just_def er with_space_Ok q(1))
  moreover have "sz \<le> sz2 + 65792" using p(4) q(4) by simp
  ultimately show ?thesis using er p(2) q(2,3) by blast
qed

lemma new_command_ring_page:
  assumes "roomy_space (sys_space s) a sz" and "32960 \<le> sz"
  shows "\<exists>cr p y sz'. new_command_ring s = Some (Ok cr, s\<lparr>sys_space := y\<rparr>) \<and> CommandRing_default (of_nat p) = Ok cr \<and>
    ring_phys_addr cr = of_nat p \<and> device_page (sys_space s) p y \<and> roomy_space y a sz' \<and> sz \<le> sz' + 32896"
proof -
  from roomy_space_page [OF assms] obtain p y sz1 where
    p: "IoBox_new 4096 (sys_space s) = Some (Ok (of_nat p), y)" "device_page (sys_space s) p y" "roomy_space y a sz1" "sz \<le> sz1 + 32896"
    by blast
  have "unat (of_nat p :: u64) + 256 \<le> 2 ^ 64" using device_page_address [OF p(2)] by simp
  from CommandRing_default_at [OF this] obtain cr where
    cr: "CommandRing_default (of_nat p) = Ok cr" "ring_addr (cr_ring cr) = of_nat p" by blast
  have "new_command_ring s = Some (Ok cr, s\<lparr>sys_space := y\<rparr>)"
    unfolding new_command_ring_def by (simp add: with_space_Ok [of "IoBox_new 4096" s, OF p(1)] just_def cr(1))
  then show ?thesis using cr p(2-4) unfolding ring_phys_addr_def by blast
qed

lemma EventRing_new_addr: "EventRing_new addr = Ok er \<Longrightarrow> ring_addr (er_ring er) = addr"
  by (auto simp: EventRing_new_def Let_def ring_write_def erst_new_def TrbRing_new_def split: if_splits)

text \<open>
  A controller that starts: with the run bit set it leaves the halted state after some moves, and
  its moves keep the registers that hold addresses and the number of slots.
\<close>

definition starts :: "(OperationalRegisters \<Rightarrow> OperationalRegisters) \<Rightarrow> bool" where
  "starts device \<longleftrightarrow> (\<forall>r. bit (op_usbcmd r) 0 \<longrightarrow> (\<exists>n. \<not> bit (op_usbsts ((device ^^ n) r)) 0)) \<and>
     (\<forall>r. op_crcr (device r) = op_crcr r \<and> op_dcbaap (device r) = op_dcbaap r \<and> op_config (device r) = op_config r)"

lemma start_xhc_returns:
  assumes "starts device"
  shows "\<exists>q. start_xhc device r = Some q \<and> \<not> bit (op_usbsts q) 0 \<and> op_crcr q = op_crcr r \<and> op_dcbaap q = op_dcbaap r \<and>
    op_config q = op_config r"
proof -
  let ?r = "set_command_bits CMD_RUN_STOP r"
  have h: "v AND STATUS_HC_HALTED = 0 \<longleftrightarrow> \<not> bit v 0" for v :: u32
    using and_exp_eq_0_iff_not_bit [of v 0] by (simp add: STATUS_HC_HALTED_def)
  have "bit (op_usbcmd ?r) 0" by (simp add: set_command_bits_def CMD_RUN_STOP_def bit_or_iff bit_1_iff)
  then obtain n where "\<not> bit (op_usbsts ((device ^^ n) ?r)) 0" using assms unfolding starts_def by blast
  with poll_ends [of "\<lambda>r. op_usbsts r AND STATUS_HC_HALTED \<noteq> 0" n device ?r] obtain k where
    k: "start_xhc device r = Some ((device ^^ k) ?r)" "\<not> bit (op_usbsts ((device ^^ k) ?r)) 0" by (auto simp: h start_xhc_def)
  have "op_crcr ((device ^^ i) x) = op_crcr x \<and> op_dcbaap ((device ^^ i) x) = op_dcbaap x \<and> op_config ((device ^^ i) x) = op_config x" for i x
    using assms by (induction i) (simp_all add: starts_def)
  with k show ?thesis by (simp add: set_command_bits_def)
qed

text \<open>What the registers of a controller that was brought up hold.\<close>

definition programmed :: "OperationalRegisters \<Rightarrow> InterrupterRegisterSet list \<Rightarrow> Controller \<Rightarrow> System \<Rightarrow> bool" where
  "programmed opr irs c s \<longleftrightarrow>
     \<not> bit (op_usbsts (sys_op s)) 0 \<and> op_dcbaap (sys_op s) = c_dcbaa_addr c \<and>
     op_crcr (sys_op s) = ring_phys_addr (c_command_ring c) OR 1 \<and>
     op_config (sys_op s) = (op_config opr AND NOT 0xFF) OR of_nat (num_of_device_slots (cap_regs (c_regs c))) \<and>
     sys_irs s = irs[0 := (irs ! 0)\<lparr>irs_erst_size := 1, irs_erst_base := c_erst_addr c,
       irs_erdp := ring_addr (er_ring (c_event_ring c)), irs_moderation := 0, irs_management := 1\<rparr>]"

text \<open>The rings of the controller are new, and its driver knows the dequeue pointer register.\<close>

definition new_rings :: "Controller \<Rightarrow> bool" where
  "new_rings c \<longleftrightarrow> CommandRing_default (ring_phys_addr (c_command_ring c)) = Ok (c_command_ring c) \<and>
     (\<exists>er. EventRing_new (ring_addr (er_ring er)) = Ok er \<and> c_event_ring c = set_erdp (ring_addr (er_ring er)) er)"

text \<open>
  The pages of event ring, segment table and command ring: three pages apart from everything that
  was live, uncached, and the rest mapped as before.
\<close>

definition device_pages :: "Controller \<Rightarrow> usize list" where
  "device_pages c = map unat [ring_addr (er_ring (c_event_ring c)), c_erst_addr c, ring_phys_addr (c_command_ring c)]"

definition device_memory :: "AddressSpace \<Rightarrow> Controller \<Rightarrow> AddressSpace \<Rightarrow> bool" where
  "device_memory s c s' \<longleftrightarrow> distinct (device_pages c) \<and> cr3 s' = cr3 s \<and> pt_inv (cr3 s') (space s') \<and>
     (\<forall>p \<in> set (device_pages c). 4096 dvd p \<and> uncached_page s' p \<and> (\<forall>r \<in> live (pt_heap (space s)). regions_apart (p, 4096) r)) \<and>
     (\<forall>n < 2 ^ 36. n * 4096 \<notin> set (device_pages c) \<longrightarrow> pte (pt_tables (space s')) (cr3 s') n = pte (pt_tables (space s)) (cr3 s) n)"

lemma three_device_pages:
  assumes "device_page s p x" and "device_page x q y" and "device_page y r z"
    and "cr3 s = cr3 s0" and "pt_tables (space s) = pt_tables (space s0)" and "live (pt_heap (space s0)) \<subseteq> live (pt_heap (space s))"
    and "device_pages c = [p, q, r]"
  shows "device_memory s0 c z"
proof -
  note pq = device_page_later [OF assms(1,2)] and qr = device_page_later [OF assms(2,3)]
  have same: "cr3 x = cr3 s" "cr3 y = cr3 s" "cr3 z = cr3 s" using assms(1-3) by (simp_all add: device_page_def)
  have live: "live (pt_heap (space s0)) \<subseteq> live (pt_heap (space x))" "live (pt_heap (space s0)) \<subseteq> live (pt_heap (space y))"
    using device_page_mono [OF assms(1)] device_page_mono [OF assms(2)] assms(6) by blast+
  have dvd: "4096 dvd p" "4096 dvd q" "4096 dvd r" "p + 4096 \<le> 2 ^ 48" using assms(1-3) unfolding device_page_def by blast+
  obtain n where n: "4096 \<le> n" "(p, n) \<in> live (pt_heap (space x))" using assms(1) unfolding device_page_def by blast
  then have "(p, n) \<in> live (pt_heap (space y))" using device_page_mono [OF assms(2)] by blast
  then have "regions_apart (r, 4096) (p, n)" using assms(3) unfolding device_page_def by blast
  then have pr: "p \<noteq> r" using n(1) by (auto simp: regions_apart_def)
  then have "p div 4096 \<noteq> r div 4096" "p div 4096 < 2 ^ 36" using dvd by auto
  then have up: "uncached_page z p" using pq(2) device_page_others [OF assms(3)] by (simp add: uncached_page_def)
  have ur: "uncached_page z r" and inv: "pt_inv (cr3 z) (space z)" using assms(3) unfolding device_page_def by blast+
  have apart: "\<forall>l \<in> live (pt_heap (space s0)). regions_apart (p, 4096) l \<and> regions_apart (q, 4096) l \<and> regions_apart (r, 4096) l"
    using assms(1-3,6) live unfolding device_page_def by blast
  have other: "pte (pt_tables (space z)) (cr3 z) m = pte (pt_tables (space s0)) (cr3 s0) m"
    if "m < 2 ^ 36" "m * 4096 \<notin> {p, q, r}" for m
  proof -
    have "m \<noteq> p div 4096" "m \<noteq> q div 4096" "m \<noteq> r div 4096" using that(2) dvd(1-3) by auto
    then show ?thesis using assms(4,5) that(1)
      by (simp add: device_page_others [OF assms(1)] device_page_others [OF assms(2)] device_page_others [OF assms(3)])
  qed
  show ?thesis unfolding device_memory_def assms(7)
    using pq(1) qr pr dvd up ur inv apart other same assms(4) by simp
qed

text \<open>The heap boxes of the controller: scratchpad buffers and the context table.\<close>

lemma controller_boxes:
  assumes "page_size opr = Ok page" and "roomy_space (sys_space s) a sz"
    and "max (num_scratchpad_bufs cap) 1 * (3 * page + 256) + page + 2 ^ 18 \<le> sz"
  shows "\<exists>sp p h1 h2 sz'. with_heap (ScratchpadBuffers_alloc cap opr) s = Some (Ok sp, s\<lparr>sys_space := (sys_space s)\<lparr>space := (space (sys_space s))\<lparr>pt_heap := h1\<rparr>\<rparr>\<rparr>) \<and>
    heap_box 2048 64 h1 = Some (Ok p, h2) \<and> p < 2 ^ 48 \<and> 64 dvd p \<and> leaves a sz' (pt_heap (space (sys_space s))) h2 \<and>
    sz' \<le> sz \<and> 120000 \<le> sz'"
proof -
  let ?need = "max (num_scratchpad_bufs cap) 1 * (3 * page + 256) + page + 4 * 16384"
  have fb: "first_block (pt_heap (space (sys_space s))) a sz" "a + sz \<le> 2 ^ 48" using assms(2) by (simp_all add: roomy_space_def)
  have "?need \<le> sz" using assms(3) by simp
  from ScratchpadBuffers_alloc_places [OF assms(1) fb(1) this] obtain sp h1 s1 where
    1: "ScratchpadBuffers_alloc cap opr (pt_heap (space (sys_space s))) = Some (Ok sp, h1)" "leaves a s1 (pt_heap (space (sys_space s))) h1"
      "s1 \<le> sz" "sz \<le> s1 + ?need" by blast
  have r: "request 2048 64 = Some (2048, 64)" "layout_ok 2048 64"
    using round_up_exp [of 11] by (auto simp: request_def HEADER_SIZE_def layout_ok_def intro: exI [of _ 6])
  have s1: "2 ^ 18 - 4 * 16384 \<le> s1" using 1(4) assms(3) by simp
  then have "2048 + 64 + 64 \<le> s1" by simp
  from alloc_in_first_block [OF leavesD [OF 1(2)] r(2,1) this] obtain p h2 where
    2: "alloc_with_options h1 2048 64 = Some (Ok (p, h2))" "p = (a + s1 - 2048) div 64 * 64" "p \<noteq> 0"
      "leaves a (p - 32 - a) h1 h2" "s1 - 2048 - 64 - 32 \<le> p - 32 - a" "p + 2048 \<le> a + s1" by blast
  have "p < 2 ^ 48" "p - 32 - a \<le> sz" using 2(6) 1(3) fb(2) by linarith+
  moreover have "120000 \<le> p - 32 - a" using 2(5) s1 by simp
  moreover have "64 dvd p" using 2(2) by simp
  moreover have "heap_box 2048 64 h1 = Some (Ok p, h2)" using 2(1,3) by (simp add: heap_box_def)
  ultimately show ?thesis using with_heap_Ok [of "ScratchpadBuffers_alloc cap opr" s, OF 1(1)] leaves_trans [OF 1(2) 2(4)] by blast
qed

text \<open>The last steps of \<open>Controller::new\<close>: the registers are filled, and the controller started.\<close>

lemma init_and_start:
  assumes "starts device" and "sys_irs s \<noteq> []" and "c = c0\<lparr>c_event_ring := set_erdp (ring_addr (er_ring (c_event_ring c0))) (c_event_ring c0)\<rparr>"
  shows "\<exists>s'. sbind (init_primary_event_ring c0 s) (\<lambda>c s.
      sbind (poll_op (start_xhc device) (init_command_ring c (init_slots_and_contexts c s))) (\<lambda>_ s. Some (Ok c, s))) = Some (Ok c, s') \<and>
    programmed (sys_op s) (sys_irs s) c s' \<and> sys_space s' = sys_space s"
proof -
  let ?irs = "(sys_irs s)[0 := (sys_irs s ! 0)\<lparr>irs_erst_size := 1, irs_erst_base := c_erst_addr c,
       irs_erdp := ring_addr (er_ring (c_event_ring c)), irs_moderation := 0, irs_management := 1\<rparr>]"
  have irs: "init_primary_event_ring c0 s = Some (Ok c, s\<lparr>sys_irs := ?irs\<rparr>)"
    using assms(2,3) by (simp add: init_primary_event_ring_def init_irs_def Let_def set_erdp_def)
  define r where "r = sys_op (init_command_ring c (init_slots_and_contexts c (s\<lparr>sys_irs := ?irs\<rparr>)))"
  from start_xhc_returns [OF assms(1), of r] obtain q where
    q: "start_xhc device r = Some q" "\<not> bit (op_usbsts q) 0" "op_crcr q = op_crcr r" "op_dcbaap q = op_dcbaap r" "op_config q = op_config r" by blast
  let ?s' = "s\<lparr>sys_irs := ?irs, sys_op := q\<rparr>"
  have "poll_op (start_xhc device) (init_command_ring c (init_slots_and_contexts c (s\<lparr>sys_irs := ?irs\<rparr>))) = Some (Ok (), ?s')"
    using q(1) by (simp add: poll_op_def r_def [symmetric]) (simp add: init_command_ring_def init_slots_and_contexts_def)
  moreover have "programmed (sys_op s) (sys_irs s) c ?s'"
    using q by (simp add: programmed_def r_def init_command_ring_def init_slots_and_contexts_def set_cmd_ring_ctrl_def
        set_dcbaa_ptr_def set_num_device_slots_def Let_def)
  ultimately show ?thesis by (intro exI [of _ ?s']) (simp add: irs)
qed

section \<open>Properties\<close>

lemma Controller_new_outcome:
  assumes "reset_xhc device (sys_op s) = Some opr" and "page_size opr = Ok page" and "starts device" and "sys_irs s \<noteq> []"
    and "roomy_space (sys_space s) a sz"
    and "max (num_scratchpad_bufs (cap_regs regs)) 1 * (3 * page + 256) + page + 2 ^ 18 \<le> sz"
  shows "\<exists>c s'. Controller_new device regs s = Some (Ok c, s') \<and> c_regs c = regs \<and> 64 dvd unat (c_dcbaa_addr c) \<and> new_rings c \<and>
    programmed opr (sys_irs s) c s' \<and> device_memory (sys_space s) c (sys_space s')"
proof -
  define s0 where "s0 = s\<lparr>sys_op := opr\<rparr>"
  have s0: "sys_space s0 = sys_space s" "sys_op s0 = opr" by (simp_all add: s0_def)
  have "roomy_space (sys_space s0) a sz" using assms(5) s0(1) by simp
  from controller_boxes [OF assms(2) this assms(6)] obtain sp p h1 h2 sz1 where
    sp: "with_heap (ScratchpadBuffers_alloc (cap_regs regs) opr) s0 =
        Some (Ok sp, s0\<lparr>sys_space := (sys_space s0)\<lparr>space := (space (sys_space s0))\<lparr>pt_heap := h1\<rparr>\<rparr>\<rparr>)"
      "heap_box 2048 64 h1 = Some (Ok p, h2)" "p < 2 ^ 48" "64 dvd p" "leaves a sz1 (pt_heap (space (sys_space s))) h2"
      "sz1 \<le> sz" "120000 \<le> sz1" unfolding s0 by blast
  define s2 where "s2 = s0\<lparr>sys_space := (sys_space s)\<lparr>space := (space (sys_space s))\<lparr>pt_heap := h2\<rparr>\<rparr>\<rparr>"
  have dcbaa: "with_heap (heap_box 2048 64) (s0\<lparr>sys_space := (sys_space s0)\<lparr>space := (space (sys_space s0))\<lparr>pt_heap := h1\<rparr>\<rparr>\<rparr>) = Some (Ok p, s2)"
    using sp(2) by (simp add: with_heap_def s2_def s0_def)
  have "roomy_space (sys_space s2) a sz1" using roomy_space_heap [OF assms(5) sp(5,6)] by (simp add: s2_def)
  from new_event_ring_pages [OF this] sp(7) obtain er er_p erst_p x y sz2 where
    er: "new_event_ring s2 = Some (Ok (er, of_nat erst_p), s2\<lparr>sys_space := y\<rparr>)" "EventRing_new (of_nat er_p) = Ok er"
      "device_page (sys_space s2) er_p x" "device_page x erst_p y" "roomy_space y a sz2" "sz1 \<le> sz2 + 65792" by auto
  from new_command_ring_page [of "s2\<lparr>sys_space := y\<rparr>" a sz2] er(5,6) sp(7) obtain cr cr_p z where
    cr: "new_command_ring (s2\<lparr>sys_space := y\<rparr>) = Some (Ok cr, s2\<lparr>sys_space := z\<rparr>)" "CommandRing_default (of_nat cr_p) = Ok cr"
      "ring_phys_addr cr = of_nat cr_p" "device_page y cr_p z" by auto
  note addr = EventRing_new_addr [OF er(2)]
  define c0 where "c0 = \<lparr>c_regs = regs, c_scratchpad = sp, c_dcbaa = DeviceContextBaseAddressArray_new (of_nat (sp_table sp)),
      c_dcbaa_addr = of_nat p, c_erst_addr = of_nat erst_p, c_event_ring = er, c_command_ring = cr\<rparr>"
  define c where "c = c0\<lparr>c_event_ring := set_erdp (ring_addr (er_ring (c_event_ring c0))) (c_event_ring c0)\<rparr>"
  have "sys_irs (s2\<lparr>sys_space := z\<rparr>) \<noteq> []" using assms(4) by (simp add: s2_def s0_def)
  from init_and_start [OF assms(3) this c_def] obtain s' where
    s': "sbind (init_primary_event_ring c0 (s2\<lparr>sys_space := z\<rparr>)) (\<lambda>c s.
        sbind (poll_op (start_xhc device) (init_command_ring c (init_slots_and_contexts c s))) (\<lambda>_ s. Some (Ok c, s))) = Some (Ok c, s')"
      "programmed opr (sys_irs s) c s'" "sys_space s' = z" by (auto simp: s2_def s0_def)
  have "poll_op (reset_xhc device) s = Some (Ok (), s0)" using assms(1) by (simp add: poll_op_def s0_def)
  then have run: "Controller_new device regs s = Some (Ok c, s')"
    unfolding Controller_new_def by (simp add: sp(1) s0(2) dcbaa er(1) cr(1) c0_def [symmetric] s'(1))
  have "EventRing_new (ring_addr (er_ring er)) = Ok er" using er(2) addr by simp
  then have "new_rings c" using cr(2,3) unfolding new_rings_def c_def c0_def by auto
  moreover have "device_pages c = [er_p, erst_p, cr_p]"
    using device_page_address [OF er(3)] device_page_address [OF er(4)] device_page_address [OF cr(4)] addr cr(3)
    by (simp add: device_pages_def c_def c0_def set_erdp_def)
  then have "device_memory (sys_space s) c z"
    by (rule three_device_pages [OF er(3,4) cr(4), rotated 3]) (use sp(5) in \<open>auto simp: s2_def leaves_def\<close>)
  moreover have "unat (c_dcbaa_addr c) = p" using sp(3) by (simp add: c_def c0_def unsigned_of_nat take_bit_nat_eq_self)
  then have "64 dvd unat (c_dcbaa_addr c)" using sp(4) by simp
  ultimately show ?thesis using run s'(2,3) by (intro exI [of _ c] exI [of _ s']) (simp add: c_def c0_def)
qed


text \<open>A controller that runs exactly while its run bit is set, and a kernel with one page table.\<close>

definition example_device :: "OperationalRegisters \<Rightarrow> OperationalRegisters" where
  "example_device r = r\<lparr>op_usbsts := if bit (op_usbcmd r) 0 then 0 else 1\<rparr>"

definition example_system :: System where
  "example_system = \<lparr>sys_space = \<lparr>cr3 = 0x200000, space = \<lparr>pt_tables = [0x200000 \<mapsto> zero_table],
       pt_heap = \<lparr>first_header = Some 0x100000,
         heap_mem = [0x100000 \<mapsto> new_header\<lparr>hdr_size := 0x80000, next_header := Some 0x1FFFE0\<rparr>,
                     0x1FFFE0 \<mapsto> new_header\<lparr>hdr_size := 0x1020, is_allocated := True\<rparr>]\<rparr>\<rparr>\<rparr>,
     sys_op = \<lparr>op_usbcmd = 0, op_usbsts = 1, op_pagesize = 1, op_crcr = 0, op_dcbaap = 0, op_config = 0\<rparr>,
     sys_irs = [\<lparr>irs_management = 0, irs_moderation = 4000, irs_erst_size = 0, irs_erst_base = 0, irs_erdp = 0\<rparr>]\<rparr>"

definition example_registers :: XhcRegisters where
  "example_registers = \<lparr>cap_regs = \<lparr>cap_caplength = 0x40, hcsparams1 = 0x08000840, hcsparams2 = 0, cap_dboff = 0x3000, cap_rtsoff = 0x2000\<rparr>,
     op_regs_at = 0xFEBF0040, rt_regs_at = 0xFEBF2000, doorbell_regs = [], portsc_regs = []\<rparr>"

lemma example_system_space: "roomy_space (sys_space example_system) 0x100000 0x80000"
proof -
  have r: "represents (pt_heap (space (sys_space example_system))) [(0x100000, 0x80000, False), (0x1FFFE0, 0x1020, True)]"
    by (simp add: represents_def example_system_def new_header_def)
  have "pt_inv 0x200000 (space (sys_space example_system))"
  proof (rule single_table_inv)
    show "heap_inv (pt_heap (space (sys_space example_system)))" using r by (auto simp: heap_inv_def)
    show "(unat (0x200000 :: u64), 0x1000) \<in> live (pt_heap (space (sys_space example_system)))" by (simp add: live_eq [OF r])
  qed (simp_all add: example_system_def)
  moreover have "first_block (pt_heap (space (sys_space example_system))) 0x100000 0x80000" unfolding first_block_def using r by blast
  ultimately show ?thesis by (simp add: roomy_space_def) (simp add: example_system_def)
qed

lemma example_device_starts:
  "reset_xhc example_device (sys_op example_system) = Some ((sys_op example_system)\<lparr>op_usbcmd := 2\<rparr>)"
  "page_size ((sys_op example_system)\<lparr>op_usbcmd := 2\<rparr>) = Ok 4096" "starts example_device" "sys_irs example_system \<noteq> []"
  "num_scratchpad_bufs (cap_regs example_registers) = 0"
proof -
  show "reset_xhc example_device (sys_op example_system) = Some ((sys_op example_system)\<lparr>op_usbcmd := 2\<rparr>)"
    by (simp add: reset_xhc_def poll_skips example_system_def clear_command_bits_def set_command_bits_def STATUS_HC_HALTED_def
        CMD_HC_RESET_def CMD_RUN_STOP_def)
  show "page_size ((sys_op example_system)\<lparr>op_usbcmd := 2\<rparr>) = Ok 4096"
    by (simp add: page_size_eq_Ok example_system_def) (intro exI [of _ 0], simp)
  show "starts example_device" unfolding starts_def by (auto simp: example_device_def intro!: exI [of _ 1])
  show "sys_irs example_system \<noteq> []" by (simp add: example_system_def)
  have "extract_bits (0 :: u32) 21 5 = 0" "extract_bits (0 :: u32) 27 5 = 0"
    using extract_bits_value [of 21 "0 :: u32" 5] extract_bits_value [of 27 "0 :: u32" 5] by (simp_all add: word_unat_eq_iff)
  then show "num_scratchpad_bufs (cap_regs example_registers) = 0" by (simp add: num_scratchpad_bufs_def example_registers_def)
qed


end
