(* ===== verification/SystemTables.thy ===== *)
theory SystemTables
  imports HeapBox Bytes
begin

text \<open>
  The processor's tables of \<open>x86.rs\<close>: the interrupt descriptor table, the task state segment with
  its interrupt stacks, the global descriptor table, and \<open>init_exceptions\<close>, which builds them on the
  heap and loads them. The packed structures have their bytes, and the lemmas read these bytes the
  way the processor does (Intel SDM, volume 3: segment descriptors 3.4.5, the TSS 8.7, gates 6.14.1).
  The addresses of the interrupt entry points, which the linker chooses, are a parameter.
\<close>

section \<open>Interrupt gates\<close>

definition BIT_FLAGS_INTGATE :: u8 where
  [field_defs]: "BIT_FLAGS_INTGATE = 0xE"

definition BIT_FLAGS_PRESENT :: u8 where
  [field_defs]: "BIT_FLAGS_PRESENT = 0x80"

definition BIT_FLAGS_DPL0 :: u8 where
  [field_defs]: "BIT_FLAGS_DPL0 = push_bit 5 0"

definition BIT_FLAGS_DPL3 :: u8 where
  [field_defs]: "BIT_FLAGS_DPL3 = push_bit 5 3"

datatype IdtAttr = IdtNotpresent | IntGateDPL0 | IntGateDPL3

primrec idt_attr_code :: "IdtAttr \<Rightarrow> u8" where
  "idt_attr_code IdtNotpresent = 0"
| "idt_attr_code IntGateDPL0 = BIT_FLAGS_INTGATE OR BIT_FLAGS_PRESENT OR BIT_FLAGS_DPL0"
| "idt_attr_code IntGateDPL3 = BIT_FLAGS_INTGATE OR BIT_FLAGS_PRESENT OR BIT_FLAGS_DPL3"

record IdtDescriptor =
  offset_low :: u16
  segment_selector :: u16
  ist_index :: u8
  idt_attr :: IdtAttr
  offset_mid :: u16
  offset_high :: u32
  idt_reserved :: u32

definition IdtDescriptor_new :: "u16 \<Rightarrow> u8 \<Rightarrow> IdtAttr \<Rightarrow> u64 \<Rightarrow> IdtDescriptor" where
  "IdtDescriptor_new selector ist a handler_addr =
     \<lparr>offset_low = ucast handler_addr, segment_selector = selector, ist_index = ist, idt_attr = a,
      offset_mid = ucast (drop_bit 16 handler_addr), offset_high = ucast (drop_bit 32 handler_addr),
      idt_reserved = 0\<rparr>"

definition idt_bytes :: "IdtDescriptor \<Rightarrow> u8 list" where
  "idt_bytes d = to_le_bytes 2 (unat (offset_low d)) @ to_le_bytes 2 (unat (segment_selector d)) @
     [ist_index d, idt_attr_code (idt_attr d)] @ to_le_bytes 2 (unat (offset_mid d)) @
     to_le_bytes 4 (unat (offset_high d)) @ to_le_bytes 4 (unat (idt_reserved d))"

text \<open>The symbols of the entry points, and where they are.\<close>

datatype Handler =
    IntHandlerUnimplemented
  | InterruptEntrypoint3 | InterruptEntrypoint6 | InterruptEntrypoint8
  | InterruptEntrypoint13 | InterruptEntrypoint14 | InterruptEntrypoint32

type_synonym symbols = "Handler \<Rightarrow> u64"

definition idt_entries :: "u16 \<Rightarrow> symbols \<Rightarrow> IdtDescriptor list" where
  "idt_entries selector syms =
     (replicate 0x100 (IdtDescriptor_new selector 1 IntGateDPL0 (syms IntHandlerUnimplemented)))
       [3 := IdtDescriptor_new selector 1 IntGateDPL3 (syms InterruptEntrypoint3),
        6 := IdtDescriptor_new selector 1 IntGateDPL0 (syms InterruptEntrypoint6),
        8 := IdtDescriptor_new selector 2 IntGateDPL0 (syms InterruptEntrypoint8),
        13 := IdtDescriptor_new selector 1 IntGateDPL0 (syms InterruptEntrypoint13),
        14 := IdtDescriptor_new selector 1 IntGateDPL0 (syms InterruptEntrypoint14),
        32 := IdtDescriptor_new selector 1 IntGateDPL0 (syms InterruptEntrypoint32)]"

section \<open>The task state segment\<close>

record TaskStateSegment64Inner =
  tss_reserved0 :: u32
  tss_rsp :: "u64 list"
  tss_ist :: "u64 list"
  tss_reserved1 :: "u16 list"
  io_map_base_addr :: u16

definition tss_bytes :: "TaskStateSegment64Inner \<Rightarrow> u8 list" where
  "tss_bytes t = to_le_bytes 4 (unat (tss_reserved0 t)) @ concat (map (to_le_bytes 8 \<circ> unat) (tss_rsp t)) @
     concat (map (to_le_bytes 8 \<circ> unat) (tss_ist t)) @ concat (map (to_le_bytes 2 \<circ> unat) (tss_reserved1 t)) @
     to_le_bytes 2 (unat (io_map_base_addr t))"

definition TSS_SIZE :: usize where
  "TSS_SIZE = 104"

definition HANDLER_STACK_SIZE :: usize where
  "HANDLER_STACK_SIZE = 64 * 1024"

text \<open>The box is forgotten, so its region stays live.\<close>

definition alloc_interrupt_stack :: "u64 on_heap" where
  "alloc_interrupt_stack h = sbind (heap_box HANDLER_STACK_SIZE 1 h) (\<lambda>stack h.
     Some (Ok (of_nat (stack + HANDLER_STACK_SIZE)), h))"

text \<open>The loop over \<open>ist[1..=7]\<close>, for \<open>n\<close> entries.\<close>

primrec alloc_ists :: "nat \<Rightarrow> u64 list on_heap" where
  "alloc_ists 0 h = Some (Ok [], h)"
| "alloc_ists (Suc n) h =
     sbind (alloc_interrupt_stack h) (\<lambda>i h. sbind (alloc_ists n h) (\<lambda>is h. Some (Ok (i # is), h)))"

record TaskStateSegment64 =
  tss_inner :: TaskStateSegment64Inner
  tss_addr :: usize

definition TaskStateSegment64_new :: "TaskStateSegment64 on_heap" where
  "TaskStateSegment64_new h =
     sbind (alloc_interrupt_stack h) (\<lambda>rsp0 h.
     sbind (alloc_ists 7 h) (\<lambda>is h.
     sbind (heap_box TSS_SIZE 1 h) (\<lambda>p h.
       Some (Ok \<lparr>tss_inner = \<lparr>tss_reserved0 = 0, tss_rsp = [rsp0, 0, 0], tss_ist = 0 # is, tss_reserved1 = replicate 5 0,
                   io_map_base_addr = 0\<rparr>, tss_addr = p\<rparr>, h))))"

section \<open>The global descriptor table\<close>

definition BIT_TYPE_DATA :: u64 where [field_defs]: "BIT_TYPE_DATA = push_bit 43 2"
definition BIT_TYPE_CODE :: u64 where [field_defs]: "BIT_TYPE_CODE = push_bit 43 3"
definition BIT_PRESENT :: u64 where [field_defs]: "BIT_PRESENT = push_bit 47 1"
definition BIT_CS_LONG_MODE :: u64 where [field_defs]: "BIT_CS_LONG_MODE = push_bit 53 1"
definition BIT_CS_READABLE :: u64 where [field_defs]: "BIT_CS_READABLE = push_bit 53 1"
definition BIT_DS_WRITEABLE :: u64 where [field_defs]: "BIT_DS_WRITEABLE = push_bit 41 1"

datatype GdtAttr = KernelCode | KernelData

primrec gdt_attr_code :: "GdtAttr \<Rightarrow> u64" where
  "gdt_attr_code KernelCode = BIT_TYPE_CODE OR BIT_PRESENT OR BIT_CS_LONG_MODE OR BIT_CS_READABLE"
| "gdt_attr_code KernelData = BIT_TYPE_DATA OR BIT_PRESENT OR BIT_DS_WRITEABLE"

definition KERNEL_CS :: u16 where [field_defs]: "KERNEL_CS = push_bit 3 1"
definition KERNEL_DS :: u16 where [field_defs]: "KERNEL_DS = push_bit 3 2"
definition TSS64_SEL :: u16 where [field_defs]: "TSS64_SEL = push_bit 3 3"

record TaskStateSegment64Descriptor =
  limit_low :: u16
  base_low :: u16
  base_mid_low :: u8
  tss_attr :: u16
  base_mid_high :: u8
  base_high :: u32
  tss_desc_reserved :: u32

definition TaskStateSegment64Descriptor_new :: "u64 \<Rightarrow> TaskStateSegment64Descriptor" where
  "TaskStateSegment64Descriptor_new base_addr =
     \<lparr>limit_low = of_nat TSS_SIZE, base_low = ucast (base_addr AND 0xFFFF),
      base_mid_low = ucast (drop_bit 16 base_addr AND 0xFF), tss_attr = 0x8089,
      base_mid_high = ucast (drop_bit 24 base_addr AND 0xFF),
      base_high = ucast (drop_bit 32 base_addr AND 0xFFFFFFFF), tss_desc_reserved = 0\<rparr>"

definition tss_descriptor_bytes :: "TaskStateSegment64Descriptor \<Rightarrow> u8 list" where
  "tss_descriptor_bytes d = to_le_bytes 2 (unat (limit_low d)) @ to_le_bytes 2 (unat (base_low d)) @ [base_mid_low d] @
     to_le_bytes 2 (unat (tss_attr d)) @ [base_mid_high d] @ to_le_bytes 4 (unat (base_high d)) @
     to_le_bytes 4 (unat (tss_desc_reserved d))"

text \<open>A \<open>GdtSegmentDescriptor\<close> is the word it holds.\<close>

record Gdt =
  null_segment :: u64
  kernel_code_segment :: u64
  kernel_data_segment :: u64
  task_state_segment :: TaskStateSegment64Descriptor

definition GDT_SIZE :: usize where
  "GDT_SIZE = 40"

definition Gdt_for :: "u64 \<Rightarrow> Gdt" where
  "Gdt_for tss = \<lparr>null_segment = 0, kernel_code_segment = gdt_attr_code KernelCode,
     kernel_data_segment = gdt_attr_code KernelData, task_state_segment = TaskStateSegment64Descriptor_new tss\<rparr>"

definition gdt_bytes :: "Gdt \<Rightarrow> u8 list" where
  "gdt_bytes g = to_le_bytes 8 (unat (null_segment g)) @ to_le_bytes 8 (unat (kernel_code_segment g)) @
     to_le_bytes 8 (unat (kernel_data_segment g)) @ tss_descriptor_bytes (task_state_segment g)"

record GdtWrapper =
  gdt_inner :: Gdt
  gdt_addr :: usize
  tss64 :: TaskStateSegment64

definition GdtWrapper_default :: "GdtWrapper on_heap" where
  "GdtWrapper_default h =
     sbind (TaskStateSegment64_new h) (\<lambda>t h.
     sbind (heap_box GDT_SIZE 1 h) (\<lambda>p h.
       Some (Ok \<lparr>gdt_inner = Gdt_for (of_nat (tss_addr t)), gdt_addr = p, tss64 = t\<rparr>, h)))"

section \<open>Loading the tables\<close>

text \<open>What the processor's table and segment registers hold.\<close>

record SystemRegisters =
  gdtr :: "u16 \<times> usize"
  idtr :: "u16 \<times> usize"
  task_register :: u16
  cs_reg :: u16
  ss_reg :: u16
  ds_reg :: u16
  es_reg :: u16
  fs_reg :: u16
  gs_reg :: u16

definition gdt_load :: "GdtWrapper \<Rightarrow> SystemRegisters \<Rightarrow> SystemRegisters" where
  "gdt_load w r = r\<lparr>gdtr := (of_nat (GDT_SIZE - 1), gdt_addr w), task_register := TSS64_SEL\<rparr>"

record Idt =
  entries :: "IdtDescriptor list"
  entries_addr :: usize

definition Idt_new :: "u16 \<Rightarrow> symbols \<Rightarrow> SystemRegisters \<Rightarrow> (Idt \<times> SystemRegisters) on_heap" where
  "Idt_new selector syms r h =
     (let es = idt_entries selector syms; limit = of_nat (16 * length es) in
      sbind (heap_box (16 * length es) 1 h) (\<lambda>p h.
        Some (Ok (\<lparr>entries = es, entries_addr = p\<rparr>, r\<lparr>idtr := (limit, p)\<rparr>), h)))"

definition write_es :: "u16 \<Rightarrow> SystemRegisters \<Rightarrow> SystemRegisters" where "write_es selector r = r\<lparr>es_reg := selector\<rparr>"
definition write_cs :: "u16 \<Rightarrow> SystemRegisters \<Rightarrow> SystemRegisters" where "write_cs cs r = r\<lparr>cs_reg := cs\<rparr>"
definition write_ss :: "u16 \<Rightarrow> SystemRegisters \<Rightarrow> SystemRegisters" where "write_ss selector r = r\<lparr>ss_reg := selector\<rparr>"
definition write_ds :: "u16 \<Rightarrow> SystemRegisters \<Rightarrow> SystemRegisters" where "write_ds ds r = r\<lparr>ds_reg := ds\<rparr>"
definition write_fs :: "u16 \<Rightarrow> SystemRegisters \<Rightarrow> SystemRegisters" where "write_fs selector r = r\<lparr>fs_reg := selector\<rparr>"
definition write_gs :: "u16 \<Rightarrow> SystemRegisters \<Rightarrow> SystemRegisters" where "write_gs selector r = r\<lparr>gs_reg := selector\<rparr>"

definition write_segments :: "SystemRegisters \<Rightarrow> SystemRegisters" where
  "write_segments r = write_gs KERNEL_DS (write_fs KERNEL_DS (write_ds KERNEL_DS (write_es KERNEL_DS
     (write_ss KERNEL_DS (write_cs KERNEL_CS r)))))"

definition init_exceptions :: "symbols \<Rightarrow> SystemRegisters \<Rightarrow> (GdtWrapper \<times> Idt \<times> SystemRegisters) on_heap" where
  "init_exceptions syms r h =
     sbind (GdtWrapper_default h) (\<lambda>gdt h.
     sbind (Idt_new KERNEL_CS syms (write_segments (gdt_load gdt r)) h) (\<lambda>(idt, r) h.
       Some (Ok (gdt, idt, r), h)))"

section \<open>Reading a table of equal entries\<close>

lemma bytes_at_concat:
  assumes "\<And>x. x \<in> set xs \<Longrightarrow> length (f x) = k" and "i < length xs" and "ofs + n \<le> k"
  shows "bytes_at (concat (map f xs)) (k * i + ofs) n = bytes_at (f (xs ! i)) ofs n"
  using assms(1,2)
proof (induction xs arbitrary: i)
  case (Cons x xs)
  have l: "length (f x) = k" using Cons.prems(1) by simp
  show ?case
  proof (cases i)
    case 0
    then show ?thesis using l assms(3) by (simp add: bytes_at_def)
  next
    case (Suc j)
    then have "bytes_at (concat (map f (x # xs))) (k * i + ofs) n = bytes_at (concat (map f xs)) (k * j + ofs) n"
      using l by (simp add: bytes_at_def)
    with Cons Suc show ?thesis by simp
  qed
qed simp

lemma le_at_concat_entry:
  assumes "\<And>x. x \<in> set xs \<Longrightarrow> length (f x) = k" and "i < length xs" and "ofs + n \<le> k"
  shows "le_at (concat (map f xs)) (k * i + ofs) n = le_at (f (xs ! i)) ofs n"
  unfolding le_at_def by (simp add: bytes_at_concat [OF assms])

section \<open>What the processor reads\<close>

text \<open>Gate \<open>n\<close> of an interrupt descriptor table.\<close>

record Gate =
  gate_target :: nat
  gate_selector :: nat
  gate_ist :: nat
  gate_type :: nat
  gate_dpl :: nat
  gate_present :: bool

definition gate_at :: "u8 list \<Rightarrow> nat \<Rightarrow> Gate" where
  "gate_at table n =
     (let field = (\<lambda>ofs w. le_at table (16 * n + ofs) w) in
      \<lparr>gate_target = field 0 2 + 2 ^ 16 * field 6 2 + 2 ^ 32 * field 8 4, gate_selector = field 2 2,
       gate_ist = field 4 1 mod 8, gate_type = field 5 1 mod 16, gate_dpl = field 5 1 div 32 mod 4,
       gate_present = odd (field 5 1 div 128)\<rparr>)"

text \<open>The handler of a vector.\<close>

definition handler_of :: "u8 \<Rightarrow> Handler" where
  "handler_of v = (if v = 3 then InterruptEntrypoint3 else if v = 6 then InterruptEntrypoint6
     else if v = 8 then InterruptEntrypoint8 else if v = 13 then InterruptEntrypoint13
     else if v = 14 then InterruptEntrypoint14 else if v = 32 then InterruptEntrypoint32 else IntHandlerUnimplemented)"

lemma idt_entries_nth:
  "idt_entries selector syms ! unat v = IdtDescriptor_new selector (if v = 8 then 2 else 1)
     (if v = 3 then IntGateDPL3 else IntGateDPL0) (syms (handler_of v))"
proof -
  have "unat v = unat w \<longleftrightarrow> v = w" for w :: u8 by (simp add: word_unat_eq_iff)
  from this [of 3] this [of 6] this [of 8] this [of 13] this [of 14] this [of 32] show ?thesis
    by (simp add: idt_entries_def nth_list_update handler_of_def)
qed

lemma length_idt_entries [simp]: "length (idt_entries selector syms) = 256"
  by (simp add: idt_entries_def)

lemma length_idt_bytes [simp]: "length (idt_bytes d) = 16"
  by (simp add: idt_bytes_def)

lemma unat_below_16: "unat (w :: u16) mod 65536 = unat w"
  using unsigned_less [of w, where 'a = nat] by simp

lemma unat_below_32: "unat (w :: u32) mod 4294967296 = unat w"
  using unsigned_less [of w, where 'a = nat] by simp

lemma idt_bytes_fields:
  "le_at (idt_bytes d) 0 2 = unat (offset_low d)" "le_at (idt_bytes d) 2 2 = unat (segment_selector d)"
  "le_at (idt_bytes d) 4 (Suc 0) = unat (ist_index d)" "le_at (idt_bytes d) 5 (Suc 0) = unat (idt_attr_code (idt_attr d))"
  "le_at (idt_bytes d) 6 2 = unat (offset_mid d)" "le_at (idt_bytes d) 8 4 = unat (offset_high d)"
  by (simp_all add: le_at_def idt_bytes_def bytes_at_def from_to_le_bytes unat_below_16 unat_below_32)

lemma high_half: "unat (a :: u64) div 4294967296 < 4294967296"
proof -
  have "unat a < 2 ^ LENGTH(64)" by (rule unsigned_less)
  then show ?thesis by (intro less_mult_imp_div_less) simp
qed

lemma word_in_parts:
  fixes a :: u64
  shows "unat (ucast a :: u16) + 2 ^ 16 * unat (ucast (drop_bit 16 a) :: u16) + 2 ^ 32 * unat (ucast (drop_bit 32 a) :: u32) = unat a"
proof -
  have split: "n mod 2 ^ 16 + 2 ^ 16 * (n div 2 ^ 16 mod 2 ^ 16) + 2 ^ 32 * (n div 2 ^ 32) = n" for n :: nat
  proof -
    have "n mod 65536 + 65536 * (n div 65536) = n"
      "n div 65536 mod 65536 + 65536 * (n div 65536 div 65536) = n div 65536" by simp_all
    moreover have "n div 65536 div 65536 = n div 4294967296" by (simp flip: div_mult2_eq)
    ultimately have "n mod 65536 + 65536 * (n div 65536 mod 65536) + 4294967296 * (n div 4294967296) = n" by linarith
    then show ?thesis by simp
  qed
  have "unat a div 2 ^ 32 < 2 ^ 32" by (simp add: high_half)
  with split [of "unat a"] show ?thesis
    by (simp add: unsigned_ucast_eq take_bit_eq_mod unsigned_drop_bit_eq drop_bit_eq_div unat_div_distrib)
qed

text \<open>
  C22. Whatever the addresses of the entry points, the processor finds for each of the 256 vectors a
  present interrupt gate to the address of the vector's handler in the code segment, on interrupt
  stack 1, or 2 for the double fault, and only vector 3 may be raised from user mode.
\<close>

theorem idt_gates:
  "gate_at (concat (map idt_bytes (idt_entries selector syms))) (unat v) =
     \<lparr>gate_target = unat (syms (handler_of v)), gate_selector = unat selector, gate_ist = (if v = 8 then 2 else 1),
      gate_type = 14, gate_dpl = (if v = 3 then 3 else 0), gate_present = True\<rparr>"
proof -
  have v: "unat v < length (idt_entries selector syms)" by simp
  have at: "le_at (concat (map idt_bytes (idt_entries selector syms))) (16 * unat v + ofs) n =
      le_at (idt_bytes (idt_entries selector syms ! unat v)) ofs n" if "ofs + n \<le> 16" for ofs n
    using that by (intro le_at_concat_entry v) simp_all
  show ?thesis
    using word_in_parts [of "syms (handler_of v)"]
    by (simp add: gate_at_def Let_def at [of 0 2, simplified] at [of 2 2, simplified]
        at [of 4 1, simplified] at [of 5 1, simplified] at [of 6 2, simplified] at [of 8 4, simplified] idt_bytes_fields idt_entries_nth IdtDescriptor_new_def
        field_defs)
qed

text \<open>The descriptor a selector names; for a system descriptor also its 64-bit base.\<close>

record Segment =
  seg_limit :: nat
  seg_type :: nat
  seg_code_or_data :: bool
  seg_dpl :: nat
  seg_present :: bool
  seg_long :: bool

definition segment_at :: "u8 list \<Rightarrow> u16 \<Rightarrow> Segment" where
  "segment_at table selector =
     (let field = (\<lambda>ofs w. le_at table (unat selector div 8 * 8 + ofs) w);
          limit = field 0 2 + 2 ^ 16 * (field 6 1 mod 16) in
      \<lparr>seg_limit = (if odd (field 6 1 div 128) then limit * 4096 + 4095 else limit), seg_type = field 5 1 mod 16,
       seg_code_or_data = odd (field 5 1 div 16), seg_dpl = field 5 1 div 32 mod 4, seg_present = odd (field 5 1 div 128),
       seg_long = odd (field 6 1 div 32)\<rparr>)"

definition system_base :: "u8 list \<Rightarrow> u16 \<Rightarrow> nat" where
  "system_base table selector =
     (let field = (\<lambda>ofs w. le_at table (unat selector div 8 * 8 + ofs) w) in
      field 2 2 + 2 ^ 16 * field 4 1 + 2 ^ 24 * field 7 1 + 2 ^ 32 * field 8 4)"

lemma base_in_parts:
  fixes a :: u64
  shows "unat a mod 65536 + 65536 * (unat a div 65536 mod 256) + 16777216 * (unat a div 16777216 mod 256) +
    4294967296 * (unat a div 4294967296) = unat a"
proof -
  have div: "unat a div 65536 div 256 = unat a div 16777216" "unat a div 16777216 div 256 = unat a div 4294967296"
    by (simp_all flip: div_mult2_eq)
  have "n mod k + k * (n div k) = n" for n k :: nat by simp
  from this [of "unat a" 65536] this [of "unat a div 65536" 256] this [of "unat a div 16777216" 256] div
  show ?thesis by linarith
qed

lemma to_le_bytes_numeral: "to_le_bytes (numeral k) v = of_nat (v mod 256) # to_le_bytes (pred_numeral k) (v div 256)"
  unfolding numeral_eq_Suc [of k] by simp

lemma replicate_numeral: "replicate (numeral k) x = x # replicate (pred_numeral k) x"
  unfolding numeral_eq_Suc [of k] by simp

lemma two_bytes: "length xs = 2 \<Longrightarrow> \<exists>a b. xs = [a, b]"
  by (subgoal_tac "length xs = Suc (Suc 0)") (auto simp: length_Suc_conv)

lemma four_bytes: "length xs = 4 \<Longrightarrow> \<exists>a b c d. xs = [a, b, c, d]"
proof -
  assume "length xs = 4"
  then have "length xs = Suc (Suc (Suc (Suc 0)))" by simp
  then show ?thesis unfolding length_Suc_conv by auto
qed

text \<open>The bytes of the table, with the address in four parts.\<close>

lemma gdt_bytes_list:
  fixes tss :: u64
  obtains l0 l1 m h b0 b1 b2 b3 where
    "gdt_bytes (Gdt_for tss) = replicate 8 0 @ [0, 0, 0, 0, 0, 0x98, 0x20, 0] @ [0, 0, 0, 0, 0, 0x92, 0, 0] @
       [0x68, 0, l0, l1, m, 0x89, 0x80, h, b0, b1, b2, b3, 0, 0, 0, 0]"
    and "from_le_bytes [l0, l1] + 65536 * unat m + 16777216 * unat h + 4294967296 * from_le_bytes [b0, b1, b2, b3] = unat tss"
proof -
  have masks: "a AND 0xFFFF = take_bit 16 a" "a AND 0xFF = take_bit 8 a" "a AND 0xFFFFFFFF = take_bit 32 a" for a :: u64
    by (simp_all add: take_bit_eq_mask mask_eq_exp_minus_1)
  have parts: "unat (ucast (a AND 0xFFFF) :: u16) = unat a mod 65536" "unat (ucast (a AND 0xFF) :: u8) = unat a mod 256"
    "unat (ucast (a AND 0xFFFFFFFF) :: u32) = unat a mod 4294967296" for a :: u64
    unfolding masks by (simp_all add: unsigned_ucast_eq unsigned_take_bit_eq take_bit_eq_mod [where 'a = nat])
  let ?d = "TaskStateSegment64Descriptor_new tss"
  obtain l0 l1 where l: "to_le_bytes 2 (unat (base_low ?d)) = [l0, l1]"
    using two_bytes [OF length_to_le_bytes] by blast
  obtain b0 b1 b2 b3 where b: "to_le_bytes 4 (unat (base_high ?d)) = [b0, b1, b2, b3]"
    using four_bytes [OF length_to_le_bytes] by blast
  have "from_le_bytes [l0, l1] = unat (base_low ?d)" "from_le_bytes [b0, b1, b2, b3] = unat (base_high ?d)"
    using unsigned_less [of "base_low ?d"] unsigned_less [of "base_high ?d"] by (simp_all flip: l b add: from_to_le_bytes unat_below_16 unat_below_32)
  moreover have "unat (base_low ?d) = unat tss mod 65536" "unat (base_mid_low ?d) = unat tss div 65536 mod 256"
    "unat (base_mid_high ?d) = unat tss div 16777216 mod 256" "unat (base_high ?d) = unat tss div 4294967296"
    using high_half [of tss]
    by (simp_all add: TaskStateSegment64Descriptor_new_def parts unsigned_drop_bit_eq drop_bit_eq_div unat_div_distrib)
  ultimately have sum: "from_le_bytes [l0, l1] + 65536 * unat (base_mid_low ?d) + 16777216 * unat (base_mid_high ?d) +
      4294967296 * from_le_bytes [b0, b1, b2, b3] = unat tss"
    using base_in_parts [of tss] by simp
  have words: "unat (gdt_attr_code KernelCode) = 0x20980000000000" "unat (gdt_attr_code KernelData) = 0x920000000000"
    by (simp_all add: field_defs)
  have le: "to_le_bytes 8 0 = replicate 8 0" "to_le_bytes 8 0x20980000000000 = [0, 0, 0, 0, 0, 0x98, 0x20, 0]"
    "to_le_bytes 8 0x920000000000 = [0, 0, 0, 0, 0, 0x92, 0, 0]" "to_le_bytes 2 104 = [0x68, 0]"
    "to_le_bytes 2 0x8089 = [0x89, 0x80]" "to_le_bytes 4 0 = [0, 0, 0, 0]"
    by (simp_all add: to_le_bytes_numeral replicate_numeral)
  have "limit_low ?d = 104" "tss_attr ?d = 0x8089" "tss_desc_reserved ?d = 0"
    by (simp_all add: TaskStateSegment64Descriptor_new_def TSS_SIZE_def)
  then have "gdt_bytes (Gdt_for tss) = replicate 8 0 @ [0, 0, 0, 0, 0, 0x98, 0x20, 0] @ [0, 0, 0, 0, 0, 0x92, 0, 0] @
       [0x68, 0, l0, l1, base_mid_low ?d, 0x89, 0x80, base_mid_high ?d, b0, b1, b2, b3, 0, 0, 0, 0]"
    unfolding gdt_bytes_def Gdt_for_def tss_descriptor_bytes_def
    by (simp add: words le l b del: gdt_attr_code.simps)
  from that [OF this sum] show thesis .
qed

text \<open>
  C23. The segments that the kernel loads, as the processor reads them from the table's 40 bytes,
  whatever the address of the task state segment: a present 64-bit code segment of ring 0, which
  is execute-only (the constant for the readable bit repeats the long-mode bit); a present writable data
  segment of ring 0; and a present available 64-bit TSS at that address, whose limit is counted in pages.
\<close>

theorem gdt_segments:
  "length (gdt_bytes (Gdt_for tss)) = GDT_SIZE \<and>
   segment_at (gdt_bytes (Gdt_for tss)) KERNEL_CS = \<lparr>seg_limit = 0, seg_type = 8, seg_code_or_data = True, seg_dpl = 0,
     seg_present = True, seg_long = True\<rparr> \<and>
   segment_at (gdt_bytes (Gdt_for tss)) KERNEL_DS = \<lparr>seg_limit = 0, seg_type = 2, seg_code_or_data = True, seg_dpl = 0,
     seg_present = True, seg_long = False\<rparr> \<and>
   segment_at (gdt_bytes (Gdt_for tss)) TSS64_SEL = \<lparr>seg_limit = TSS_SIZE * 4096 + 4095, seg_type = 9, seg_code_or_data = False,
     seg_dpl = 0, seg_present = True, seg_long = False\<rparr> \<and>
   system_base (gdt_bytes (Gdt_for tss)) TSS64_SEL = unat tss"
proof -
  obtain l0 l1 m h b0 b1 b2 b3 where
    bs: "gdt_bytes (Gdt_for tss) = replicate 8 0 @ [0, 0, 0, 0, 0, 0x98, 0x20, 0] @ [0, 0, 0, 0, 0, 0x92, 0, 0] @
       [0x68, 0, l0, l1, m, 0x89, 0x80, h, b0, b1, b2, b3, 0, 0, 0, 0]"
    and sum: "from_le_bytes [l0, l1] + 65536 * unat m + 16777216 * unat h + 4294967296 * from_le_bytes [b0, b1, b2, b3] = unat tss"
    by (rule gdt_bytes_list)
  have sel: "unat KERNEL_CS = 8" "unat KERNEL_DS = 16" "unat TSS64_SEL = 24" by (simp_all add: field_defs)
  show ?thesis
    using sum by (simp add: bs GDT_SIZE_def TSS_SIZE_def segment_at_def system_base_def sel Let_def le_at_def bytes_at_def)
qed

section \<open>The memory of the tables\<close>

lemma live_region_below:
  assumes "heap_inv h" and "(p, n) \<in> live h"
  shows "p + n < usize_bound"
proof -
  obtain bs where r: "represents h bs" using assms(1) by (auto simp: heap_inv_def)
  with assms(2) obtain a s where b: "(a, s, True) \<in> set bs" "p = a + 32" "n = s - 32"
    by (auto simp: live_eq live_blocks_def HEADER_SIZE_def)
  have "wf_block (a, s, True)" using r by (intro wf_blocks_in [OF _ b(1)]) (simp add: represents_def)
  with b show ?thesis by simp
qed

text \<open>The stack of which an address is the top.\<close>

definition stack_region :: "u64 \<Rightarrow> usize \<times> usize" where
  "stack_region rsp = (unat rsp - HANDLER_STACK_SIZE, HANDLER_STACK_SIZE)"

text \<open>A list of new regions, each apart from the earlier ones.\<close>

fun new_regions :: "FirstFitAllocator \<Rightarrow> (usize \<times> usize) list \<Rightarrow> FirstFitAllocator \<Rightarrow> bool" where
  "new_regions h rs h' \<longleftrightarrow> (\<forall>r \<in> set rs. new_region h r h') \<and> sorted_wrt regions_apart rs"

declare new_regions.simps [simp del]

lemma new_regions_Nil: "new_regions h [] h'"
  by (simp add: new_regions.simps)

lemma new_regions_single: "new_region h r h' \<Longrightarrow> new_regions h [r] h'"
  by (simp add: new_regions.simps)

lemma new_regions_append:
  assumes "new_regions h rs h1" and "new_regions h1 qs h2" and "live h \<subseteq> live h1" and "live h1 \<subseteq> live h2"
  shows "new_regions h (rs @ qs) h2"
  using assms new_region_apart [of h _ h1 _ h2]
  by (auto simp: new_regions.simps sorted_wrt_append intro: new_region_later new_region_earlier)

lemma layout_bytes: "n \<le> 2 ^ 62 \<Longrightarrow> layout_ok n 1"
  by (auto simp: layout_ok_def intro: exI [of _ 0])

lemma alloc_interrupt_stack_allocates:
  assumes "heap_inv h"
  shows "allocates (alloc_interrupt_stack h) h (\<lambda>rsp h'. new_regions h [stack_region rsp] h')"
  unfolding alloc_interrupt_stack_def
proof (rule allocates_bind [OF heap_box_allocates [OF assms layout_bytes]])
  fix p h' assume inv: "heap_inv h'" and p: "p \<noteq> 0 \<and> 1 dvd p \<and> new_region h (p, HANDLER_STACK_SIZE) h'"
  then obtain n where "HANDLER_STACK_SIZE \<le> n" "(p, n) \<in> live h'" by (auto simp: new_region_def)
  with live_region_below [OF inv] have "p + HANDLER_STACK_SIZE < usize_bound" by (meson add_le_mono le_refl le_less_trans)
  then have "stack_region (of_nat (p + HANDLER_STACK_SIZE)) = (p, HANDLER_STACK_SIZE)"
    by (simp add: stack_region_def unsigned_of_nat take_bit_nat_eq_self del: of_nat_add)
  with p show "allocates (Some (Ok (of_nat (p + HANDLER_STACK_SIZE)), h')) h' (\<lambda>rsp h'. new_regions h [stack_region rsp] h')"
    by (intro allocates_Ok [OF inv]) (simp add: new_regions_single)
qed (simp add: HANDLER_STACK_SIZE_def)

lemma alloc_ists_allocates:
  "heap_inv h \<Longrightarrow> allocates (alloc_ists n h) h (\<lambda>is h'. length is = n \<and> new_regions h (map stack_region is) h')"
proof (induction n arbitrary: h)
  case (Suc n)
  show ?case unfolding alloc_ists.simps
  proof (rule allocates_bind [OF alloc_interrupt_stack_allocates [OF Suc.prems]], rule allocates_bind [OF Suc.IH], assumption)
    fix i h1 "is" h2
    assume "live h \<subseteq> live h1" "new_regions h [stack_region i] h1" "heap_inv h2" "live h1 \<subseteq> live h2"
      "length is = n \<and> new_regions h1 (map stack_region is) h2"
    then show "allocates (Some (Ok (i # is), h2)) h2 (\<lambda>is h'. length is = Suc n \<and> new_regions h (map stack_region is) h')"
      using new_regions_append [of h "[stack_region i]" h1 "map stack_region is" h2] by (intro allocates_Ok) auto
  qed
qed (simp add: allocates_Ok new_regions_Nil)

text \<open>The stacks the processor may switch to: \<open>rsp[0]\<close> and \<open>ist[1]\<close> to \<open>ist[7]\<close>.\<close>

definition interrupt_stacks :: "TaskStateSegment64 \<Rightarrow> u64 list" where
  "interrupt_stacks t = hd (tss_rsp (tss_inner t)) # tl (tss_ist (tss_inner t))"

definition table_regions :: "GdtWrapper \<Rightarrow> Idt \<Rightarrow> (usize \<times> usize) list" where
  "table_regions w i = map stack_region (interrupt_stacks (tss64 w)) @
     [(tss_addr (tss64 w), TSS_SIZE), (gdt_addr w, GDT_SIZE), (entries_addr i, 4096)]"


lemma TaskStateSegment64_new_allocates:
  assumes "heap_inv h"
  shows "allocates (TaskStateSegment64_new h) h (\<lambda>t h'. length (tss_ist (tss_inner t)) = 8 \<and>
    new_regions h (map stack_region (interrupt_stacks t) @ [(tss_addr t, TSS_SIZE)]) h')"
  unfolding TaskStateSegment64_new_def
proof (rule allocates_bind [OF alloc_interrupt_stack_allocates [OF assms]],
    rule allocates_bind [OF alloc_ists_allocates], assumption,
    rule allocates_bind [OF heap_box_allocates [OF _ layout_bytes]], assumption)
  fix rsp0 h1 "is" h2 p h3
  assume inv: "heap_inv h3" and sub: "live h \<subseteq> live h1" "live h1 \<subseteq> live h2" "live h2 \<subseteq> live h3"
    and new: "new_regions h [stack_region rsp0] h1" "length is = 7 \<and> new_regions h1 (map stack_region is) h2"
      "p \<noteq> 0 \<and> 1 dvd p \<and> new_region h2 (p, TSS_SIZE) h3"
  have "new_regions h ([stack_region rsp0] @ map stack_region is @ [(p, TSS_SIZE)]) h3"
    using new sub by (intro new_regions_append [OF new(1)] new_regions_append [of h1 _ h2] new_regions_single) auto
  then show "allocates (Some (Ok \<lparr>tss_inner = \<lparr>tss_reserved0 = 0, tss_rsp = [rsp0, 0, 0], tss_ist = 0 # is,
      tss_reserved1 = replicate 5 0, io_map_base_addr = 0\<rparr>, tss_addr = p\<rparr>, h3)) h3
      (\<lambda>t h'. length (tss_ist (tss_inner t)) = 8 \<and>
        new_regions h (map stack_region (interrupt_stacks t) @ [(tss_addr t, TSS_SIZE)]) h')"
    using inv new(2) by (intro allocates_Ok) (simp_all add: interrupt_stacks_def)
qed (simp add: TSS_SIZE_def)

lemma GdtWrapper_default_allocates:
  assumes "heap_inv h"
  shows "allocates (GdtWrapper_default h) h (\<lambda>w h'. gdt_inner w = Gdt_for (of_nat (tss_addr (tss64 w))) \<and>
    length (tss_ist (tss_inner (tss64 w))) = 8 \<and>
    new_regions h (map stack_region (interrupt_stacks (tss64 w)) @ [(tss_addr (tss64 w), TSS_SIZE), (gdt_addr w, GDT_SIZE)]) h')"
  unfolding GdtWrapper_default_def
proof (rule allocates_bind [OF TaskStateSegment64_new_allocates [OF assms]],
    rule allocates_bind [OF heap_box_allocates [OF _ layout_bytes]], assumption)
  fix t h1 p h2
  assume inv: "heap_inv h2" and sub: "live h \<subseteq> live h1" "live h1 \<subseteq> live h2"
    and t: "length (tss_ist (tss_inner t)) = 8 \<and> new_regions h (map stack_region (interrupt_stacks t) @ [(tss_addr t, TSS_SIZE)]) h1"
    and p: "p \<noteq> 0 \<and> 1 dvd p \<and> new_region h1 (p, GDT_SIZE) h2"
  from t p have "new_regions h ((map stack_region (interrupt_stacks t) @ [(tss_addr t, TSS_SIZE)]) @ [(p, GDT_SIZE)]) h2"
    by (intro new_regions_append [OF _ _ sub] new_regions_single) auto
  with t inv show "allocates (Some (Ok \<lparr>gdt_inner = Gdt_for (of_nat (tss_addr t)), gdt_addr = p, tss64 = t\<rparr>, h2)) h2
      (\<lambda>w h'. gdt_inner w = Gdt_for (of_nat (tss_addr (tss64 w))) \<and> length (tss_ist (tss_inner (tss64 w))) = 8 \<and>
        new_regions h (map stack_region (interrupt_stacks (tss64 w)) @ [(tss_addr (tss64 w), TSS_SIZE), (gdt_addr w, GDT_SIZE)]) h')"
    by (intro allocates_Ok) simp_all
qed (simp add: GDT_SIZE_def)

definition tables_loaded :: "symbols \<Rightarrow> GdtWrapper \<times> Idt \<times> SystemRegisters \<Rightarrow> bool" where
  "tables_loaded syms = (\<lambda>(w, i, r).
     gdt_inner w = Gdt_for (of_nat (tss_addr (tss64 w))) \<and> entries i = idt_entries KERNEL_CS syms \<and>
     length (tss_ist (tss_inner (tss64 w))) = 8 \<and> gdtr r = (39, gdt_addr w) \<and> idtr r = (4096, entries_addr i) \<and>
     task_register r = TSS64_SEL \<and> cs_reg r = KERNEL_CS \<and>
     (\<forall>seg \<in> {ss_reg, ds_reg, es_reg, fs_reg, gs_reg}. seg r = KERNEL_DS))"

lemma Idt_new_allocates:
  assumes "heap_inv h"
  shows "allocates (Idt_new selector syms r h) h (\<lambda>(i, r') h'. entries i = idt_entries selector syms \<and>
    r' = r\<lparr>idtr := (4096, entries_addr i)\<rparr> \<and> new_regions h [(entries_addr i, 4096)] h')"
  unfolding Idt_new_def Let_def
proof (rule allocates_bind [OF heap_box_allocates [OF assms layout_bytes]])
  fix p h'
  assume "heap_inv h'" "p \<noteq> 0 \<and> 1 dvd p \<and> new_region h (p, 16 * length (idt_entries selector syms)) h'"
  then show "allocates (Some (Ok (\<lparr>entries = idt_entries selector syms, entries_addr = p\<rparr>,
      r\<lparr>idtr := (of_nat (16 * length (idt_entries selector syms)), p)\<rparr>), h')) h' (\<lambda>(i, r') h'. entries i = idt_entries selector syms \<and>
    r' = r\<lparr>idtr := (4096, entries_addr i)\<rparr> \<and> new_regions h [(entries_addr i, 4096)] h')"
    by (intro allocates_Ok) (simp_all add: new_regions_single)
qed simp

lemma init_exceptions_allocates:
  assumes "heap_inv h"
  shows "allocates (init_exceptions syms regs h) h (\<lambda>(w, i, r) h'. tables_loaded syms (w, i, r) \<and> new_regions h (table_regions w i) h')"
  unfolding init_exceptions_def
proof (rule allocates_bind [OF GdtWrapper_default_allocates [OF assms]], rule allocates_bind [OF Idt_new_allocates], assumption)
  fix w h1 h2 and x :: "Idt \<times> SystemRegisters"
  assume sub: "live h \<subseteq> live h1" "live h1 \<subseteq> live h2" and inv: "heap_inv h2"
    and w: "gdt_inner w = Gdt_for (of_nat (tss_addr (tss64 w))) \<and> length (tss_ist (tss_inner (tss64 w))) = 8 \<and>
      new_regions h (map stack_region (interrupt_stacks (tss64 w)) @ [(tss_addr (tss64 w), TSS_SIZE), (gdt_addr w, GDT_SIZE)]) h1"
    and x: "(case x of (i, r') \<Rightarrow> \<lambda>h'. entries i = idt_entries KERNEL_CS syms \<and>
      r' = (write_segments (gdt_load w regs))\<lparr>idtr := (4096, entries_addr i)\<rparr> \<and> new_regions h1 [(entries_addr i, 4096)] h') h2"
  obtain i r where i: "x = (i, r)" by (cases x)
  from w x have "new_regions h ((map stack_region (interrupt_stacks (tss64 w)) @ [(tss_addr (tss64 w), TSS_SIZE), (gdt_addr w, GDT_SIZE)])
      @ [(entries_addr i, 4096)]) h2"
    unfolding i by (intro new_regions_append [OF _ _ sub]) auto
  then have "new_regions h (table_regions w i) h2" by (simp add: table_regions_def)
  then show "allocates ((case x of (idt, r) \<Rightarrow> \<lambda>h. Some (Ok (w, idt, r), h)) h2) h2
      (\<lambda>x h'. (case x of (w, i, r) \<Rightarrow> \<lambda>h'. tables_loaded syms (w, i, r) \<and> new_regions h (table_regions w i) h') h')"
    using w x inv by (auto simp: i tables_loaded_def write_segments_def gdt_load_def GDT_SIZE_def write_cs_def write_ss_def
        write_ds_def write_es_def write_fs_def write_gs_def intro!: allocates_Ok)
qed

text \<open>A heap whose first block has 529632 bytes has room for everything.\<close>

lemma alloc_interrupt_stack_roomy: "roomy h (65632 + m) \<Longrightarrow> \<exists>x h'. alloc_interrupt_stack h = Some (Ok x, h') \<and> roomy h' m"
  using heap_box_roomy [of h 65536 32 m HANDLER_STACK_SIZE 1] layout_bytes [of HANDLER_STACK_SIZE]
  by (force simp: alloc_interrupt_stack_def HANDLER_STACK_SIZE_def request_def round_up_eq bit_length.simps HEADER_SIZE_def)

lemma alloc_ists_roomy: "roomy h (65632 * n + m) \<Longrightarrow> \<exists>x h'. alloc_ists n h = Some (Ok x, h') \<and> roomy h' m"
proof (induction n arbitrary: h)
  case (Suc n)
  then have "roomy h (65632 + (65632 * n + m))" by (simp add: add.assoc)
  from alloc_interrupt_stack_roomy [OF this] Suc.IH show ?case by fastforce
qed simp

lemma init_exceptions_roomy:
  assumes "roomy h 529632"
  shows "\<exists>x h'. init_exceptions syms regs h = Some (Ok x, h')"
proof -
  have req: "request TSS_SIZE 1 = Some (128, 32)" "request GDT_SIZE 1 = Some (64, 32)" "request 4096 1 = Some (4096, 32)"
    by (simp_all add: request_def round_up_eq bit_length.simps HEADER_SIZE_def TSS_SIZE_def GDT_SIZE_def)
  have lay: "layout_ok TSS_SIZE 1" "layout_ok GDT_SIZE 1" "layout_ok 4096 1"
    by (rule layout_bytes, simp add: TSS_SIZE_def GDT_SIZE_def)+
  from alloc_interrupt_stack_roomy [of h "529632 - 65632"] assms obtain a h1 where
    1: "alloc_interrupt_stack h = Some (Ok a, h1)" "roomy h1 464000" by auto
  from alloc_ists_roomy [of h1 7 4576] 1(2) obtain b h2 where 2: "alloc_ists 7 h1 = Some (Ok b, h2)" "roomy h2 4576" by auto
  from heap_box_roomy [of h2 128 32 4352, OF _ lay(1) req(1)] 2(2) obtain c h3 where
    3: "heap_box TSS_SIZE 1 h2 = Some (Ok c, h3)" "roomy h3 4352" by auto
  from heap_box_roomy [of h3 64 32 4192, OF _ lay(2) req(2)] 3(2) obtain d h4 where
    4: "heap_box GDT_SIZE 1 h3 = Some (Ok d, h4)" "roomy h4 4192" by auto
  from heap_box_roomy [of h4 4096 32 0, OF _ lay(3) req(3)] 4(2) obtain e h5 where
    5: "heap_box 4096 1 h4 = Some (Ok e, h5)" by auto
  from 1(1) 2(1) 3(1) 4(1) 5(1) show ?thesis
    by (simp add: init_exceptions_def GdtWrapper_default_def TaskStateSegment64_new_def Idt_new_def)
qed

lemma init_exceptions_outcome:
  assumes "heap_inv h"
  shows "\<exists>r h'. init_exceptions syms regs h = Some (r, h') \<and> heap_inv h' \<and> live h \<subseteq> live h' \<and>
    (case r of Ok (w, i, regs') \<Rightarrow> tables_loaded syms (w, i, regs') \<and> new_regions h (table_regions w i) h'
     | Err e \<Rightarrow> False | Panic e \<Rightarrow> e = ''memory allocation failed'' \<and> \<not> roomy h 529632)"
proof -
  from init_exceptions_allocates [OF assms, of syms regs] obtain r h' where
    "init_exceptions syms regs h = Some (r, h')" "heap_inv h'" "live h \<subseteq> live h'"
    "case r of Ok x \<Rightarrow> (case x of (w, i, r) \<Rightarrow> \<lambda>h'. tables_loaded syms (w, i, r) \<and> new_regions h (table_regions w i) h') h'
       | Err e \<Rightarrow> False | Panic e \<Rightarrow> e = ''memory allocation failed''"
    unfolding allocates_def by blast
  with init_exceptions_roomy [of h syms regs] show ?thesis by (fastforce split: result.splits)
qed

text \<open>
  C21. On a well-formed heap \<open>init_exceptions\<close> returns, or panics because memory ran out, which it
  does not when the first block has 529632 bytes. Afterwards the eight interrupt stacks of 64 KiB,
  the TSS, the GDT and the IDT are live regions of the heap that overlap neither each other nor
  anything that was live before, and the tables and segments are loaded.
\<close>

theorem init_exceptions_tables:
  assumes "heap_inv h"
  shows "\<exists>r h'. init_exceptions syms regs h = Some (r, h') \<and> heap_inv h' \<and> live h \<subseteq> live h' \<and>
    (case r of Ok (w, i, regs') \<Rightarrow> tables_loaded syms (w, i, regs') \<and> new_regions h (table_regions w i) h'
     | Err e \<Rightarrow> False | Panic e \<Rightarrow> e = ''memory allocation failed'' \<and> \<not> roomy h 529632)"
  by (rule init_exceptions_outcome [OF assms])

definition boot_heap :: FirstFitAllocator where
  "boot_heap = \<lparr>first_header = Some 0x100000, heap_mem = [0x100000 \<mapsto> new_header\<lparr>hdr_size := 0x100000\<rparr>]\<rparr>"

definition boot_registers :: SystemRegisters where
  "boot_registers = \<lparr>gdtr = (0, 0), idtr = (0, 0), task_register = 0, cs_reg = 0x38, ss_reg = 0x30, ds_reg = 0x30,
     es_reg = 0x30, fs_reg = 0x30, gs_reg = 0x30\<rparr>"

theorem init_exceptions_tables_witness:
  "\<exists>w i regs' h'. init_exceptions (\<lambda>_. 0x401000) boot_registers boot_heap = Some (Ok (w, i, regs'), h') \<and> length (interrupt_stacks (tss64 w)) = 8 \<and>
     sorted_wrt regions_apart (table_regions w i)"
proof -
  have r: "represents boot_heap [(0x100000, 0x100000, False)]" by (simp add: represents_def boot_heap_def new_header_def)
  then have room: "roomy boot_heap 529632" unfolding roomy_def by force
  from r have "heap_inv boot_heap" by (auto simp: heap_inv_def)
  from init_exceptions_tables [OF this, of "\<lambda>_. 0x401000" boot_registers] room obtain x h' where
    "init_exceptions (\<lambda>_. 0x401000) boot_registers boot_heap = Some (Ok x, h')"
    "case x of (w, i, regs') \<Rightarrow> tables_loaded (\<lambda>_. 0x401000) (w, i, regs') \<and> new_regions boot_heap (table_regions w i) h'"
    by (fastforce split: result.splits)
  then show ?thesis by (cases x) (auto simp: new_regions.simps tables_loaded_def interrupt_stacks_def)
qed

end
