(* ===== verification/Hpet.thy ===== *)
theory Hpet
  imports Acpi BitFields
begin

text \<open>
  \<open>hpet.rs\<close>: the initialisation of the High Precision Event Timer and the time stamp that is
  computed from its main counter. The registers are a record; that the counter runs is
  the hardware's part, so a time stamp is a function of the value the counter has.
\<close>

definition TIMER_CONFIG_LEVEL_TRIGGER :: u64 where
  [field_defs]: "TIMER_CONFIG_LEVEL_TRIGGER = push_bit 1 1"

definition TIMER_CONFIG_INT_ENABLE :: u64 where
  [field_defs]: "TIMER_CONFIG_INT_ENABLE = push_bit 2 1"

definition TIMER_CONFIG_USE_PERIODIC_MODE :: u64 where
  [field_defs]: "TIMER_CONFIG_USE_PERIODIC_MODE = push_bit 3 1"

record HpetRegisters =
  capabilities_and_id :: u64
  hpet_configuration :: u64
  main_counter_value :: u64
  timers :: "u64 list"

record Hpet =
  registers :: HpetRegisters
  num_of_timers :: usize
  freq :: u64

definition globally_disable :: "Hpet \<Rightarrow> Hpet" where
  "globally_disable h = h\<lparr>registers := (registers h)\<lparr>hpet_configuration := hpet_configuration (registers h) AND NOT 1\<rparr>\<rparr>"

definition globally_enable :: "Hpet \<Rightarrow> Hpet" where
  "globally_enable h = h\<lparr>registers := (registers h)\<lparr>hpet_configuration := hpet_configuration (registers h) OR 1\<rparr>\<rparr>"

definition timer_config :: "u64 \<Rightarrow> u64" where
  "timer_config config = config AND NOT (TIMER_CONFIG_INT_ENABLE OR TIMER_CONFIG_USE_PERIODIC_MODE OR
     TIMER_CONFIG_LEVEL_TRIGGER OR push_bit 9 31)"

definition setup_timer :: "usize \<Rightarrow> Hpet \<Rightarrow> Hpet result" where
  "setup_timer i h =
     (if i < length (timers (registers h))
      then Ok (h\<lparr>registers := (registers h)\<lparr>timers := (timers (registers h))[i := timer_config (timers (registers h) ! i)]\<rparr>\<rparr>)
      else Panic ''index out of bounds'')"

definition Hpet_new :: "HpetRegisters \<Rightarrow> Hpet result" where
  "Hpet_new regs =
     (let fs_per_count = drop_bit 32 (capabilities_and_id regs);
          n = unat (drop_bit 8 (capabilities_and_id regs) AND 31) + 1
      in if fs_per_count = 0 then Panic ''attempt to divide by zero''
         else rbind (rfold setup_timer [0..<n] (globally_disable
                \<lparr>registers = regs, num_of_timers = n, freq = 1000000000000000 div fs_per_count\<rparr>)) (\<lambda>h.
              Ok (globally_enable (h\<lparr>registers := (registers h)\<lparr>main_counter_value := 0\<rparr>\<rparr>))))"

definition set_global_hpet :: "Hpet \<Rightarrow> Hpet option \<Rightarrow> Hpet option result" where
  "set_global_hpet h g = (if g = None then Ok (Some h) else Panic ''assertion failed: HPET.lock().is_none()'')"

text \<open>
  \<open>global_timestamp\<close> in nanoseconds: a 128-bit product and quotient, cut to 64 bits.
\<close>

definition global_timestamp :: "Hpet option \<Rightarrow> nat result" where
  "global_timestamp g =
     (case g of None \<Rightarrow> Ok 0
      | Some h \<Rightarrow>
          if freq h = 0 then Panic ''attempt to divide by zero''
          else Ok (unat (main_counter_value (registers h)) * 1000000000 div unat (freq h) mod 2 ^ 64))"

text \<open>
  \<open>init_hpet\<close> of \<open>init.rs\<close>: the ACPI table gives the address of the registers; \<open>regs_at\<close> is what
  the device behind that address shows.
\<close>

definition init_hpet :: "(usize \<Rightarrow> HpetRegisters) \<Rightarrow> memory \<Rightarrow> usize \<Rightarrow> Hpet option \<Rightarrow> Hpet option result" where
  "init_hpet regs_at mem rsdp g =
     rbind (rsdp_hpet mem rsdp) (\<lambda>t. rbind (unwrap (ok_or t ''failed to get HPET table'')) (\<lambda>desc.
     rbind (unwrap (hpet_base_address mem desc)) (\<lambda>a.
     rbind (Hpet_new (regs_at a)) (\<lambda>h. set_global_hpet h g))))"

section \<open>Lemmas\<close>

lemma setup_timers_eq:
  "n \<le> length (timers (registers h)) \<Longrightarrow> rfold setup_timer [0..<n] h =
     Ok (h\<lparr>registers := (registers h)\<lparr>timers := map timer_config (take n (timers (registers h))) @ drop n (timers (registers h))\<rparr>\<rparr>)"
proof (induction n)
  case (Suc n)
  let ?ts = "timers (registers h)"
  have "(map timer_config (take n ?ts) @ drop n ?ts)[n := timer_config (?ts ! n)] =
      map timer_config (take (Suc n) ?ts) @ drop (Suc n) ?ts"
    using Suc.prems by (simp add: list_update_append take_Suc_conv_app_nth flip: Cons_nth_drop_Suc)
  with Suc show ?case by (simp add: rfold_append setup_timer_def nth_append)
qed simp

lemma timer_config_bits:
  "bit (timer_config c) i \<longleftrightarrow> bit c i \<and> i \<noteq> 1 \<and> i \<noteq> 2 \<and> i \<noteq> 3 \<and> \<not> (9 \<le> i \<and> i < 14)"
proof -
  have "push_bit 9 (31 :: u64) = push_bit 9 (mask 5)" by (simp add: mask_eq_exp_minus_1)
  then have e: "timer_config c = c AND NOT (push_bit 2 1 OR push_bit 3 1 OR push_bit 1 1 OR push_bit 9 (mask 5))"
    by (simp add: timer_config_def field_defs)
  show ?thesis unfolding e
    by (simp only: bit_and_iff bit_not_iff bit_or_iff bit_push_bit_iff bit_1_iff bit_mask_iff) (auto dest: bit_imp_le_length)
qed

section \<open>Properties\<close>

text \<open>
  With 32 timer registers and a period that is not zero, \<open>Hpet::new\<close> returns a running
  HPET whose counter is 0 and whose frequency is \<open>10 ^ 15\<close> over the period; in every timer
  it has, the interrupt, the periodic mode, the level trigger and the routing field are
  cleared and no other bit changes, and the other timers are left alone. A period of zero
  is a division by zero.
\<close>

theorem Hpet_new_spec:
  assumes "length (timers r) = 32"
  defines "period \<equiv> drop_bit 32 (capabilities_and_id r)"
  shows "(if period = 0 then is_panic (Hpet_new r)
    else \<exists>h. Hpet_new r = Ok h \<and> freq h = 1000000000000000 div period \<and>
      main_counter_value (registers h) = 0 \<and> bit (hpet_configuration (registers h)) 0 \<and>
      num_of_timers h \<le> 32 \<and> length (timers (registers h)) = 32 \<and>
      (\<forall>i < 32. \<forall>j. bit (timers (registers h) ! i) j \<longleftrightarrow> bit (timers r ! i) j \<and>
         \<not> (i < num_of_timers h \<and> (j = 1 \<or> j = 2 \<or> j = 3 \<or> 9 \<le> j \<and> j < 14))))"
proof (cases "period = 0")
  case False
  define n where "n = unat (drop_bit 8 (capabilities_and_id r) AND 31) + 1"
  have "drop_bit 8 (capabilities_and_id r) AND 31 = take_bit 5 (drop_bit 8 (capabilities_and_id r))"
    by (simp add: take_bit_eq_mask mask_eq_exp_minus_1)
  then have "unat (drop_bit 8 (capabilities_and_id r) AND 31) < 2 ^ 5"
    by (simp only: flip: take_bit_eq_self_unat) simp
  then have n: "n \<le> 32" by (simp add: n_def)
  let ?h0 = "globally_disable \<lparr>registers = r, num_of_timers = n, freq = 1000000000000000 div period\<rparr>"
  have ts: "timers (registers ?h0) = timers r" "num_of_timers ?h0 = n" "freq ?h0 = 1000000000000000 div period"
    by (simp_all add: globally_disable_def)
  have "rfold setup_timer [0..<n] ?h0 =
      Ok (?h0\<lparr>registers := (registers ?h0)\<lparr>timers := map timer_config (take n (timers r)) @ drop n (timers r)\<rparr>\<rparr>)"
    using setup_timers_eq [of n ?h0] n assms(1) ts by simp
  then have "Hpet_new r = Ok (globally_enable (?h0\<lparr>registers := (registers ?h0)\<lparr>timers := map timer_config (take n (timers r)) @ drop n (timers r),
      main_counter_value := 0\<rparr>\<rparr>))"
    using False unfolding Hpet_new_def Let_def period_def n_def by simp
  moreover have "bit ((map timer_config (take n (timers r)) @ drop n (timers r)) ! i) j \<longleftrightarrow> bit (timers r ! i) j \<and>
         \<not> (i < n \<and> (j = 1 \<or> j = 2 \<or> j = 3 \<or> 9 \<le> j \<and> j < 14))" if "i < 32" for i j
    using that n assms(1) by (auto simp: nth_append timer_config_bits)
  ultimately show ?thesis using False n assms(1) ts by (auto simp: globally_enable_def bit_simps)
qed (simp add: Hpet_new_def period_def)

definition example_hpet_registers :: HpetRegisters where
  "example_hpet_registers = \<lparr>capabilities_and_id = 0x009896808086A201, hpet_configuration = 0,
     main_counter_value = 77, timers = replicate 32 0x413E\<rparr>"

theorem Hpet_new_spec_witness:
  "\<exists>h. Hpet_new example_hpet_registers = Ok h \<and> freq h = 100000000 \<and> main_counter_value (registers h) = 0"
  using Hpet_new_spec [of example_hpet_registers] by (auto simp: example_hpet_registers_def drop_bit_eq_div)

text \<open>
  For a period within the range the HPET specification allows (at most \<open>10 ^ 8\<close>
  femtoseconds), the time stamp never divides by zero, is never behind the time the counter
  stands for, and grows with the counter as long as it fits in 64 bits.
\<close>

theorem global_timestamp_monotone:
  assumes "1 \<le> period" and "period \<le> 100000000" and "freq h = of_nat (1000000000000000 div period)"
    and "c \<le> unat (main_counter_value (registers h))"
    and "unat (main_counter_value (registers h)) * 1000000000 div (1000000000000000 div period) < 2 ^ 64"
  shows "\<exists>t. global_timestamp (Some h) = Ok t \<and> unat (main_counter_value (registers h)) * period div 1000000 \<le> t \<and>
    global_timestamp (Some (h\<lparr>registers := (registers h)\<lparr>main_counter_value := of_nat c\<rparr>\<rparr>)) =
      Ok (c * 1000000000 div (1000000000000000 div period)) \<and>
    c * 1000000000 div (1000000000000000 div period) \<le> t"
proof -
  define f m where "f = 1000000000000000 div period" and "m = unat (main_counter_value (registers h))"
  have fp: "f * period \<le> 1000000000000000" by (simp add: f_def)
  have "1000000000000000 div 100000000 \<le> f" unfolding f_def using assms(1,2) by (intro div_le_mono2) simp_all
  then have f0: "0 < f" by simp
  have "f \<le> 1000000000000000" by (simp add: f_def)
  then have uf: "unat (freq h) = f" unfolding assms(3) f_def [symmetric] by (simp add: unat_of_nat take_bit_nat_eq_self)
  then have ne: "freq h \<noteq> 0" using f0 by auto
  have cm: "c \<le> m" using assms(4) by (simp add: m_def)
  have fits: "m * 1000000000 div f < 2 ^ 64" using assms(5) by (simp add: m_def f_def)
  have le: "c * 1000000000 div f \<le> m * 1000000000 div f" using cm by (intro div_le_mono mult_le_mono1)
  have "m < 2 ^ LENGTH(64)" unfolding m_def by (rule unsigned_less)
  then have "c < 2 ^ 64" using cm by simp
  then have uc: "unat (of_nat c :: u64) = c" by (simp add: unat_of_nat take_bit_nat_eq_self)
  have "m * period div 1000000 * f \<le> m * 1000000000"
  proof -
    have "m * period div 1000000 * 1000000 * f \<le> m * period * f" by (intro mult_le_mono1) simp
    also have "\<dots> = m * (f * period)" by (simp add: mult.commute mult.assoc)
    also have "\<dots> \<le> m * 1000000000000000" using fp by (rule mult_le_mono2)
    finally show ?thesis by (simp add: mult.commute)
  qed
  then have "m * period div 1000000 \<le> m * 1000000000 div f" using f0 by (simp add: less_eq_div_iff_mult_less_eq)
  moreover have "global_timestamp (Some h) = Ok (m * 1000000000 div f)"
    using ne uf fits by (simp add: global_timestamp_def m_def)
  moreover have "global_timestamp (Some (h\<lparr>registers := (registers h)\<lparr>main_counter_value := of_nat c\<rparr>\<rparr>)) = Ok (c * 1000000000 div f)"
    using ne uf uc fits le by (simp add: global_timestamp_def)
  ultimately show ?thesis using le unfolding m_def f_def by blast
qed

theorem global_timestamp_monotone_witness:
  "\<exists>h t. freq h = 100000000 \<and> global_timestamp (Some h) = Ok t \<and> 1230 \<le> t \<and>
     global_timestamp (Some (h\<lparr>registers := (registers h)\<lparr>main_counter_value := 100\<rparr>\<rparr>)) = Ok 1000"
proof -
  let ?h = "\<lparr>registers = example_hpet_registers\<lparr>main_counter_value := 123\<rparr>, num_of_timers = 3, freq = 100000000\<rparr>"
  from global_timestamp_monotone [of 10000000 ?h 100]
  obtain t where "global_timestamp (Some ?h) = Ok t" "1230 \<le> t"
    "global_timestamp (Some (?h\<lparr>registers := (registers ?h)\<lparr>main_counter_value := 100\<rparr>\<rparr>)) = Ok 1000" by auto
  then show ?thesis by (intro exI [of _ ?h] exI [of _ t]) simp
qed

end
