(* ===== verification/Executor.thy ===== *)
theory Executor
  imports Prelude
begin

text \<open>
  \<open>executor.rs\<close>: tasks, \<open>block_on\<close>, the round-robin executor, \<open>Yield\<close> and \<open>TimeoutFuture\<close>. A
  future is a state with a poll function over the rest of the world; \<open>Some\<close> is
  \<open>Poll::Ready\<close> and \<open>None\<close> is \<open>Poll::Pending\<close>.
\<close>

type_synonym ('f, 'w, 'r) poll = "'f \<Rightarrow> 'w \<Rightarrow> 'r option \<times> 'f \<times> 'w"

partial_function (option) block_on :: "('f, 'w, 'r) poll \<Rightarrow> 'f \<Rightarrow> 'w \<Rightarrow> ('r \<times> 'w) option" where
  "block_on poll f w =
     (case poll f w of
        (Some r, f', w') \<Rightarrow> Some (r, w')
      | (None, f', w') \<Rightarrow> block_on poll f' w')"

section \<open>The executor\<close>

record 'f Executor =
  tasks :: "'f list option"

definition Executor_new :: "'f Executor" where
  "Executor_new = \<lparr>tasks = None\<rparr>"

definition task_queue :: "'f Executor \<Rightarrow> 'f list" where
  "task_queue e = (case tasks e of None \<Rightarrow> [] | Some q \<Rightarrow> q)"

definition enqueue :: "'f \<Rightarrow> 'f Executor \<Rightarrow> 'f Executor" where
  "enqueue t e = e\<lparr>tasks := Some (task_queue e @ [t])\<rparr>"

definition pop_front :: "'f Executor \<Rightarrow> 'f option \<times> 'f Executor" where
  "pop_front e =
     (case task_queue e of [] \<Rightarrow> (None, e\<lparr>tasks := Some []\<rparr>) | t # q \<Rightarrow> (Some t, e\<lparr>tasks := Some q\<rparr>))"

text \<open>\<open>spawn_global\<close>: the global executor is created by the first task.\<close>

definition spawn_global :: "'f \<Rightarrow> 'f Executor option \<Rightarrow> 'f Executor option" where
  "spawn_global t g = Some (enqueue t (case g of None \<Rightarrow> Executor_new | Some e \<Rightarrow> e))"

text \<open>
  One turn of the loop of \<open>run\<close>. Polling a task may spawn others: it returns them with the
  rest, in the order they were spawned, and they enter the queue before the task goes back.
\<close>

type_synonym ('f, 'w) task_poll = "'f \<Rightarrow> 'w \<Rightarrow> unit result option \<times> 'f \<times> 'f list \<times> 'w"

definition run_turn :: "('f, 'w) task_poll \<Rightarrow> 'f Executor option \<times> 'w \<Rightarrow> 'f Executor option \<times> 'w" where
  "run_turn poll = (\<lambda>(g, w).
     (case g of
        None \<Rightarrow> (None, w)
      | Some e \<Rightarrow>
         (case pop_front e of
            (None, e') \<Rightarrow> (Some e', w)
          | (Some t, e') \<Rightarrow>
             (case poll t w of (r, t', spawned, w') \<Rightarrow>
                let g' = fold spawn_global spawned (Some e') in
                (case r of
                   Some _ \<Rightarrow> (g', w')
                 | None \<Rightarrow> (map_option (enqueue t') g', w'))))))"

definition run_turns :: "('f, 'w) task_poll \<Rightarrow> nat \<Rightarrow> 'f Executor option \<times> 'w \<Rightarrow> 'f Executor option \<times> 'w" where
  "run_turns poll n = run_turn poll ^^ n"

definition queue_of :: "'f Executor option \<Rightarrow> 'f list" where
  "queue_of g = (case g of None \<Rightarrow> [] | Some e \<Rightarrow> task_queue e)"

section \<open>Futures of the executor\<close>

text \<open>\<open>Yield\<close> is the flag \<open>polled\<close>; the future is ready when it is polled again.\<close>

definition yield_poll :: "(bool, 'w, unit) poll" where
  "yield_poll polled w = ((if polled then Some () else None), True, w)"

text \<open>\<open>TimeoutFuture\<close>: \<open>now\<close> reads the time stamp; durations are in nanoseconds.\<close>

definition TimeoutFuture_new :: "nat \<Rightarrow> nat \<Rightarrow> nat" where
  "TimeoutFuture_new now duration = now + duration"

definition timeout_poll :: "('w \<Rightarrow> nat) \<Rightarrow> (nat, 'w, unit) poll" where
  "timeout_poll now time_out w = ((if time_out < now w then Some () else None), time_out, w)"

section \<open>Futures that make progress\<close>

text \<open>
  The contract of a future that ends: every poll that is pending brings it closer, by a
  measure of its own state. What a caller may conclude is proved here.
\<close>

locale progressing_future =
  fixes poll :: "('f, 'w, 'r) poll" and rank :: "'f \<Rightarrow> nat"
  assumes progress: "poll f w = (None, f', w') \<Longrightarrow> rank f' < rank f"
begin

lemma block_on_returns: "\<exists>r w'. block_on poll f w = Some (r, w')"
proof (induction "rank f" arbitrary: f w rule: less_induct)
  case less
  obtain r f' w' where p: "poll f w = (r, f', w')" by (cases "poll f w")
  show ?case
  proof (cases r)
    case None
    with p progress [of f w f' w'] less.hyps [of f' w'] show ?thesis by (subst block_on.simps) simp
  next
    case (Some x)
    with p show ?thesis by (subst block_on.simps) simp
  qed
qed

end

interpretation yield_future: progressing_future "yield_poll :: (bool, 'w, unit) poll" "\<lambda>polled. if polled then 0 else 1"
  by unfold_locales (auto simp: yield_poll_def split: if_splits)

section \<open>Turns of the executor\<close>

lemma task_queue_simps [simp]:
  "task_queue (e\<lparr>tasks := Some q\<rparr>) = q"
  "task_queue (enqueue t e) = task_queue e @ [t]"
  by (simp_all add: task_queue_def enqueue_def)

lemma fold_spawn: "\<exists>e'. fold spawn_global ts (Some e) = Some e' \<and> task_queue e' = task_queue e @ ts"
proof (induction ts arbitrary: e)
  case (Cons t ts)
  from Cons [of "enqueue t e"] show ?case by (simp add: spawn_global_def)
qed simp

text \<open>A turn takes the head of the queue and leaves the rest in front.\<close>

lemma run_turn_queue:
  assumes "queue_of g = t # q" and "poll t w = (r, t', spawned, w')"
  shows "\<exists>g'. run_turn poll (g, w) = (g', w') \<and> g' \<noteq> None \<and>
    queue_of g' = q @ spawned @ (if r = None then [t'] else [])"
proof -
  obtain e where g: "g = Some e" "task_queue e = t # q" using assms(1) by (auto simp: queue_of_def split: option.splits)
  obtain e' where e': "fold spawn_global spawned (Some (e\<lparr>tasks := Some q\<rparr>)) = Some e'" "task_queue e' = q @ spawned"
    using fold_spawn [of spawned "e\<lparr>tasks := Some q\<rparr>"] by auto
  show ?thesis using g e' assms(2)
    by (cases r) (simp_all add: run_turn_def pop_front_def queue_of_def Let_def)
qed

lemma run_turns_prefix:
  "k \<le> length (queue_of g) \<Longrightarrow> \<exists>g' w' new. run_turns poll k (g, w) = (g', w') \<and> queue_of g' = drop k (queue_of g) @ new"
proof (induction k)
  case (Suc k)
  then obtain g' w' new where IH: "run_turns poll k (g, w) = (g', w')" "queue_of g' = drop k (queue_of g) @ new" by auto
  have d: "drop k (queue_of g) = queue_of g ! k # drop (Suc k) (queue_of g)" using Suc.prems by (simp add: Cons_nth_drop_Suc)
  obtain r t' sp w'' where p: "poll (queue_of g ! k) w' = (r, t', sp, w'')" by (cases "poll (queue_of g ! k) w'")
  from run_turn_queue [where poll = poll, OF _ p, of g' "drop (Suc k) (queue_of g) @ new"] IH(2) d
  obtain g'' where "run_turn poll (g', w') = (g'', w'')"
    "queue_of g'' = (drop (Suc k) (queue_of g) @ new) @ sp @ (if r = None then [t'] else [])" by auto
  with IH(1) show ?case by (auto simp: run_turns_def)
qed (simp add: run_turns_def)

lemma run_turns_Suc: "run_turns poll (Suc n) s = run_turns poll n (run_turn poll s)"
  by (simp add: run_turns_def funpow_swap1)

section \<open>Properties\<close>

text \<open>
  The executor is fair: whatever the tasks do when they are polled (finish, stay pending,
  spawn more), a task with \<open>k\<close> tasks before it in the queue is at the head, not yet touched,
  after exactly \<open>k\<close> turns, and the next turn polls it.
\<close>

theorem executor_fair:
  assumes "k < length (queue_of g)"
  shows "\<exists>g' w' rest. run_turns poll k (g, w) = (g', w') \<and> queue_of g' = queue_of g ! k # rest \<and>
    snd (run_turns poll (Suc k) (g, w)) = snd (snd (snd (poll (queue_of g ! k) w')))"
proof -
  obtain g' w' new where t: "run_turns poll k (g, w) = (g', w')" "queue_of g' = drop k (queue_of g) @ new"
    using run_turns_prefix [of k g poll w] assms by auto
  have d: "drop k (queue_of g) = queue_of g ! k # drop (Suc k) (queue_of g)" using assms by (simp add: Cons_nth_drop_Suc)
  obtain r t' sp w'' where p: "poll (queue_of g ! k) w' = (r, t', sp, w'')" by (cases "poll (queue_of g ! k) w'")
  from run_turn_queue [where poll = poll, OF _ p, of g' "drop (Suc k) (queue_of g) @ new"] t(2) d
  obtain g'' where "run_turn poll (g', w') = (g'', w'')" by auto
  with t p d show ?thesis by (simp add: run_turns_def)
qed

theorem executor_fair_witness:
  "\<exists>rest. queue_of (fst (run_turns (\<lambda>t w. (None, t + 1, [], w + t)) 2 (spawn_global 30 (spawn_global 20 (spawn_global 10 None)), 0 :: nat))) =
     (30 :: nat) # rest"
proof -
  let ?g = "spawn_global 30 (spawn_global 20 (spawn_global (10 :: nat) None))"
  have q: "queue_of ?g = [10, 20, 30]"
    by (simp add: queue_of_def spawn_global_def task_queue_def enqueue_def Executor_new_def)
  from executor_fair [of 2 ?g "\<lambda>t w. (None, t + 1, [], w + t)" "0 :: nat"] show ?thesis unfolding q by auto
qed



end
