(* ===== verification/Serial.thy ===== *)
theory Serial
  imports Prelude "HOL-Library.While_Combinator"
begin

text \<open>
  \<open>serial.rs\<close> and \<open>qemu.rs\<close>: the serial port behind the port instructions of \<open>x86.rs\<close>. What a read
  returns and how the device changes is a parameter; every access is noted, so that properties can
  speak of the order of accesses whatever the device does. Text is a list of code points. The last
  section is a 16550 with its receive FIFO, as its data sheet describes it.
\<close>

datatype PortAction = In u16 u8 | Out u16 u8

record 'p Io =
  device :: 'p
  accesses :: "PortAction list"

record 'p IoDevice =
  on_read :: "u16 \<Rightarrow> 'p \<Rightarrow> u8 \<times> 'p"
  on_write :: "u16 \<Rightarrow> u8 \<Rightarrow> 'p \<Rightarrow> 'p"
  on_pause :: "'p \<Rightarrow> 'p"

definition read_io_port_u8 :: "'p IoDevice \<Rightarrow> u16 \<Rightarrow> 'p Io \<Rightarrow> u8 \<times> 'p Io" where
  "read_io_port_u8 D port s =
     (case on_read D port (device s) of (v, d) \<Rightarrow> (v, s\<lparr>device := d, accesses := accesses s @ [In port v]\<rparr>))"

definition write_io_port_u8 :: "'p IoDevice \<Rightarrow> u16 \<Rightarrow> u8 \<Rightarrow> 'p Io \<Rightarrow> 'p Io" where
  "write_io_port_u8 D port v s = s\<lparr>device := on_write D port v (device s), accesses := accesses s @ [Out port v]\<rparr>"

definition busy_loop_hint :: "'p IoDevice \<Rightarrow> 'p Io \<Rightarrow> 'p Io" where
  "busy_loop_hint D s = s\<lparr>device := on_pause D (device s)\<rparr>"

text \<open>A \<open>SerialPort\<close> is its base; \<open>Default\<close> is COM1.\<close>

definition SerialPort_default :: u16 where
  "SerialPort_default = 0x3F8"

definition BAUD_DIVISOR :: u16 where
  "BAUD_DIVISOR = 1"

definition serial_init :: "'p IoDevice \<Rightarrow> u16 \<Rightarrow> 'p Io \<Rightarrow> 'p Io" where
  "serial_init D base =
     fold (\<lambda>(ofs, v). write_io_port_u8 D (base + ofs) v)
       [(1, 0), (3, 0x80), (0, ucast (BAUD_DIVISOR AND 0xFF)), (1, ucast (drop_bit 8 BAUD_DIVISOR)), (3, 3), (2, 0xC7), (4, 0x0B)]"

definition try_read :: "'p IoDevice \<Rightarrow> u16 \<Rightarrow> 'p Io \<Rightarrow> u8 option \<times> 'p Io" where
  "try_read D base s =
     (case read_io_port_u8 D (base + 5) s of (v, s) \<Rightarrow>
        if v AND 1 = 0 then (None, s)
        else (case read_io_port_u8 D base s of (c, s) \<Rightarrow> (Some c, write_io_port_u8 D (base + 2) 0xC7 s)))"

text \<open>The wait of \<open>send_char\<close>; the loop reads the line status before each pause.\<close>

partial_function (option) wait_for_empty :: "'p IoDevice \<Rightarrow> u16 \<Rightarrow> 'p Io \<Rightarrow> 'p Io option" where
  "wait_for_empty D base s =
     (case read_io_port_u8 D (base + 5) s of (v, s) \<Rightarrow>
        if v AND 0x20 = 0 then wait_for_empty D base (busy_loop_hint D s) else Some s)"

definition send_char :: "'p IoDevice \<Rightarrow> u16 \<Rightarrow> nat \<Rightarrow> 'p Io \<Rightarrow> 'p Io option" where
  "send_char D base c s = map_option (write_io_port_u8 D base (of_nat c)) (wait_for_empty D base s)"

primrec send_str :: "'p IoDevice \<Rightarrow> u16 \<Rightarrow> nat list \<Rightarrow> 'p Io \<Rightarrow> 'p Io option" where
  "send_str D base [] s = Some s"
| "send_str D base (c # cs) s = Option.bind (send_char D base c s) (send_str D base cs)"

definition loopback_test :: "'p IoDevice \<Rightarrow> u16 \<Rightarrow> 'p Io \<Rightarrow> (unit result \<times> 'p Io) option" where
  "loopback_test D base s =
     map_option (\<lambda>s. case try_read D base s of (r, s) \<Rightarrow>
         (case r of None \<Rightarrow> (Err ''loopback_test failed: No responese'', s)
          | Some c \<Rightarrow> if c \<noteq> 84 then (Err ''loopback_test failed: wrong data received'', s)
                      else (Ok (), write_io_port_u8 D (base + 4) 0x0F s)))
       (send_char D base 84 (write_io_port_u8 D (base + 4) 0x1E s))"

text \<open>\<open>fmt::Write::write_str\<close> always goes to COM1.\<close>

definition serial_write_str :: "'p IoDevice \<Rightarrow> nat list \<Rightarrow> 'p Io \<Rightarrow> 'p Io option" where
  "serial_write_str D s = send_str D SerialPort_default s"

text \<open>\<open>exit_qemu\<close> writes its code and halts; the result is the state in which it halts.\<close>

datatype QemuExitCode = QemuSuccess | QemuFail

primrec exit_code :: "QemuExitCode \<Rightarrow> u8" where
  "exit_code QemuSuccess = 1"
| "exit_code QemuFail = 2"

definition exit_qemu :: "'p IoDevice \<Rightarrow> QemuExitCode \<Rightarrow> 'p Io \<Rightarrow> 'p Io" where
  "exit_qemu D c s = write_io_port_u8 D 0xF4 (exit_code c) s"

section \<open>The order of accesses\<close>

text \<open>
  A transmission: before each byte the line status is read until it shows an empty
  transmitter, and the byte is written right after that.
\<close>

fun polled :: "u16 \<Rightarrow> u8 list \<Rightarrow> PortAction list \<Rightarrow> bool" where
  "polled base [] as \<longleftrightarrow> as = []"
| "polled base (b # bs) (In p v # as) \<longleftrightarrow> p = base + 5 \<and>
     (if v AND 0x20 = 0 then polled base (b # bs) as
      else (case as of Out q c # as' \<Rightarrow> q = base \<and> c = b \<and> polled base bs as' | _ \<Rightarrow> False))"
| "polled base (b # bs) _ \<longleftrightarrow> False"

text \<open>One round of the wait, and a device that becomes ready some time after every state.\<close>

definition status_round :: "'p IoDevice \<Rightarrow> u16 \<Rightarrow> 'p \<Rightarrow> 'p" where
  "status_round D base d = on_pause D (snd (on_read D (base + 5) d))"

definition gets_ready :: "'p IoDevice \<Rightarrow> u16 \<Rightarrow> bool" where
  "gets_ready D base \<longleftrightarrow> (\<forall>d. \<exists>n. fst (on_read D (base + 5) ((status_round D base ^^ n) d)) AND 0x20 \<noteq> 0)"

lemma wait_for_empty_returns:
  "fst (on_read D (base + 5) ((status_round D base ^^ n) (device s))) AND 0x20 \<noteq> 0 \<Longrightarrow>
   \<exists>s' vs v. wait_for_empty D base s = Some s' \<and> (\<forall>x \<in> set vs. x AND 0x20 = 0) \<and> v AND 0x20 \<noteq> 0 \<and>
     accesses s' = accesses s @ map (In (base + 5)) vs @ [In (base + 5) v]"
proof (induction n arbitrary: s)
  case 0
  obtain v d where "on_read D (base + 5) (device s) = (v, d)" by (cases "on_read D (base + 5) (device s)")
  with 0 show ?case
    by (intro exI [of _ "s\<lparr>device := d, accesses := accesses s @ [In (base + 5) v]\<rparr>"] exI [of _ "[]"] exI [of _ v])
      (subst wait_for_empty.simps, simp add: read_io_port_u8_def)
next
  case (Suc n)
  obtain v d where r: "on_read D (base + 5) (device s) = (v, d)" by (cases "on_read D (base + 5) (device s)")
  let ?s1 = "s\<lparr>device := d, accesses := accesses s @ [In (base + 5) v]\<rparr>"
  show ?case
  proof (cases "v AND 0x20 = 0")
    case True
    have "device (busy_loop_hint D ?s1) = status_round D base (device s)" by (simp add: busy_loop_hint_def status_round_def r)
    with Suc.prems have "fst (on_read D (base + 5) ((status_round D base ^^ n) (device (busy_loop_hint D ?s1)))) AND 0x20 \<noteq> 0"
      by (simp add: funpow_swap1)
    from Suc.IH [OF this] obtain s' vs w where "wait_for_empty D base (busy_loop_hint D ?s1) = Some s'"
      "\<forall>x \<in> set vs. x AND 0x20 = 0" "w AND 0x20 \<noteq> 0"
      "accesses s' = accesses (busy_loop_hint D ?s1) @ map (In (base + 5)) vs @ [In (base + 5) w]" by blast
    then show ?thesis using r True
      by (intro exI [of _ s'] exI [of _ "v # vs"] exI [of _ w]) (subst wait_for_empty.simps, simp add: read_io_port_u8_def busy_loop_hint_def)
  next
    case False
    then show ?thesis using r
      by (intro exI [of _ ?s1] exI [of _ "[]"] exI [of _ v]) (subst wait_for_empty.simps, simp add: read_io_port_u8_def)
  qed
qed

lemma polled_reads: "\<forall>x \<in> set vs. x AND 0x20 = 0 \<Longrightarrow> v AND 0x20 \<noteq> 0 \<Longrightarrow> polled base bs as \<Longrightarrow>
    polled base (b # bs) (map (In (base + 5)) vs @ In (base + 5) v # Out base b # as)"
  by (induction vs) auto

lemma send_char_returns:
  assumes "gets_ready D base"
  shows "\<exists>s' vs v. send_char D base c s = Some s' \<and> (\<forall>x \<in> set vs. x AND 0x20 = 0) \<and> v AND 0x20 \<noteq> 0 \<and>
    accesses s' = accesses s @ map (In (base + 5)) vs @ [In (base + 5) v, Out base (of_nat c)]"
proof -
  obtain n where "fst (on_read D (base + 5) ((status_round D base ^^ n) (device s))) AND 0x20 \<noteq> 0"
    using assms by (auto simp: gets_ready_def)
  from wait_for_empty_returns [OF this] show ?thesis by (force simp: send_char_def write_io_port_u8_def)
qed

lemma send_str_returns:
  assumes "gets_ready D base"
  shows "\<exists>s' as. send_str D base cs s = Some s' \<and> accesses s' = accesses s @ as \<and> polled base (map of_nat cs) as"
proof (induction cs arbitrary: s)
  case (Cons c cs)
  from send_char_returns [OF assms] obtain s1 vs v where
    s1: "send_char D base c s = Some s1" "\<forall>x \<in> set vs. x AND 0x20 = 0" "v AND 0x20 \<noteq> 0"
      "accesses s1 = accesses s @ map (In (base + 5)) vs @ [In (base + 5) v, Out base (of_nat c)]" by blast
  from Cons.IH [of s1] obtain s' as where "send_str D base cs s1 = Some s'" "accesses s' = accesses s1 @ as"
    "polled base (map of_nat cs) as" by blast
  with s1 polled_reads [OF s1(2,3), of base "map of_nat cs" as] show ?case by auto
qed simp

text \<open>
  On a device whose transmitter becomes empty again after every byte, \<open>send_str\<close> returns, and has
  written the low bytes of the characters to the data port, all of them, in order, each right after a
  read of the line status that showed an empty transmitter, with no other write.
\<close>

theorem send_str_polled:
  assumes "gets_ready D base"
  shows "\<exists>s' as. send_str D base cs s = Some s' \<and> accesses s' = accesses s @ as \<and> polled base (map of_nat cs) as"
  using assms by (rule send_str_returns)

text \<open>The last value written to a port.\<close>

definition last_write :: "u16 \<Rightarrow> PortAction list \<Rightarrow> u8 option" where
  "last_write p as = foldl (\<lambda>r a. case a of Out q v \<Rightarrow> if q = p then Some v else r | In q v \<Rightarrow> r) None as"

lemma last_write_append [simp]:
  "last_write p (as @ [Out q v]) = (if q = p then Some v else last_write p as)"
  "last_write p (as @ [In q v]) = last_write p as"
  by (simp_all add: last_write_def)

lemma last_write_reads: "last_write p (as @ map (In q) vs) = last_write p as"
  by (induction vs rule: rev_induct) (simp_all flip: append_assoc)

lemma try_read_last_write: "last_write (base + 4) (accesses (snd (try_read D base s))) = last_write (base + 4) (accesses s)"
  by (auto simp: try_read_def read_io_port_u8_def write_io_port_u8_def split: prod.splits)

text \<open>
  The loopback test returns on every such device and never panics. It leaves loopback mode only
  when it succeeds: after a failure the modem control register keeps the loopback bit, so that
  what is printed afterwards does not leave the port.
\<close>

theorem loopback_test_mode:
  assumes "gets_ready D base"
  shows "\<exists>r s'. loopback_test D base s = Some (r, s') \<and> \<not> is_panic r \<and>
    last_write (base + 4) (accesses s') = Some (if is_ok r then 0x0F else 0x1E)"
proof -
  let ?s0 = "write_io_port_u8 D (base + 4) 0x1E s"
  from send_char_returns [OF assms] obtain s1 vs v where s1: "send_char D base 84 ?s0 = Some s1"
    "accesses s1 = accesses ?s0 @ map (In (base + 5)) vs @ [In (base + 5) v, Out base (of_nat 84)]" by blast
  have "last_write (base + 4) (((accesses ?s0 @ map (In (base + 5)) vs) @ [In (base + 5) v]) @ [Out base (of_nat 84)]) = Some 0x1E"
    by (simp only: last_write_append last_write_reads) (simp add: write_io_port_u8_def)
  then have lw: "last_write (base + 4) (accesses s1) = Some 0x1E" by (simp add: s1(2))
  obtain r s2 where r: "try_read D base s1 = (r, s2)" by (cases "try_read D base s1")
  with try_read_last_write [of base D s1] lw have "last_write (base + 4) (accesses s2) = Some 0x1E" by simp
  with s1(1) r show ?thesis by (cases r) (auto simp: loopback_test_def write_io_port_u8_def)
qed

section \<open>A 16550\<close>

text \<open>
  The part of the data sheet the driver relies on: the line status shows a received byte and an
  empty transmitter, the data port takes and gives bytes, bit 4 of the modem control register loops the
  transmitter back to the receiver, and bit 1 of a write to the FIFO control register clears the receive FIFO.
\<close>

record Uart =
  rx_fifo :: "u8 list"
  sent :: "u8 list"
  modem_control :: u8

definition uart16550 :: "u16 \<Rightarrow> Uart IoDevice" where
  "uart16550 base = \<lparr>
     on_read = (\<lambda>p u. if p = base then (case rx_fifo u of [] \<Rightarrow> (0, u) | c # cs \<Rightarrow> (c, u\<lparr>rx_fifo := cs\<rparr>))
                     else if p = base + 5 then (if rx_fifo u = [] then 0x20 else 0x21, u) else (0, u)),
     on_write = (\<lambda>p v u. if p = base then (if bit (modem_control u) 4 then u\<lparr>rx_fifo := rx_fifo u @ [v]\<rparr> else u\<lparr>sent := sent u @ [v]\<rparr>)
                       else if p = base + 2 then (if bit v 1 then u\<lparr>rx_fifo := []\<rparr> else u)
                       else if p = base + 4 then u\<lparr>modem_control := v\<rparr> else u),
     on_pause = id\<rparr>"

lemma uart16550_gets_ready: "gets_ready (uart16550 base) base"
proof -
  have "fst (on_read (uart16550 base) (base + 5) ((status_round (uart16550 base) base ^^ 0) u)) AND 0x20 \<noteq> 0" for u
    by (simp add: uart16550_def)
  then show ?thesis unfolding gets_ready_def by blast
qed

definition idle_port :: "Uart Io" where
  "idle_port = \<lparr>device = \<lparr>rx_fifo = [], sent = [], modem_control = 0x0B\<rparr>, accesses = []\<rparr>"

theorem send_str_polled_witness:
  "\<exists>s' as. send_str (uart16550 0x3F8) 0x3F8 [72, 105] idle_port = Some s' \<and> accesses s' = as \<and> polled 0x3F8 [72, 105] as"
  using send_str_polled [OF uart16550_gets_ready [of "0x3F8"], of "[72, 105]" idle_port] by (simp add: idle_port_def)

theorem loopback_test_mode_witness:
  "\<exists>r s'. loopback_test (uart16550 0x3F8) 0x3F8 idle_port = Some (r, s') \<and>
     last_write 0x3FC (accesses s') = Some (if is_ok r then 0x0F else 0x1E)"
  using loopback_test_mode [OF uart16550_gets_ready [of "0x3F8"], of idle_port] by auto

text \<open>
  On a 16550, \<open>try_read\<close> returns the oldest byte received, if there is one, and throws away
  all the others: it clears the receive FIFO after every byte.
\<close>

theorem try_read_drops_fifo:
  "case try_read (uart16550 base) base s of (r, s') \<Rightarrow>
     (case rx_fifo (device s) of
        [] \<Rightarrow> r = None \<and> device s' = device s
      | c # cs \<Rightarrow> r = Some c \<and> device s' = (device s)\<lparr>rx_fifo := []\<rparr>)"
  by (cases "rx_fifo (device s)") (simp_all add: try_read_def read_io_port_u8_def write_io_port_u8_def uart16550_def)

end
