(* ===== verification/Format.thy ===== *)
theory Format
  imports Prelude
begin

text \<open>
  What the kernel uses of \<open>core::fmt\<close> for numbers: upper-case hexadecimal with zero padding, with and
  without the prefix, and decimal. Reading the digits back gives the number.
\<close>

definition digit_char :: "nat \<Rightarrow> char" where
  "digit_char d = ''0123456789ABCDEF'' ! d"

fun digits_base :: "nat \<Rightarrow> nat \<Rightarrow> string" where
  "digits_base b n = (if n < b \<or> b < 2 then [digit_char n] else digits_base b (n div b) @ [digit_char (n mod b)])"

declare digits_base.simps [simp del]

definition pad_left :: "nat \<Rightarrow> char \<Rightarrow> string \<Rightarrow> string" where
  "pad_left w c s = replicate (w - length s) c @ s"

definition pad_right :: "nat \<Rightarrow> char \<Rightarrow> string \<Rightarrow> string" where
  "pad_right w c s = s @ replicate (w - length s) c"

text \<open>\<open>{}\<close>, \<open>{:0wX}\<close> and \<open>{:#0wX}\<close>, whose width counts the prefix.\<close>

definition fmt_dec :: "nat \<Rightarrow> string" where
  "fmt_dec n = digits_base 10 n"

definition fmt_hex :: "nat \<Rightarrow> nat \<Rightarrow> string" where
  "fmt_hex w n = pad_left w CHR ''0'' (digits_base 16 n)"

definition fmt_hex_alt :: "nat \<Rightarrow> nat \<Rightarrow> string" where
  "fmt_hex_alt w n = ''0x'' @ pad_left (w - 2) CHR ''0'' (digits_base 16 n)"

text \<open>A digit of \<open>{:x}\<close>, and \<open>{:#x}\<close> with a width.\<close>

definition lower_digit :: "char \<Rightarrow> char" where
  "lower_digit c = (if 65 \<le> (of_char c :: nat) \<and> (of_char c :: nat) \<le> 70 then char_of (of_char c + 32 :: nat) else c)"

definition fmt_hex_lower :: "nat \<Rightarrow> nat \<Rightarrow> string" where
  "fmt_hex_lower w n = ''0x'' @ map lower_digit (pad_left (w - 2) CHR ''0'' (digits_base 16 n))"

text \<open>The end of a line.\<close>

abbreviation newline :: char where
  "newline \<equiv> CHR 0x0A"

section \<open>Lemmas\<close>

definition char_value :: "char \<Rightarrow> nat" where
  "char_value c = (case find (\<lambda>d. digit_char d = c) [0..<16] of Some d \<Rightarrow> d | None \<Rightarrow> 0)"

definition read_hex :: "string \<Rightarrow> nat" where
  "read_hex s = foldl (\<lambda>n c. 16 * n + char_value c) 0 s"

lemma char_value_digit [simp]: "d < 16 \<Longrightarrow> char_value (digit_char d) = d"
proof -
  have "list_all (\<lambda>d. char_value (digit_char d) = d) [0..<16]" by code_simp
  then show "d < 16 \<Longrightarrow> char_value (digit_char d) = d" by (simp add: list_all_iff)
qed

lemma read_hex_digits: "read_hex (digits_base 16 n) = n"
proof (induction "16 :: nat" n rule: digits_base.induct)
  case (1 n)
  then show ?case by (subst digits_base.simps) (auto simp: read_hex_def)
qed

lemma read_hex_pad [simp]: "read_hex (pad_left w CHR ''0'' s) = read_hex s"
proof -
  have zero: "char_value CHR ''0'' = 0" using char_value_digit [of 0] by (simp add: digit_char_def)
  have "foldl (\<lambda>n c. 16 * n + char_value c) 0 (replicate k CHR ''0'') = 0" for k
    by (induction k) (simp_all add: zero)
  then show ?thesis by (simp add: read_hex_def pad_left_def)
qed

lemma read_fmt_hex [simp]: "read_hex (fmt_hex w n) = n"
  by (simp add: fmt_hex_def read_hex_digits)

lemma length_digits: "1 < b \<Longrightarrow> 0 < k \<Longrightarrow> n < b ^ k \<Longrightarrow> length (digits_base b n) \<le> k"
proof (induction k arbitrary: n)
  case (Suc k)
  show ?case
  proof (cases "n < b")
    case False
    with Suc.prems have "0 < k" "n div b < b ^ k" by (auto intro: gr0I less_mult_imp_div_less simp: mult.commute)
    with Suc.IH [of "n div b"] Suc.prems(1) False show ?thesis by (subst digits_base.simps) simp
  qed (subst digits_base.simps, simp)
qed simp

lemmas length_digits_16 = length_digits [of 16, simplified]

lemma length_fmt_hex: "0 < w \<Longrightarrow> n < 16 ^ w \<Longrightarrow> length (fmt_hex w n) = w"
  using length_digits_16 [of w n] by (simp add: fmt_hex_def pad_left_def)

lemma length_hex:
  assumes "2 < w" and "n < 16 ^ (w - 2)"
  shows "length (fmt_hex_lower w n) = w" and "length (fmt_hex_alt w n) = w"
  using length_digits_16 [of "w - 2" n] assms by (simp_all add: fmt_hex_lower_def fmt_hex_alt_def pad_left_def)

end
