(* ===== verification/Graphics.thy ===== *)
theory Graphics
  imports Uefi "HOL-Library.Signed_Division"
begin

text \<open>
  \<open>graphics.rs\<close> and the frame buffer of \<open>uefi.rs\<close>: the \<open>Bitmap\<close> trait as the record of what
  its required methods return, the drawing functions over a memory of 32-bit pixels
  addressed by byte, the font and the text writer. Coordinates are \<open>i64\<close> with the overflow
  of every operation checked.
\<close>

section \<open>Bitmaps\<close>

record Bitmap =
  bytes_per_pixel :: i64
  pixel_per_line :: i64
  bm_width :: i64
  bm_height :: i64
  buf_mut :: usize

type_synonym pixels = "usize \<Rightarrow> u32"

definition is_in_x_range :: "Bitmap \<Rightarrow> i64 \<Rightarrow> bool" where
  "is_in_x_range b px \<longleftrightarrow> 0 \<le> px \<and> px < min (bm_width b) (pixel_per_line b)"

definition is_in_y_range :: "Bitmap \<Rightarrow> i64 \<Rightarrow> bool" where
  "is_in_y_range b py \<longleftrightarrow> 0 \<le> py \<and> py < bm_height b"

text \<open>The address of a pixel; the cast of the offset to \<open>usize\<close> reduces it modulo \<open>2 ^ 64\<close>.\<close>

definition unchecked_pixel_at_mut :: "Bitmap \<Rightarrow> i64 \<Rightarrow> i64 \<Rightarrow> usize result" where
  "unchecked_pixel_at_mut b x y =
     rbind (mul_i64 y (pixel_per_line b)) (\<lambda>l. rbind (add_i64 l x) (\<lambda>p. rbind (mul_i64 p (bytes_per_pixel b)) (\<lambda>ofs.
       add_usize (buf_mut b) (nat (ofs mod 2 ^ 64)))))"

definition pixel_at_mut :: "Bitmap \<Rightarrow> i64 \<Rightarrow> i64 \<Rightarrow> usize option result" where
  "pixel_at_mut b x y =
     (if is_in_x_range b x \<and> is_in_y_range b y
      then rbind (unchecked_pixel_at_mut b x y) (\<lambda>a. Ok (Some a)) else Ok None)"

definition unchecked_draw_point :: "Bitmap \<Rightarrow> u32 \<Rightarrow> i64 \<Rightarrow> i64 \<Rightarrow> pixels \<Rightarrow> pixels result" where
  "unchecked_draw_point b color x y m = rbind (unchecked_pixel_at_mut b x y) (\<lambda>a. Ok (m(a := color)))"

definition draw_point :: "Bitmap \<Rightarrow> u32 \<Rightarrow> i64 \<Rightarrow> i64 \<Rightarrow> pixels \<Rightarrow> pixels result" where
  "draw_point b color x y m =
     rbind (pixel_at_mut b x y) (\<lambda>o'. rbind (ok_or o' ''out of range'') (\<lambda>a. Ok (m(a := color))))"

definition fill_rect :: "Bitmap \<Rightarrow> u32 \<Rightarrow> i64 \<Rightarrow> i64 \<Rightarrow> i64 \<Rightarrow> i64 \<Rightarrow> pixels \<Rightarrow> pixels result" where
  "fill_rect b color px py w h m =
     (if \<not> is_in_x_range b px \<or> \<not> is_in_y_range b py then Err ''out of range''
      else rbind (rbind (add_i64 px w) (\<lambda>e. sub_i64 e 1)) (\<lambda>qx.
        if \<not> is_in_x_range b qx then Err ''out of range''
        else rbind (rbind (add_i64 py h) (\<lambda>e. sub_i64 e 1)) (\<lambda>qy.
          if \<not> is_in_y_range b qy then Err ''out of range''
          else rfold (\<lambda>y. rfold (\<lambda>x. unchecked_draw_point b color x y) [px..px + w - 1]) [py..py + h - 1] m)))"

section \<open>Lines\<close>

definition calc_slope_point :: "i64 \<Rightarrow> i64 \<Rightarrow> i64 \<Rightarrow> i64 option result" where
  "calc_slope_point da db ia =
     (if da < db then Ok None
      else if da = 0 then Ok (Some 0)
      else if 0 \<le> ia \<and> ia \<le> da
      then rbind (mul_i64 2 db) (\<lambda>t. rbind (mul_i64 t ia) (\<lambda>u. rbind (add_i64 u da) (\<lambda>v.
             Ok (Some ((v sdiv da) sdiv 2)))))
      else Ok None)"

text \<open>
  One step of the loops of \<open>draw_line\<close>: along the major axis \<open>a\<close>, with the point on the minor
  axis that \<open>calc_slope_point\<close> gives, if any.
\<close>

definition line_step :: "(i64 \<Rightarrow> i64 \<Rightarrow> pixels \<Rightarrow> pixels result) \<Rightarrow> i64 \<Rightarrow> i64 \<Rightarrow> i64 \<Rightarrow> pixels \<Rightarrow> pixels result" where
  "line_step plot da db ia m =
     rbind (calc_slope_point da db ia) (\<lambda>o'. case o' of None \<Rightarrow> Ok m | Some ib \<Rightarrow> plot ia ib m)"

definition draw_line :: "Bitmap \<Rightarrow> u32 \<Rightarrow> i64 \<Rightarrow> i64 \<Rightarrow> i64 \<Rightarrow> i64 \<Rightarrow> pixels \<Rightarrow> pixels result" where
  "draw_line b color x0 y0 x1 y1 m =
     (if \<not> is_in_x_range b x0 \<or> \<not> is_in_x_range b x1 \<or> \<not> is_in_y_range b y0 \<or> \<not> is_in_y_range b y1
      then Err ''out of range''
      else rbind (sub_i64 x1 x0) (\<lambda>ex. rbind (sub_i64 y1 y0) (\<lambda>ey.
        let dx = \<bar>ex\<bar>; sx = sgn ex; dy = \<bar>ey\<bar>; sy = sgn ey;
            plot = (\<lambda>rx ry m. rbind (rbind (mul_i64 rx sx) (add_i64 x0)) (\<lambda>x.
                              rbind (rbind (mul_i64 ry sy) (add_i64 y0)) (\<lambda>y. draw_point b color x y m)))
        in if dx \<ge> dy then rfold (line_step plot dx dy) [0..dx - 1] m
           else rfold (line_step (\<lambda>ry rx. plot rx ry) dy dx) [0..dy - 1] m)))"

section \<open>Fonts and text\<close>

text \<open>Characters are code points; the font source is the text of \<open>font.txt\<close>, an argument.\<close>

type_synonym glyph = "char list list"

fun split_lines :: "string \<Rightarrow> string list" where
  "split_lines [] = [[]]"
| "split_lines (c # cs) =
     (if c = CHR 0x0A then [] # split_lines cs
      else (case split_lines cs of [] \<Rightarrow> [[c]] | l # ls \<Rightarrow> (c # l) # ls))"

definition hex_digit :: "char \<Rightarrow> nat option" where
  "hex_digit c =
     (let n = of_char c :: nat in
      if 48 \<le> n \<and> n \<le> 57 then Some (n - 48)
      else if 97 \<le> n \<and> n \<le> 102 then Some (n - 87)
      else if 65 \<le> n \<and> n \<le> 70 then Some (n - 55) else None)"

text \<open>\<open>u8::from_str_radix(_, 16)\<close>: an optional sign, then digits; the value must fit.\<close>

fun hex_value :: "nat \<Rightarrow> string \<Rightarrow> nat option" where
  "hex_value acc [] = Some acc"
| "hex_value acc (c # cs) =
     (case hex_digit c of None \<Rightarrow> None
      | Some d \<Rightarrow> if acc * 16 + d < 256 then hex_value (acc * 16 + d) cs else None)"

definition u8_from_hex :: "string \<Rightarrow> nat option" where
  "u8_from_hex s =
     (let digits = (case s of [] \<Rightarrow> [] | c # cs \<Rightarrow> if c = CHR ''+'' then cs else s) in
      if digits = [] then None else hex_value 0 digits)"

definition strip_0x :: "string \<Rightarrow> string option" where
  "strip_0x l = (case l of a # b # r \<Rightarrow> if a = CHR ''0'' \<and> b = CHR ''x'' then Some r else None | _ \<Rightarrow> None)"

text \<open>Sixteen rows of eight; a missing character or row stays \<open>*\<close>.\<close>

definition glyph_row :: "string \<Rightarrow> char list" where
  "glyph_row l = take 8 l @ replicate (8 - length l) CHR ''*''"

definition read_glyph :: "string list \<Rightarrow> glyph" where
  "read_glyph ls = map glyph_row (take 16 ls) @ replicate (16 - length ls) (replicate 8 CHR ''*'')"

fun parse_font :: "string list \<Rightarrow> (nat \<Rightarrow> glyph) \<Rightarrow> (nat \<Rightarrow> glyph)" where
  "parse_font [] font = font"
| "parse_font (l # ls) font =
     parse_font ls
       (case Option.bind (strip_0x l) u8_from_hex of None \<Rightarrow> font | Some idx \<Rightarrow> font(idx := read_glyph ls))"

definition lookup_font :: "string \<Rightarrow> nat \<Rightarrow> glyph option" where
  "lookup_font source c =
     (if c < 256 then Some (parse_font (split_lines source) (\<lambda>_. replicate 16 (replicate 8 CHR ''*'')) c) else None)"

text \<open>
  \<open>let _ = ..\<close> ignores an error; a panic still ends the function. The operations whose
  errors are ignored (\<open>draw_point\<close>, \<open>draw_line\<close>) return \<open>Err\<close> only before they draw anything.
\<close>

definition ignore_err :: "'a \<Rightarrow> 'a result \<Rightarrow> 'a result" where
  "ignore_err old r = (case r of Err _ \<Rightarrow> Ok old | _ \<Rightarrow> r)"

definition draw_glyph :: "Bitmap \<Rightarrow> i64 \<Rightarrow> i64 \<Rightarrow> u32 \<Rightarrow> glyph \<Rightarrow> pixels \<Rightarrow> pixels result" where
  "draw_glyph b x y color g =
     rfold (\<lambda>(dy, row). rfold (\<lambda>(dx, pixel) m.
       if pixel = CHR ''*''
       then rbind (add_i64 x (int dx)) (\<lambda>px. rbind (add_i64 y (int dy)) (\<lambda>py. ignore_err m (draw_point b color px py m)))
       else Ok m) (enumerate 0 row)) (enumerate 0 g)"

definition draw_font_fg :: "string \<Rightarrow> Bitmap \<Rightarrow> i64 \<Rightarrow> i64 \<Rightarrow> u32 \<Rightarrow> nat \<Rightarrow> pixels \<Rightarrow> pixels result" where
  "draw_font_fg source b x y color c m =
     (case lookup_font source c of None \<Rightarrow> Ok m | Some g \<Rightarrow> draw_glyph b x y color g m)"

definition draw_str_fg :: "string \<Rightarrow> Bitmap \<Rightarrow> i64 \<Rightarrow> i64 \<Rightarrow> u32 \<Rightarrow> nat list \<Rightarrow> pixels \<Rightarrow> pixels result" where
  "draw_str_fg source b x y color s =
     rfold (\<lambda>(i, c) m. rbind (rbind (mul_i64 (int i) 8) (add_i64 x)) (\<lambda>px. draw_font_fg source b px y color c m)) (enumerate 0 s)"

record BitmapTextWriter =
  tw_buf :: Bitmap
  cursor_x :: i64
  cursor_y :: i64

definition BitmapTextWriter_new :: "Bitmap \<Rightarrow> BitmapTextWriter" where
  "BitmapTextWriter_new b = \<lparr>tw_buf = b, cursor_x = 0, cursor_y = 0\<rparr>"

definition write_char :: "string \<Rightarrow> nat \<Rightarrow> BitmapTextWriter \<times> pixels \<Rightarrow> (BitmapTextWriter \<times> pixels) result" where
  "write_char source c = (\<lambda>(w, m).
     if c = 10 then rbind (add_i64 (cursor_y w) 16) (\<lambda>y. Ok (w\<lparr>cursor_x := 0, cursor_y := y\<rparr>, m))
     else rbind (draw_font_fg source (tw_buf w) (cursor_x w) (cursor_y w) 0xFFFFFF c m) (\<lambda>m'.
          rbind (add_i64 (cursor_x w) 8) (\<lambda>x. Ok (w\<lparr>cursor_x := x\<rparr>, m'))))"

definition write_str :: "string \<Rightarrow> nat list \<Rightarrow> BitmapTextWriter \<times> pixels \<Rightarrow> (BitmapTextWriter \<times> pixels) result" where
  "write_str source s = rfold (write_char source) s"

section \<open>The frame buffer\<close>

record GraphicsMode =
  horizontal_resolution :: u32
  vertical_resolution :: u32
  pixels_per_scan_line :: u32
  frame_buffer_base :: usize

record VramBufferInfo =
  vram_buf :: usize
  vram_width :: i64
  vram_height :: i64
  vram_pixels_per_line :: i64

definition vram_bitmap :: "VramBufferInfo \<Rightarrow> Bitmap" where
  "vram_bitmap v = \<lparr>bytes_per_pixel = 4, pixel_per_line = vram_pixels_per_line v, bm_width = vram_width v,
     bm_height = vram_height v, buf_mut = vram_buf v\<rparr>"

text \<open>\<open>locate\<close> is the firmware's \<open>LocateProtocol\<close> for the graphics output protocol.\<close>

definition locate_graphic_protocol :: "(EfiGuid \<Rightarrow> u64 \<times> GraphicsMode) \<Rightarrow> EfiGuid \<Rightarrow> GraphicsMode result" where
  "locate_graphic_protocol locate guid =
     (case locate guid of (status, gp) \<Rightarrow>
        if status \<noteq> 0 then Err ''failed to locate graphics output protocol'' else Ok gp)"

definition init_vram :: "(EfiGuid \<Rightarrow> u64 \<times> GraphicsMode) \<Rightarrow> EfiGuid \<Rightarrow> VramBufferInfo result" where
  "init_vram locate guid =
     rbind (locate_graphic_protocol locate guid) (\<lambda>gp.
       Ok \<lparr>vram_buf = frame_buffer_base gp, vram_width = uint (horizontal_resolution gp),
           vram_height = uint (vertical_resolution gp), vram_pixels_per_line = uint (pixels_per_scan_line gp)\<rparr>)"

section \<open>The test pattern\<close>

definition test_pattern_points :: "(i64 \<times> i64) list" where
  "test_pattern_points = [(0, 0), (128, 0), (0, 128), (128, 128)]"

definition test_pattern_rects :: "VramBufferInfo \<Rightarrow> i64 \<Rightarrow> pixels \<Rightarrow> pixels result" where
  "test_pattern_rects buf left =
     rfold (\<lambda>(i, c) m.
       rbind (unwrap (fill_rect (vram_bitmap buf) c left (int i * 64) 64 64 m)) (\<lambda>m'.
       rbind (add_i64 left 64) (\<lambda>left'. unwrap (fill_rect (vram_bitmap buf) (NOT c) left' (int i * 64) 64 64 m'))))
     (enumerate 0 [0x000000, 0xFF0000, 0x00FF00, 0x0000FF])"

definition test_pattern_lines :: "VramBufferInfo \<Rightarrow> i64 \<Rightarrow> pixels \<Rightarrow> pixels result" where
  "test_pattern_lines buf left =
     rfold (\<lambda>(x0, y0). rfold (\<lambda>(x1, y1) m.
       rbind (add_i64 left x0) (\<lambda>ax. rbind (add_i64 left x1) (\<lambda>bx.
         ignore_err m (draw_line (vram_bitmap buf) 0xFFFFFF ax y0 bx y1 m)))) test_pattern_points) test_pattern_points"

definition draw_test_pattern :: "string \<Rightarrow> VramBufferInfo \<Rightarrow> pixels \<Rightarrow> pixels result" where
  "draw_test_pattern source buf m =
     rbind (rbind (sub_i64 (vram_width buf) 128) (\<lambda>t. sub_i64 t 1)) (\<lambda>left.
     rbind (test_pattern_rects buf left m) (\<lambda>m1.
     rbind (test_pattern_lines buf left m1) (\<lambda>m2.
     rbind (draw_str_fg source (vram_bitmap buf) left 256 0x00FF00 [48..<58] m2) (\<lambda>m3.
       draw_str_fg source (vram_bitmap buf) left 272 0x00FF00 [65..<71] m3))))"

definition init_display :: "string \<Rightarrow> VramBufferInfo \<Rightarrow> pixels \<Rightarrow> pixels result" where
  "init_display source vram m =
     rbind (unwrap (fill_rect (vram_bitmap vram) 0 0 0 (vram_width vram) (vram_height vram) m)) (\<lambda>m'.
       draw_test_pattern source vram m')"

section \<open>Painting sets of pixels\<close>

text \<open>Every drawing function paints a set of cells in one colour; loops paint the union.\<close>

definition paint :: "usize set \<Rightarrow> u32 \<Rightarrow> pixels \<Rightarrow> pixels" where
  "paint S c m = (\<lambda>a. if a \<in> S then c else m a)"

lemma paint_empty [simp]: "paint {} c m = m"
  by (simp add: paint_def)

lemma paint_paint [simp]: "paint S c (paint T c m) = paint (S \<union> T) c m"
  by (auto simp: paint_def)

lemma paint_single: "m(a := c) = paint {a} c m"
  by (auto simp: paint_def)

lemma rfold_paint:
  assumes "\<And>x m. x \<in> set xs \<Longrightarrow> f x m = Ok (paint (S x) c m)"
  shows "rfold f xs m = Ok (paint (\<Union>x \<in> set xs. S x) c m)"
  using assms by (induction xs arbitrary: m) (simp_all add: Un_commute)

definition pixel_addr :: "Bitmap \<Rightarrow> i64 \<Rightarrow> i64 \<Rightarrow> usize" where
  "pixel_addr b x y = buf_mut b + nat ((y * pixel_per_line b + x) * bytes_per_pixel b)"

definition inside :: "Bitmap \<Rightarrow> i64 \<Rightarrow> i64 \<Rightarrow> bool" where
  "inside b x y \<longleftrightarrow> is_in_x_range b x \<and> is_in_y_range b y"

lemma multiples_apart: "(p::int) \<noteq> q \<Longrightarrow> 0 \<le> s \<Longrightarrow> p * s + s \<le> q * s \<or> q * s + s \<le> p * s"
  using mult_right_mono [of "p + 1" q s] mult_right_mono [of "q + 1" p s] by (cases "p < q") (simp_all add: distrib_right)

text \<open>The points between two coordinates.\<close>

lemma between:
  fixes x0 x1 t :: int
  assumes "0 \<le> t" "t \<le> \<bar>x1 - x0\<bar>"
  shows "min x0 x1 \<le> x0 + t * sgn (x1 - x0)" "x0 + t * sgn (x1 - x0) \<le> max x0 x1"
  using assms by (cases "x1 - x0" "0::int" rule: linorder_cases; simp)+

lemma sdiv_nonneg: "0 \<le> (a::int) \<Longrightarrow> 0 < b \<Longrightarrow> a sdiv b = a div b"
  by (cases "a = 0") (simp_all add: signed_divide_int_def)

lemma slope_bounds:
  fixes da db ia :: int
  assumes "0 < da" "0 \<le> db" "db \<le> da" "0 \<le> ia" "ia \<le> da"
  defines "r \<equiv> (2 * db * ia + da) div da div 2"
  shows "0 \<le> r" "r \<le> db" "2 * r * da \<le> 2 * db * ia + da" "2 * db * ia + da < 2 * (r + 1) * da"
proof -
  let ?n = "2 * db * ia + da"
  have n: "0 \<le> ?n" using assms by simp
  have r: "r = ?n div (da * 2)" using assms(1) by (simp add: r_def zdiv_zmult2_eq)
  show "0 \<le> r" using n assms(1) by (simp add: r pos_imp_zdiv_nonneg_iff)
  have "r * (da * 2) + ?n mod (da * 2) = ?n" unfolding r by (rule div_mult_mod_eq)
  moreover have "0 \<le> ?n mod (da * 2)" "?n mod (da * 2) < da * 2" using assms(1) by simp_all
  ultimately show lo: "2 * r * da \<le> ?n" and "?n < 2 * (r + 1) * da" by (simp_all add: algebra_simps)
  show "r \<le> db"
  proof (rule ccontr)
    assume "\<not> r \<le> db"
    then have "2 * ((db + 1) * da) \<le> 2 * (r * da)" using assms(1) by simp
    also have "\<dots> \<le> ?n" using lo by (simp add: algebra_simps)
    also have "db * ia \<le> db * da" using assms by (intro mult_left_mono) simp_all
    then have "?n \<le> 2 * (db * da) + da" by simp
    finally show False using assms(1) by (simp add: algebra_simps)
  qed
qed

lemma calc_slope_point_eq:
  assumes "0 < da" "0 \<le> db" "db \<le> da" "0 \<le> ia" "ia \<le> da" "da < 2 ^ 31"
  shows "calc_slope_point da db ia = Ok (Some ((2 * db * ia + da) div da div 2))"
proof -
  have "db * ia \<le> da * da" using assms by (intro mult_mono) simp_all
  also have "\<dots> \<le> (2 ^ 31 - 1) * (2 ^ 31 - 1)" using assms by (intro mult_mono) simp_all
  finally have le: "2 * db * ia + da < 2 ^ 63" using assms(6) by simp
  have nn: "0 \<le> 2 * db * ia" "0 \<le> 2 * db * ia + da" using assms by simp_all
  have lo: "- 4611686018427387904 \<le> db * ia" using mult_nonneg_nonneg [OF assms(2,4)] by linarith
  have "0 \<le> (2 * db * ia + da) div da" using assms(1) nn by (simp add: pos_imp_zdiv_nonneg_iff)
  then show ?thesis using assms le nn lo
    by (simp add: calc_slope_point_def mul_i64_def add_i64_def i64_result_def sdiv_nonneg)
qed

text \<open>The points of a line: one for each step of the longer axis but the last.\<close>

definition slope :: "int \<Rightarrow> int \<Rightarrow> int \<Rightarrow> int" where
  "slope da db ia = (2 * db * ia + da) div da div 2"

definition line_points :: "i64 \<Rightarrow> i64 \<Rightarrow> i64 \<Rightarrow> i64 \<Rightarrow> (i64 \<times> i64) set" where
  "line_points x0 y0 x1 y1 =
     (let dx = \<bar>x1 - x0\<bar>; sx = sgn (x1 - x0); dy = \<bar>y1 - y0\<bar>; sy = sgn (y1 - y0) in
      if dx \<ge> dy then (\<lambda>t. (x0 + t * sx, y0 + slope dx dy t * sy)) ` {0..<dx}
      else (\<lambda>t. (x0 + slope dy dx t * sx, y0 + t * sy)) ` {0..<dy})"

text \<open>Every glyph has 16 rows of 8.\<close>

definition glyph_ok :: "glyph \<Rightarrow> bool" where
  "glyph_ok g \<longleftrightarrow> length g = 16 \<and> (\<forall>row \<in> set g. length row = 8)"

lemma read_glyph_ok: "glyph_ok (read_glyph ls)"
  by (auto simp: glyph_ok_def read_glyph_def glyph_row_def)

lemma parse_font_ok: "(\<And>c. glyph_ok (font c)) \<Longrightarrow> glyph_ok (parse_font ls font c)"
  by (induction ls font rule: parse_font.induct) (auto simp: read_glyph_ok split: option.splits)

lemma lookup_font_ok: "lookup_font source c = Some g \<Longrightarrow> glyph_ok g"
  by (auto simp: lookup_font_def glyph_ok_def intro!: parse_font_ok [unfolded glyph_ok_def] split: if_splits)

text \<open>The cells of a bitmap within a box.\<close>

definition box_cells :: "Bitmap \<Rightarrow> i64 \<Rightarrow> i64 \<Rightarrow> i64 \<Rightarrow> i64 \<Rightarrow> usize set" where
  "box_cells b x y w h = {pixel_addr b px py | px py. inside b px py \<and> x \<le> px \<and> px < x + w \<and> y \<le> py \<and> py < y + h}"

section \<open>What a bitmap guarantees its clients\<close>

text \<open>
  The contract of the \<open>Bitmap\<close> trait: an implementor \<open>v\<close> whose state is \<open>ok\<close> has at least four
  bytes a pixel and a buffer for all its lines within the address space. What the drawing
  functions do on any such bitmap is proved here; \<open>VramBufferInfo\<close> is an instance below.
\<close>

locale bitmap =
  fixes bm :: "'v \<Rightarrow> Bitmap" and ok :: "'v \<Rightarrow> bool"
  assumes pixel_size: "ok v \<Longrightarrow> 4 \<le> bytes_per_pixel (bm v)"
    and extent: "ok v \<Longrightarrow> pixel_per_line (bm v) < 2 ^ 31 \<and> bm_height (bm v) < 2 ^ 31"
    and room: "ok v \<Longrightarrow> bm_height (bm v) \<ge> 0 \<Longrightarrow> pixel_per_line (bm v) \<ge> 0 \<Longrightarrow>
      int (buf_mut (bm v)) + bm_height (bm v) * pixel_per_line (bm v) * bytes_per_pixel (bm v) < 2 ^ 63"
begin

lemma offset_bounds:
  assumes "ok v" "inside (bm v) x y"
  defines "p \<equiv> y * pixel_per_line (bm v) + x"
  shows "0 \<le> p" "p < bm_height (bm v) * pixel_per_line (bm v)"
    "p * bytes_per_pixel (bm v) < bm_height (bm v) * pixel_per_line (bm v) * bytes_per_pixel (bm v)"
proof -
  let ?l = "pixel_per_line (bm v)" let ?h = "bm_height (bm v)" let ?s = "bytes_per_pixel (bm v)"
  have r: "0 \<le> x" "x < ?l" "0 \<le> y" "y < ?h"
    using assms(2) by (auto simp: inside_def is_in_x_range_def is_in_y_range_def)
  show "0 \<le> p" using r by (simp add: p_def)
  have "(y + 1) * ?l \<le> ?h * ?l" using r by (intro mult_right_mono) simp_all
  then show lt: "p < ?h * ?l" using r(2) by (simp add: p_def algebra_simps)
  show "p * ?s < ?h * ?l * ?s" using lt pixel_size [OF assms(1)] by (intro mult_strict_right_mono) simp_all
qed

lemma unchecked_pixel_ok:
  assumes "ok v" "inside (bm v) x y"
  shows "unchecked_pixel_at_mut (bm v) x y = Ok (pixel_addr (bm v) x y)"
proof -
  let ?l = "pixel_per_line (bm v)" let ?s = "bytes_per_pixel (bm v)" let ?p = "y * ?l + x"
  have r: "0 \<le> x" "x < ?l" "0 \<le> y" "y < bm_height (bm v)"
    using assms(2) by (auto simp: inside_def is_in_x_range_def is_in_y_range_def)
  note o = offset_bounds [OF assms]
  have s: "4 \<le> ?s" using pixel_size [OF assms(1)] .
  have rm: "int (buf_mut (bm v)) + bm_height (bm v) * ?l * ?s < 2 ^ 63" using room [OF assms(1)] r by simp
  have nn: "0 \<le> y * ?l" "0 \<le> ?p * ?s" using r o(1) s by simp_all
  have le: "?p \<le> ?p * ?s" using o(1) s mult_left_mono [of 1 ?s ?p] by simp
  have up: "?p * ?s < 2 ^ 63" "int (buf_mut (bm v)) + ?p * ?s < 2 ^ 63" using o(3) rm by simp_all
  then have "y * ?l < 2 ^ 63" "?p < 2 ^ 63" using le r(1) by simp_all
  moreover have "?p * ?s mod 2 ^ 64 = ?p * ?s" using nn(2) up(1) by (intro mod_pos_pos_trivial) simp_all
  moreover have "int (buf_mut (bm v) + nat (?p * ?s)) < 2 ^ 64" using up(2) nn(2) by simp
  then have "buf_mut (bm v) + nat (?p * ?s) < 2 ^ 64" by (simp flip: of_nat_less_iff [where 'a = int])
  ultimately show ?thesis using nn up o(1)
    by (simp add: unchecked_pixel_at_mut_def mul_i64_def add_i64_def i64_result_def add_usize_def pixel_addr_def)
qed

text \<open>Different pixels have different cells, at least four bytes apart.\<close>

lemma pixel_addr_apart:
  assumes "ok v" "inside (bm v) x y" "inside (bm v) x' y'" "(x, y) \<noteq> (x', y')"
  shows "pixel_addr (bm v) x y + 4 \<le> pixel_addr (bm v) x' y' \<or> pixel_addr (bm v) x' y' + 4 \<le> pixel_addr (bm v) x y"
proof -
  let ?l = "pixel_per_line (bm v)" let ?s = "bytes_per_pixel (bm v)"
  let ?p = "y * ?l + x" let ?q = "y' * ?l + x'"
  have r: "0 \<le> x" "x < ?l" "0 \<le> x'" "x' < ?l"
    using assms(2,3) by (auto simp: inside_def is_in_x_range_def)
  have s: "4 \<le> ?s" using pixel_size [OF assms(1)] .
  have "?p \<noteq> ?q"
  proof
    assume eq: "?p = ?q"
    have "?p div ?l = y" "?q div ?l = y'" using r by simp_all
    with eq have "y = y'" by simp
    with eq assms(4) show False by simp
  qed
  then have "?p * ?s + ?s \<le> ?q * ?s \<or> ?q * ?s + ?s \<le> ?p * ?s" using s by (intro multiples_apart) simp_all
  moreover have "0 \<le> ?p * ?s" "0 \<le> ?q * ?s"
    using offset_bounds(1) [OF assms(1,2)] offset_bounds(1) [OF assms(1,3)] s by simp_all
  ultimately have "nat (?p * ?s) + 4 \<le> nat (?q * ?s) \<or> nat (?q * ?s) + 4 \<le> nat (?p * ?s)" using s by linarith
  then show ?thesis by (auto simp: pixel_addr_def)
qed

lemma pixel_addr_inj:
  "ok v \<Longrightarrow> inside (bm v) x y \<Longrightarrow> inside (bm v) x' y' \<Longrightarrow> pixel_addr (bm v) x y = pixel_addr (bm v) x' y' \<Longrightarrow> x = x' \<and> y = y'"
  using pixel_addr_apart [of v x y x' y'] by auto

lemma draw_point_ok:
  "ok v \<Longrightarrow> draw_point (bm v) c x y m =
     (if inside (bm v) x y then Ok (paint {pixel_addr (bm v) x y} c m) else Err ''out of range'')"
  using unchecked_pixel_ok [of v x y] by (auto simp: draw_point_def pixel_at_mut_def inside_def paint_single)

lemma fill_rect_ok:
  assumes "ok v" "is_in_x_range (bm v) px" "is_in_y_range (bm v) py"
    "is_in_x_range (bm v) (px + w - 1)" "is_in_y_range (bm v) (py + h - 1)"
  shows "fill_rect (bm v) c px py w h m = Ok (paint {pixel_addr (bm v) x y | x y. px \<le> x \<and> x < px + w \<and> py \<le> y \<and> y < py + h} c m)"
proof -
  have ins: "inside (bm v) x y" if "px \<le> x" "x < px + w" "py \<le> y" "y < py + h" for x y
    using assms that by (auto simp: inside_def is_in_x_range_def is_in_y_range_def)
  have bx: "px + w < 2 ^ 63" "py + h < 2 ^ 63" "0 \<le> px + w - 1" "0 \<le> py + h - 1"
    using assms extent [OF assms(1)] by (auto simp: is_in_x_range_def is_in_y_range_def)
  have row: "rfold (\<lambda>x. unchecked_draw_point (bm v) c x y) [px..px + w - 1] m =
      Ok (paint (\<Union>x \<in> set [px..px + w - 1]. {pixel_addr (bm v) x y}) c m)" if "y \<in> set [py..py + h - 1]" for y m
    by (rule rfold_paint) (use that ins unchecked_pixel_ok [OF assms(1)] in \<open>simp add: unchecked_draw_point_def paint_single\<close>)
  have "rfold (\<lambda>y. rfold (\<lambda>x. unchecked_draw_point (bm v) c x y) [px..px + w - 1]) [py..py + h - 1] m =
      Ok (paint (\<Union>y \<in> set [py..py + h - 1]. \<Union>x \<in> set [px..px + w - 1]. {pixel_addr (bm v) x y}) c m)"
    by (rule rfold_paint) (rule row)
  moreover have "(\<Union>y \<in> set [py..py + h - 1]. \<Union>x \<in> set [px..px + w - 1]. {pixel_addr (bm v) x y}) =
      {pixel_addr (bm v) x y | x y. px \<le> x \<and> x < px + w \<and> py \<le> y \<and> y < py + h}"
  proof -
    have iv: "set [a..b - 1] = {z. a \<le> z \<and> z < b}" for a b :: int by auto
    show ?thesis unfolding iv by blast
  qed
  ultimately show ?thesis using assms bx by (simp add: fill_rect_def add_i64_def sub_i64_def i64_result_def)
qed

lemma plot_ok:
  assumes "ok v" "is_in_x_range (bm v) x0" "is_in_x_range (bm v) x1" "is_in_y_range (bm v) y0" "is_in_y_range (bm v) y1"
    and "0 \<le> rx" "rx \<le> \<bar>x1 - x0\<bar>" "0 \<le> ry" "ry \<le> \<bar>y1 - y0\<bar>"
  shows "rbind (rbind (mul_i64 rx (sgn (x1 - x0))) (add_i64 x0)) (\<lambda>x.
      rbind (rbind (mul_i64 ry (sgn (y1 - y0))) (add_i64 y0)) (\<lambda>y. draw_point (bm v) c x y m)) =
    Ok (paint {pixel_addr (bm v) (x0 + rx * sgn (x1 - x0)) (y0 + ry * sgn (y1 - y0))} c m)"
proof -
  let ?x = "x0 + rx * sgn (x1 - x0)" let ?y = "y0 + ry * sgn (y1 - y0)"
  have r: "0 \<le> x0" "x0 < 2 ^ 31" "0 \<le> x1" "x1 < 2 ^ 31" "0 \<le> y0" "y0 < 2 ^ 31" "0 \<le> y1" "y1 < 2 ^ 31"
    using assms(2-5) extent [OF assms(1)] by (auto simp: is_in_x_range_def is_in_y_range_def)
  note bx = between [OF assms(6,7)] and bw = between [OF assms(8,9)]
  then have "inside (bm v) ?x ?y"
    using assms(2-5) by (auto simp: inside_def is_in_x_range_def is_in_y_range_def)
  moreover have "0 \<le> ?x" "?x < 2 ^ 31" "0 \<le> ?y" "?y < 2 ^ 31"
    using bx bw r by (auto simp: min_def max_def split: if_splits)
  then have "- (2 ^ 63) \<le> rx * sgn (x1 - x0)" "rx * sgn (x1 - x0) < 2 ^ 63" "- (2 ^ 63) \<le> ?x" "?x < 2 ^ 63"
    "- (2 ^ 63) \<le> ry * sgn (y1 - y0)" "ry * sgn (y1 - y0) < 2 ^ 63" "- (2 ^ 63) \<le> ?y" "?y < 2 ^ 63"
    using r by simp_all
  ultimately show ?thesis using draw_point_ok [OF assms(1), of c ?x ?y m]
    by (simp add: mul_i64_def add_i64_def i64_result_def)
qed

lemma line_step_ok:
  assumes "0 < da" "0 \<le> db" "db \<le> da" "0 \<le> ia" "ia < da" "da < 2 ^ 31"
    and "\<And>ib. 0 \<le> ib \<Longrightarrow> ib \<le> db \<Longrightarrow> plot ia ib m = Ok (paint (S ia ib) c m)"
  shows "line_step plot da db ia m = Ok (paint (S ia (slope da db ia)) c m)"
  using assms slope_bounds(1,2) [of da db ia] calc_slope_point_eq [of da db ia]
  by (simp add: line_step_def slope_def)

lemma draw_line_ok:
  assumes "ok v"
  shows "draw_line (bm v) c x0 y0 x1 y1 m =
    (if inside (bm v) x0 y0 \<and> inside (bm v) x1 y1
     then Ok (paint ((\<lambda>(x, y). pixel_addr (bm v) x y) ` line_points x0 y0 x1 y1) c m)
     else Err ''out of range'')"
proof (cases "inside (bm v) x0 y0 \<and> inside (bm v) x1 y1")
  case True
  then have r: "is_in_x_range (bm v) x0" "is_in_x_range (bm v) x1" "is_in_y_range (bm v) y0" "is_in_y_range (bm v) y1"
    by (simp_all add: inside_def)
  define dx dy sx sy where d: "dx = \<bar>x1 - x0\<bar>" "dy = \<bar>y1 - y0\<bar>" "sx = sgn (x1 - x0)" "sy = sgn (y1 - y0)"
  define plot where "plot = (\<lambda>rx ry m. rbind (rbind (mul_i64 rx sx) (add_i64 x0)) (\<lambda>x.
      rbind (rbind (mul_i64 ry sy) (add_i64 y0)) (\<lambda>y. draw_point (bm v) c x y m)))"
  define S where "S = (\<lambda>rx ry. {pixel_addr (bm v) (x0 + rx * sx) (y0 + ry * sy)})"
  have plot: "plot rx ry m = Ok (paint (S rx ry) c m)" if "0 \<le> rx" "rx \<le> dx" "0 \<le> ry" "ry \<le> dy" for rx ry m
    using plot_ok [OF assms r, of rx ry c m] that by (simp add: plot_def S_def d)
  have lim: "0 \<le> dx" "0 \<le> dy" "dx < 2 ^ 31" "dy < 2 ^ 31" "- (2 ^ 63) \<le> x1 - x0" "x1 - x0 < 2 ^ 63" "- (2 ^ 63) \<le> y1 - y0" "y1 - y0 < 2 ^ 63"
    using r extent [OF assms] by (auto simp: is_in_x_range_def is_in_y_range_def d)
  have line: "draw_line (bm v) c x0 y0 x1 y1 m =
      (if dx \<ge> dy then rfold (line_step plot dx dy) [0..dx - 1] m else rfold (line_step (\<lambda>ry rx. plot rx ry) dy dx) [0..dy - 1] m)"
    using r lim by (simp add: draw_line_def sub_i64_def i64_result_def Let_def plot_def d)
  show ?thesis
  proof (cases "dx \<ge> dy")
    case le: True
    have "rfold (line_step plot dx dy) [0..dx - 1] m = Ok (paint (\<Union>t \<in> set [0..dx - 1]. S t (slope dx dy t)) c m)"
      by (rule rfold_paint) (use le lim plot in \<open>auto intro!: line_step_ok\<close>)
    moreover have "(\<Union>t \<in> set [0..dx - 1]. S t (slope dx dy t)) = (\<lambda>(x, y). pixel_addr (bm v) x y) ` line_points x0 y0 x1 y1"
      using le by (auto simp: line_points_def Let_def S_def d [symmetric] image_image)
    ultimately show ?thesis using line le True by simp
  next
    case gt: False
    have "rfold (line_step (\<lambda>ry rx. plot rx ry) dy dx) [0..dy - 1] m = Ok (paint (\<Union>t \<in> set [0..dy - 1]. S (slope dy dx t) t) c m)"
      by (rule rfold_paint) (use gt lim plot in \<open>auto intro!: line_step_ok [of dy dx _ _ _ "\<lambda>ry rx. S rx ry"]\<close>)
    moreover have "(\<Union>t \<in> set [0..dy - 1]. S (slope dy dx t) t) = (\<lambda>(x, y). pixel_addr (bm v) x y) ` line_points x0 y0 x1 y1"
      using gt by (auto simp: line_points_def Let_def S_def d [symmetric] image_image)
    ultimately show ?thesis using line gt True by simp
  qed
qed (auto simp: draw_line_def inside_def)

lemma draw_glyph_ok:
  assumes "ok v" "glyph_ok g" "\<bar>x\<bar> \<le> 2 ^ 62" "\<bar>y\<bar> \<le> 2 ^ 62"
  shows "\<exists>S \<subseteq> box_cells (bm v) x y 8 16. draw_glyph (bm v) x y c g m = Ok (paint S c m)"
proof -
  define S where "S = (\<lambda>dy (dx, p). if p = CHR ''*'' \<and> inside (bm v) (x + int dx) (y + int dy)
      then {pixel_addr (bm v) (x + int dx) (y + int dy)} else {})"
  have pix: "(case q of (dx, p) \<Rightarrow> \<lambda>m. if p = CHR ''*''
      then rbind (add_i64 x (int dx)) (\<lambda>px. rbind (add_i64 y (int dy)) (\<lambda>py. ignore_err m (draw_point (bm v) c px py m)))
      else Ok m) m = Ok (paint (S dy q) c m)" if "q \<in> set (enumerate 0 row)" "length row = 8" "dy < 16" for q row dy m
  proof -
    obtain dx p where q: "q = (dx, p)" by (cases q)
    with that have "dx < 8" by (auto simp: in_set_enumerate_eq)
    with that(3) assms(3,4) show ?thesis
      by (auto simp: q S_def add_i64_def i64_result_def ignore_err_def draw_point_ok [OF assms(1)])
  qed
  define R where "R = (\<lambda>(dy, row). \<Union>q \<in> set (enumerate 0 row). S dy q)"
  have row: "(case r of (dy, row) \<Rightarrow> rfold (\<lambda>(dx, p) m. if p = CHR ''*''
      then rbind (add_i64 x (int dx)) (\<lambda>px. rbind (add_i64 y (int dy)) (\<lambda>py. ignore_err m (draw_point (bm v) c px py m)))
      else Ok m) (enumerate 0 row)) m = Ok (paint (R r) c m)" if "r \<in> set (enumerate 0 g)" for r m
  proof -
    obtain dy row where r: "r = (dy, row)" by (cases r)
    with that assms(2) have "dy < 16" "length row = 8" by (auto simp: in_set_enumerate_eq glyph_ok_def)
    then show ?thesis unfolding r R_def by (simp add: rfold_paint [OF pix])
  qed
  have "draw_glyph (bm v) x y c g m = Ok (paint (\<Union>r \<in> set (enumerate 0 g). R r) c m)"
    unfolding draw_glyph_def by (rule rfold_paint) (rule row)
  moreover have "(\<Union>r \<in> set (enumerate 0 g). R r) \<subseteq> box_cells (bm v) x y 8 16"
    using assms(2) by (fastforce simp: R_def S_def box_cells_def in_set_enumerate_eq glyph_ok_def split: if_splits)
  ultimately show ?thesis by blast
qed

lemma draw_font_ok:
  assumes "ok v" "\<bar>x\<bar> \<le> 2 ^ 62" "\<bar>y\<bar> \<le> 2 ^ 62"
  shows "\<exists>S \<subseteq> box_cells (bm v) x y 8 16. draw_font_fg source (bm v) x y c ch m = Ok (paint S c m)"
proof (cases "lookup_font source ch")
  case None
  then show ?thesis by (intro exI [of _ "{}"]) (simp add: draw_font_fg_def)
next
  case (Some g)
  with draw_glyph_ok [OF assms(1) lookup_font_ok [OF Some] assms(2,3)] show ?thesis by (simp add: draw_font_fg_def)
qed

lemma draw_str_ok:
  assumes "ok v" "\<bar>x\<bar> \<le> 2 ^ 61" "\<bar>y\<bar> \<le> 2 ^ 62" "length s \<le> 2 ^ 32"
  shows "\<exists>m'. draw_str_fg source (bm v) x y c s m = Ok m'"
proof -
  have "\<exists>m'. rbind (rbind (mul_i64 (int i) 8) (add_i64 x)) (\<lambda>px. draw_font_fg source (bm v) px y c ch m) = Ok m'"
    if "(i, ch) \<in> set (enumerate 0 s)" for i ch m
  proof -
    have i: "int i * 8 \<le> 2 ^ 35" using that assms(4) by (auto simp: in_set_enumerate_eq)
    have x: "- (2 ^ 61) \<le> x" "x \<le> 2 ^ 61" using assms(2) by linarith+
    then have "\<bar>x + int i * 8\<bar> \<le> 2 ^ 62" using i by simp
    from draw_font_ok [OF assms(1) this assms(3)] have "\<exists>m'. draw_font_fg source (bm v) (x + int i * 8) y c ch m = Ok m'" by blast
    with i x show ?thesis by (simp add: mul_i64_def add_i64_def i64_result_def)
  qed
  then show ?thesis unfolding draw_str_fg_def by (intro rfold_is_ok) auto
qed

end

section \<open>The frame buffer as a bitmap\<close>

definition vram_ok :: "VramBufferInfo \<Rightarrow> bool" where
  "vram_ok v \<longleftrightarrow> vram_pixels_per_line v < 2 ^ 31 \<and> vram_height v < 2 ^ 31 \<and>
     int (vram_buf v) + vram_height v * vram_pixels_per_line v * 4 < 2 ^ 63"

interpretation vram: bitmap vram_bitmap vram_ok
  by unfold_locales (auto simp: vram_bitmap_def vram_ok_def)

section \<open>Properties\<close>

definition example_vram :: VramBufferInfo where
  "example_vram = \<lparr>vram_buf = 0x80000000, vram_width = 640, vram_height = 480, vram_pixels_per_line = 640\<rparr>"

lemma example_vram_ok: "vram_ok example_vram"
  by (simp add: vram_ok_def example_vram_def)

text \<open>
  C27. \<open>fill_rect\<close> on a frame buffer succeeds exactly for a rectangle whose corners are inside
  (the coordinates not overflowing), and then every pixel of the rectangle has the colour
  and every other cell of memory, of the screen or not, is as before.
\<close>

theorem fill_rect_exact:
  assumes "vram_ok v" and "\<bar>px + w\<bar> < 2 ^ 63" and "\<bar>py + h\<bar> < 2 ^ 63"
  defines "b \<equiv> vram_bitmap v"
  shows "fill_rect b c px py w h m =
    (if inside b px py \<and> inside b (px + w - 1) (py + h - 1)
     then Ok (\<lambda>a. if \<exists>x y. px \<le> x \<and> x < px + w \<and> py \<le> y \<and> y < py + h \<and> a = pixel_addr b x y then c else m a)
     else Err ''out of range'')"
proof (cases "inside b px py \<and> inside b (px + w - 1) (py + h - 1)")
  case True
  then have "fill_rect b c px py w h m =
      Ok (paint {pixel_addr b x y | x y. px \<le> x \<and> x < px + w \<and> py \<le> y \<and> y < py + h} c m)"
    unfolding b_def by (intro vram.fill_rect_ok) (simp_all add: assms(1) inside_def)
  moreover have "paint {pixel_addr b x y | x y. px \<le> x \<and> x < px + w \<and> py \<le> y \<and> y < py + h} c m =
      (\<lambda>a. if \<exists>x y. px \<le> x \<and> x < px + w \<and> py \<le> y \<and> y < py + h \<and> a = pixel_addr b x y then c else m a)"
    unfolding paint_def mem_Collect_eq by (intro ext if_cong) blast+
  ultimately show ?thesis using True by simp
next
  case False
  have "b = vram_bitmap v" by (simp add: b_def)
  with False assms(2,3) show ?thesis
    by (auto simp: fill_rect_def inside_def add_i64_def sub_i64_def i64_result_def is_in_x_range_def is_in_y_range_def)
qed

theorem fill_rect_exact_witness:
  "\<exists>m'. fill_rect (vram_bitmap example_vram) 7 10 20 2 2 (\<lambda>_. 0) = Ok m' \<and>
     m' (0x80000000 + (21 * 640 + 11) * 4) = 7 \<and> m' (0x80000000 + (21 * 640 + 12) * 4) = 0"
proof -
  let ?b = "vram_bitmap example_vram"
  have pa: "pixel_addr ?b x y = 0x80000000 + nat ((y * 640 + x) * 4)" for x y
    by (simp add: pixel_addr_def vram_bitmap_def example_vram_def)
  have i: "inside ?b 10 20" "inside ?b 11 21"
    by (simp_all add: inside_def is_in_x_range_def is_in_y_range_def vram_bitmap_def example_vram_def)
  have "\<exists>x y. 10 \<le> x \<and> x < 12 \<and> 20 \<le> y \<and> y < 22 \<and> 0x80000000 + (21 * 640 + 11) * 4 = pixel_addr ?b x y"
    by (intro exI [of _ 11] exI [of _ 21]) (simp add: pa)
  moreover have "\<not> (\<exists>x y. 10 \<le> x \<and> x < 12 \<and> 20 \<le> y \<and> y < 22 \<and> 0x80000000 + (21 * 640 + 12) * 4 = pixel_addr ?b x y)"
    by (auto simp: pa)
  ultimately show ?thesis
    using fill_rect_exact [OF example_vram_ok, of 10 2 20 2 7 "\<lambda>_. 0"] i by auto
qed

lemma near_abs: "2 * p \<le> 2 * q + d \<Longrightarrow> 2 * q < 2 * p + d \<Longrightarrow> 2 * \<bar>p - q\<bar> \<le> (d :: int)"
  by arith

lemma slope_near:
  fixes da db t :: int
  assumes "0 \<le> db" "db \<le> da" "0 \<le> t" "t < da"
  shows "0 \<le> slope da db t" "slope da db t \<le> db" "2 * \<bar>slope da db t * da - db * t\<bar> \<le> da"
proof -
  note b = slope_bounds [of da db t, folded slope_def]
  show "0 \<le> slope da db t" "slope da db t \<le> db" using b(1,2) assms by simp_all
  have "2 * (slope da db t * da) \<le> 2 * (db * t) + da" "2 * (db * t) < 2 * (slope da db t * da) + da"
    using b(3,4) assms by (simp_all add: algebra_simps)
  then show "2 * \<bar>slope da db t * da - db * t\<bar> \<le> da" by (rule near_abs)
qed

lemma abs_step: "0 \<le> t \<Longrightarrow> t \<le> \<bar>e\<bar> \<Longrightarrow> \<bar>t * sgn e\<bar> = (t :: int)"
  by (cases e "0 :: int" rule: linorder_cases) (simp_all add: abs_mult)

text \<open>
  One step along the longer axis \<open>a\<close> and the point of the shorter axis \<open>b\<close> that goes with it.
\<close>

lemma line_point_facts:
  fixes a0 a1 b0 b1 t :: int
  assumes t: "0 \<le> t" "t < da" and d: "da = \<bar>a1 - a0\<bar>" "db = \<bar>b1 - b0\<bar>" "db \<le> da"
  defines "a \<equiv> a0 + t * sgn (a1 - a0)" and "b \<equiv> b0 + slope da db t * sgn (b1 - b0)"
  shows "min a0 a1 \<le> a \<and> a \<le> max a0 a1" "min b0 b1 \<le> b \<and> b \<le> max b0 b1" "a \<noteq> a1"
    "2 * \<bar>\<bar>b - b0\<bar> * da - db * \<bar>a - a0\<bar>\<bar> \<le> da"
proof -
  have s: "0 \<le> slope da db t" "slope da db t \<le> db" "2 * \<bar>slope da db t * da - db * t\<bar> \<le> da"
    using slope_near [of db da t] d t by simp_all
  show "min a0 a1 \<le> a \<and> a \<le> max a0 a1" unfolding a_def using between [of t a1 a0] t d(1) by simp
  show "min b0 b1 \<le> b \<and> b \<le> max b0 b1" unfolding b_def using between [of "slope da db t" b1 b0] s(1,2) d(2) by simp
  have aa: "\<bar>a - a0\<bar> = t" unfolding a_def using abs_step [of t "a1 - a0"] t d(1) by simp
  have bb: "\<bar>b - b0\<bar> = slope da db t" unfolding b_def using abs_step [of "slope da db t" "b1 - b0"] s(1,2) d(2) by simp
  show "a \<noteq> a1" using aa t(2) d(1) by auto
  show "2 * \<bar>\<bar>b - b0\<bar> * da - db * \<bar>a - a0\<bar>\<bar> \<le> da" unfolding aa bb by (rule s(3))
qed

lemma line_points_geometry:
  assumes "(x, y) \<in> line_points x0 y0 x1 y1"
  shows "min x0 x1 \<le> x \<and> x \<le> max x0 x1 \<and> min y0 y1 \<le> y \<and> y \<le> max y0 y1 \<and> (x, y) \<noteq> (x1, y1) \<and>
    2 * \<bar>\<bar>y - y0\<bar> * \<bar>x1 - x0\<bar> - \<bar>y1 - y0\<bar> * \<bar>x - x0\<bar>\<bar> \<le> max \<bar>x1 - x0\<bar> \<bar>y1 - y0\<bar>"
proof -
  define dx dy where d: "dx = \<bar>x1 - x0\<bar>" "dy = \<bar>y1 - y0\<bar>"
  show ?thesis
  proof (cases "dy \<le> dx")
    case True
    then obtain t where t: "0 \<le> t" "t < dx" and x: "x = x0 + t * sgn (x1 - x0)"
      and y: "y = y0 + slope dx dy t * sgn (y1 - y0)"
      using assms by (auto simp: line_points_def Let_def d [symmetric])
    note f = line_point_facts [OF t d True, folded x y]
    from f(4) have "2 * \<bar>\<bar>y - y0\<bar> * dx - dy * \<bar>x - x0\<bar>\<bar> \<le> max dx dy" by (rule max.coboundedI1)
    with f(1-3) show ?thesis unfolding d by blast
  next
    case False
    then obtain t where t: "0 \<le> t" "t < dy" and x: "x = x0 + slope dy dx t * sgn (x1 - x0)"
      and y: "y = y0 + t * sgn (y1 - y0)"
      using assms by (auto simp: line_points_def Let_def d [symmetric])
    from False have "dx \<le> dy" by simp
    note f = line_point_facts [OF t d(2,1) this, folded x y]
    have "\<bar>y - y0\<bar> * dx - dy * \<bar>x - x0\<bar> = - (\<bar>x - x0\<bar> * dy - dx * \<bar>y - y0\<bar>)" by (simp add: mult.commute)
    then have "\<bar>\<bar>y - y0\<bar> * dx - dy * \<bar>x - x0\<bar>\<bar> = \<bar>\<bar>x - x0\<bar> * dy - dx * \<bar>y - y0\<bar>\<bar>" by (simp only: abs_minus_cancel)
    then have "2 * \<bar>\<bar>y - y0\<bar> * dx - dy * \<bar>x - x0\<bar>\<bar> \<le> dy" using f(4) by (simp only:)
    then have "2 * \<bar>\<bar>y - y0\<bar> * dx - dy * \<bar>x - x0\<bar>\<bar> \<le> max dx dy" by (rule max.coboundedI2)
    with f(1-3) show ?thesis unfolding d by blast
  qed
qed

text \<open>
  C28. \<open>draw_line\<close> between two points of a frame buffer never panics and never stops half way:
  it is an error, with nothing drawn, exactly when an end point is outside; otherwise it
  colours exactly the cells of \<open>line_points\<close>. These all lie in the bounding box of the line, within
  half a pixel of the exact line along the shorter axis, and do not include the end point.
\<close>

theorem draw_line_exact:
  assumes "vram_ok v"
  defines "b \<equiv> vram_bitmap v"
  shows "draw_line b c x0 y0 x1 y1 m =
      (if inside b x0 y0 \<and> inside b x1 y1
       then Ok (\<lambda>a. if a \<in> (\<lambda>(x, y). pixel_addr b x y) ` line_points x0 y0 x1 y1 then c else m a)
       else Err ''out of range'') \<and>
    (\<forall>(x, y) \<in> line_points x0 y0 x1 y1.
       min x0 x1 \<le> x \<and> x \<le> max x0 x1 \<and> min y0 y1 \<le> y \<and> y \<le> max y0 y1 \<and> (x, y) \<noteq> (x1, y1) \<and>
       2 * \<bar>\<bar>y - y0\<bar> * \<bar>x1 - x0\<bar> - \<bar>y1 - y0\<bar> * \<bar>x - x0\<bar>\<bar> \<le> max \<bar>x1 - x0\<bar> \<bar>y1 - y0\<bar>)"
  using vram.draw_line_ok [OF assms(1)] line_points_geometry unfolding b_def paint_def by blast

theorem draw_line_exact_witness:
  "\<exists>m'. draw_line (vram_bitmap example_vram) 5 3 3 6 4 (\<lambda>_. 0) = Ok m' \<and>
     m' (0x80000000 + (3 * 640 + 3) * 4) = 5 \<and> m' (0x80000000 + (4 * 640 + 5) * 4) = 5 \<and> m' (0x80000000 + (4 * 640 + 6) * 4) = 0"
proof -
  let ?b = "vram_bitmap example_vram"
  have pa: "pixel_addr ?b x y = 0x80000000 + nat ((y * 640 + x) * 4)" for x y
    by (simp add: pixel_addr_def vram_bitmap_def example_vram_def)
  have i: "inside ?b 3 3" "inside ?b 6 4"
    by (simp_all add: inside_def is_in_x_range_def is_in_y_range_def vram_bitmap_def example_vram_def)
  have "{0..<3::int} = {0, 1, 2}" by auto
  then have "line_points 3 3 6 4 = {(3, 3), (4, 3), (5, 4)}" by (simp add: line_points_def Let_def slope_def)
  then show ?thesis using draw_line_exact [OF example_vram_ok, of 5 3 3 6 4 "\<lambda>_. 0"] i by (simp add: pa)
qed

lemma add_mul_i64_simps [simp]:
  "- (2 ^ 63) \<le> a + b \<Longrightarrow> a + b < 2 ^ 63 \<Longrightarrow> add_i64 a b = Ok (a + b)"
  "- (2 ^ 63) \<le> a - b \<Longrightarrow> a - b < 2 ^ 63 \<Longrightarrow> sub_i64 a b = Ok (a - b)"
  by (simp_all add: add_i64_def sub_i64_def i64_result_def)

lemma fill_rect_inside:
  assumes "vram_ok v" "inside (vram_bitmap v) px py" "inside (vram_bitmap v) (px + w - 1) (py + h - 1)"
  shows "\<exists>m'. fill_rect (vram_bitmap v) c px py w h m = Ok m'"
  using vram.fill_rect_ok [OF assms(1)] assms(2,3) by (auto simp: inside_def)

text \<open>
  On a frame buffer of at least 129 by 256 pixels, whose lines in memory are not shorter than the visible width,
  \<open>init_display\<close> returns: neither clearing the screen nor the test pattern panics, whatever the font file holds.
\<close>

lemma init_display_returns:
  assumes "vram_ok v" and "129 \<le> vram_width v" and "vram_width v \<le> vram_pixels_per_line v" and "256 \<le> vram_height v"
  shows "\<exists>m'. init_display source v m = Ok m'"
proof -
  let ?b = "vram_bitmap v" let ?left = "vram_width v - 129"
  have lim: "vram_width v < 2 ^ 31" "vram_height v < 2 ^ 31" using assms by (simp_all add: vram_ok_def)
  have ins: "inside ?b x y \<longleftrightarrow> 0 \<le> x \<and> x < vram_width v \<and> 0 \<le> y \<and> y < vram_height v" for x y
    using assms(3) by (auto simp: inside_def is_in_x_range_def is_in_y_range_def vram_bitmap_def)
  obtain m0 where m0: "fill_rect ?b 0 0 0 (vram_width v) (vram_height v) m = Ok m0"
    using fill_rect_inside [OF assms(1), of 0 0 "vram_width v" "vram_height v" 0 m] assms by (auto simp: ins)
  have "\<exists>m'. test_pattern_rects v ?left m = Ok m'" for m
    unfolding test_pattern_rects_def
  proof (rule rfold_is_ok, clarify)
    fix i c m assume "(i, c) \<in> set (enumerate 0 [0x000000, 0xFF0000, 0x00FF00, 0x0000FF :: u32])"
    then have i: "int i * 64 + 63 < vram_height v" using assms(4) by auto
    obtain m1 where m1: "fill_rect ?b c ?left (int i * 64) 64 64 m = Ok m1"
      using fill_rect_inside [OF assms(1), of ?left "int i * 64" 64 64 c m] assms i by (auto simp: ins)
    obtain m2 where "fill_rect ?b (NOT c) (?left + 64) (int i * 64) 64 64 m1 = Ok m2"
      using fill_rect_inside [OF assms(1), of "?left + 64" "int i * 64" 64 64 "NOT c" m1] assms i by (auto simp: ins)
    with m1 lim assms(2) show "\<exists>m'. rbind (unwrap (fill_rect ?b c ?left (int i * 64) 64 64 m)) (\<lambda>m'.
       rbind (add_i64 ?left 64) (\<lambda>left'. unwrap (fill_rect ?b (NOT c) left' (int i * 64) 64 64 m'))) = Ok m'" by simp
  qed
  then obtain m1 where m1: "test_pattern_rects v ?left m0 = Ok m1" by blast
  have "\<exists>m'. test_pattern_lines v ?left m = Ok m'" for m
    unfolding test_pattern_lines_def
  proof (rule rfold_is_ok, clarify, rule rfold_is_ok, clarify)
    fix x0 y0 x1 y1 m assume "(x0, y0) \<in> set test_pattern_points" "(x1, y1) \<in> set test_pattern_points"
    then have "0 \<le> x0" "x0 \<le> 128" "0 \<le> x1" "x1 \<le> 128" by (auto simp: test_pattern_points_def)
    then show "\<exists>m'. rbind (add_i64 ?left x0) (\<lambda>ax. rbind (add_i64 ?left x1) (\<lambda>bx.
         ignore_err m (draw_line ?b 0xFFFFFF ax y0 bx y1 m))) = Ok m'"
      using lim assms(2) vram.draw_line_ok [OF assms(1)] by (simp add: ignore_err_def)
  qed
  then obtain m2 where m2: "test_pattern_lines v ?left m1 = Ok m2" by blast
  obtain m3 where m3: "draw_str_fg source ?b ?left 256 0x00FF00 [48..<58] m2 = Ok m3"
    using vram.draw_str_ok [OF assms(1), of ?left 256 "[48..<58]" source "0x00FF00" m2] lim assms(2) by auto
  obtain m4 where m4: "draw_str_fg source ?b ?left 272 0x00FF00 [65..<71] m3 = Ok m4"
    using vram.draw_str_ok [OF assms(1), of ?left 272 "[65..<71]" source "0x00FF00" m3] lim assms(2) by auto
  have "sub_i64 (vram_width v) 128 = Ok (vram_width v - 128)" "sub_i64 (vram_width v - 128) 1 = Ok ?left"
    using lim assms(2) by simp_all
  then show ?thesis using m0 m1 m2 m3 m4 by (simp add: init_display_def draw_test_pattern_def del: upt_rec_numeral)
qed

end
