(* ===== verification/Mutex.thy ===== *)
theory Mutex
  imports Prelude
begin

text \<open>
  \<open>mutex.rs\<close>: the spin lock with a bounded number of attempts, its guard and
  \<open>under_locked\<close>. The atomic flag is \<open>is_taken\<close>; each attempt and each drop of a guard is one
  atomic step. The step relation at the end lets several users of one mutex interleave.
\<close>

record 'a Mutex =
  mutex_data :: 'a
  is_taken :: bool

definition Mutex_new :: "'a \<Rightarrow> 'a Mutex" where
  "Mutex_new d = \<lparr>mutex_data = d, is_taken = False\<rparr>"

text \<open>\<open>compare_exchange(false, true)\<close>; the guard is the right to use the data.\<close>

definition try_lock :: "'a Mutex \<Rightarrow> unit result \<times> 'a Mutex" where
  "try_lock m = (if \<not> is_taken m then (Ok (), m\<lparr>is_taken := True\<rparr>) else (Err ''Lock faiilsd'', m))"

definition guard_drop :: "'a Mutex \<Rightarrow> 'a Mutex" where
  "guard_drop m = m\<lparr>is_taken := False\<rparr>"

text \<open>The attempts of \<open>lock\<close>, with nobody else running in between.\<close>

fun lock_attempts :: "nat \<Rightarrow> 'a Mutex \<Rightarrow> unit result \<times> 'a Mutex" where
  "lock_attempts 0 m = (Panic ''Failed to lock mutecx'', m)"
| "lock_attempts (Suc n) m =
     (case try_lock m of (Ok g, m') \<Rightarrow> (Ok g, m') | (_, m') \<Rightarrow> lock_attempts n m')"

definition lock :: "'a Mutex \<Rightarrow> unit result \<times> 'a Mutex" where
  "lock m = lock_attempts 10000 m"

definition under_locked :: "('a \<Rightarrow> 'r result \<times> 'a) \<Rightarrow> 'a Mutex \<Rightarrow> 'r result \<times> 'a Mutex" where
  "under_locked f m =
     (case lock m of
        (Err e, m') \<Rightarrow> (Err e, m')
      | (Panic e, m') \<Rightarrow> (Panic e, m')
      | (Ok _, m') \<Rightarrow>
          (case f (mutex_data m') of (r, d) \<Rightarrow>
             (r, (case r of Panic _ \<Rightarrow> m'\<lparr>mutex_data := d\<rparr> | _ \<Rightarrow> guard_drop (m'\<lparr>mutex_data := d\<rparr>)))))"

lemma lock_attempts_taken: "is_taken m \<Longrightarrow> lock_attempts n m = (Panic ''Failed to lock mutecx'', m)"
  by (induction n) (simp_all add: try_lock_def)

lemma lock_attempts_free: "\<not> is_taken m \<Longrightarrow> 0 < n \<Longrightarrow> lock_attempts n m = (Ok (), m\<lparr>is_taken := True\<rparr>)"
  by (cases n) (simp_all add: try_lock_def)

lemma lock_eq: "lock m = (if is_taken m then (Panic ''Failed to lock mutecx'', m) else (Ok (), m\<lparr>is_taken := True\<rparr>))"
  by (simp add: lock_def lock_attempts_taken lock_attempts_free)

section \<open>Interleaved users\<close>

text \<open>
  The users of a mutex are numbered; \<open>guards\<close> are those that hold a guard. A user may try to
  take the lock at any time, one that holds a guard may change the data or drop the guard.
\<close>

record 'a MutexSystem =
  mutex :: "'a Mutex"
  guards :: "nat list"

inductive mutex_step :: "'a MutexSystem \<Rightarrow> 'a MutexSystem \<Rightarrow> bool" where
  take: "try_lock (mutex s) = (Ok (), m) \<Longrightarrow> mutex_step s (s\<lparr>mutex := m, guards := i # guards s\<rparr>)"
| fail: "try_lock (mutex s) = (Err e, m) \<Longrightarrow> mutex_step s (s\<lparr>mutex := m\<rparr>)"
| use: "i \<in> set (guards s) \<Longrightarrow> mutex_step s (s\<lparr>mutex := (mutex s)\<lparr>mutex_data := d\<rparr>\<rparr>)"
| drop: "i \<in> set (guards s) \<Longrightarrow> mutex_step s (s\<lparr>mutex := guard_drop (mutex s), guards := remove1 i (guards s)\<rparr>)"

inductive_cases mutex_stepE: "mutex_step s s'"

inductive mutex_reachable :: "'a \<Rightarrow> 'a MutexSystem \<Rightarrow> bool" for d where
  new: "mutex_reachable d \<lparr>mutex = Mutex_new d, guards = []\<rparr>"
| step: "mutex_reachable d s \<Longrightarrow> mutex_step s s' \<Longrightarrow> mutex_reachable d s'"

lemma mutex_inv_step:
  assumes "length (guards s) = (if is_taken (mutex s) then 1 else 0)" and "mutex_step s s'"
  shows "length (guards s') = (if is_taken (mutex s') then 1 else 0)"
  using assms(2,1)
  by (elim mutex_stepE) (auto simp: try_lock_def guard_drop_def length_remove1 split: if_splits)

section \<open>Properties\<close>

text \<open>
  C29. However the users of a mutex interleave their attempts, uses and drops, at most one of
  them holds a guard, and the flag is set exactly while one does; so the user that can reach
  the data is the only one.
\<close>

theorem mutex_exclusion:
  assumes "mutex_reachable d s"
  shows "length (guards s) \<le> 1 \<and> (is_taken (mutex s) \<longleftrightarrow> guards s \<noteq> []) \<and>
    (\<forall>i \<in> set (guards s). guards s = [i])"
proof -
  have len: "length (guards s) = (if is_taken (mutex s) then 1 else 0)"
    using assms by (induction rule: mutex_reachable.induct) (auto simp: Mutex_new_def dest: mutex_inv_step)
  then show ?thesis by (cases "guards s") (auto split: if_splits)
qed

theorem mutex_exclusion_witness:
  "\<exists>s. mutex_reachable (5 :: nat) s \<and> guards s = [3] \<and> is_taken (mutex s) \<and> length (guards s) \<le> 1"
proof -
  let ?s = "\<lparr>mutex = \<lparr>mutex_data = 5 :: nat, is_taken = True\<rparr>, guards = [3]\<rparr>"
  have "mutex_step \<lparr>mutex = Mutex_new (5 :: nat), guards = []\<rparr> ?s"
    using mutex_step.take [of "\<lparr>mutex = Mutex_new (5 :: nat), guards = []\<rparr>" _ 3] by (simp add: try_lock_def Mutex_new_def)
  with mutex_reachable.new [of 5] have r: "mutex_reachable 5 ?s" by (rule mutex_reachable.step)
  show ?thesis
  proof (intro exI conjI)
    show "length (guards ?s) \<le> 1" using mutex_exclusion [OF r] by (rule conjunct1)
  qed (simp_all add: r)
qed

text \<open>
  With nobody else running, \<open>under_locked\<close> on a free mutex runs the function once on the
  data, returns what it returns and leaves the mutex free, on \<open>Ok\<close> and on \<open>Err\<close>; on a
  mutex that is already taken, as by a nested call, it panics and changes nothing.
\<close>

theorem under_locked_spec:
  "under_locked f m =
    (if is_taken m then (Panic ''Failed to lock mutecx'', m)
     else (fst (f (mutex_data m)), m\<lparr>mutex_data := snd (f (mutex_data m)), is_taken := is_panic (fst (f (mutex_data m)))\<rparr>))"
proof (cases "f (mutex_data m)")
  case (Pair r d)
  then show ?thesis by (cases r) (simp_all add: under_locked_def lock_eq guard_drop_def)
qed

end
