(* ===== verification/Console.thy ===== *)
theory Console
  imports Serial Format Graphics Mutex
begin

text \<open>
  \<open>print.rs\<close>: the global console, which prints on the serial port and then, under its mutex, with the
  text writer of the screen; and \<open>hexdump\<close>. A formatted message reaches \<open>global_print\<close> as the pieces
  that \<open>fmt::write\<close> hands to the writers one after the other.
\<close>

section \<open>The console\<close>

record 'p Console =
  io :: "'p Io"
  GLOBAL_VRAM_WRITER :: "BitmapTextWriter option Mutex"
  screen :: pixels

text \<open>A message on the serial port; \<open>None\<close> when the port never gets ready.\<close>

primrec serial_pieces :: "'p IoDevice \<Rightarrow> nat list list \<Rightarrow> 'p Io \<Rightarrow> 'p Io option" where
  "serial_pieces D [] s = Some s"
| "serial_pieces D (p # ps) s = Option.bind (serial_write_str D p s) (serial_pieces D ps)"

definition set_global_vram :: "VramBufferInfo \<Rightarrow> 'p Console \<Rightarrow> unit result \<times> 'p Console" where
  "set_global_vram vram s =
     (case lock (GLOBAL_VRAM_WRITER s) of
        (Err e, m) \<Rightarrow> (Err e, s\<lparr>GLOBAL_VRAM_WRITER := m\<rparr>)
      | (Panic e, m) \<Rightarrow> (Panic e, s\<lparr>GLOBAL_VRAM_WRITER := m\<rparr>)
      | (Ok _, m) \<Rightarrow>
          (if mutex_data m \<noteq> None then (Panic ''assertion failed: GLOBAL_VRAM_WRITER.lock().is_none()'', s\<lparr>GLOBAL_VRAM_WRITER := m\<rparr>)
           else (case lock (guard_drop m) of
               (Err e, m) \<Rightarrow> (Err e, s\<lparr>GLOBAL_VRAM_WRITER := m\<rparr>)
             | (Panic e, m) \<Rightarrow> (Panic e, s\<lparr>GLOBAL_VRAM_WRITER := m\<rparr>)
             | (Ok _, m) \<Rightarrow>
                 (Ok (), s\<lparr>GLOBAL_VRAM_WRITER := guard_drop (m\<lparr>mutex_data := Some (BitmapTextWriter_new (vram_bitmap vram))\<rparr>)\<rparr>))))"

definition global_print :: "'p IoDevice \<Rightarrow> string \<Rightarrow> nat list list \<Rightarrow> 'p Console \<Rightarrow> (unit result \<times> 'p Console) option" where
  "global_print D font ps s =
     Option.bind (serial_pieces D ps (io s)) (\<lambda>i.
       let s = s\<lparr>io := i\<rparr> in
       Some (case lock (GLOBAL_VRAM_WRITER s) of
           (Err e, m) \<Rightarrow> (Err e, s\<lparr>GLOBAL_VRAM_WRITER := m\<rparr>)
         | (Panic e, m) \<Rightarrow> (Panic e, s\<lparr>GLOBAL_VRAM_WRITER := m\<rparr>)
         | (Ok _, m) \<Rightarrow>
             (case mutex_data m of
                None \<Rightarrow> (Ok (), s\<lparr>GLOBAL_VRAM_WRITER := guard_drop m\<rparr>)
              | Some w \<Rightarrow>
                  (case rfold (write_str font) ps (w, screen s) of
                     Ok (w', px) \<Rightarrow> (Ok (), s\<lparr>GLOBAL_VRAM_WRITER := guard_drop (m\<lparr>mutex_data := Some w'\<rparr>), screen := px\<rparr>)
                   | Err e \<Rightarrow> (Panic ''Failed to write to global VRAM writer'', s\<lparr>GLOBAL_VRAM_WRITER := m\<rparr>)
                   | Panic e \<Rightarrow> (Panic e, s\<lparr>GLOBAL_VRAM_WRITER := m\<rparr>)))))"

section \<open>Hexdump\<close>

record Dump =
  dump_i :: usize
  dump_ascii :: "u8 list"
  dump_offset :: int
  dump_out :: string

definition full_line_char :: "u8 \<Rightarrow> char" where
  "full_line_char c = (if 0x20 \<le> c \<and> c \<le> 0x7E then char_of (unat c) else CHR ''.'')"

definition last_line_char :: "u8 \<Rightarrow> char" where
  "last_line_char c = (if 0x20 \<le> c \<and> c \<le> 0x7F then char_of (unat c) else CHR ''.'')"

text \<open>The body of the loop; the offset is an \<open>i32\<close>.\<close>

definition dump_byte :: "u8 \<Rightarrow> Dump \<Rightarrow> Dump result" where
  "dump_byte v st =
     (let out = dump_out st @ (if dump_i st = 0 then fmt_hex 8 (nat (dump_offset st)) @ '':  '' else []) @ fmt_hex 2 (unat v) @ '' '';
          ascii = (dump_ascii st)[dump_i st := v]; i = dump_i st + 1 in
      if i = 16
      then if dump_offset st + 16 < 2 ^ 31
           then Ok \<lparr>dump_i = 0, dump_ascii = ascii, dump_offset = dump_offset st + 16,
                    dump_out = out @ '' | '' @ map full_line_char ascii @ ''|'' @ [newline]\<rparr>
           else Panic ''add overflow''
      else Ok \<lparr>dump_i = i, dump_ascii = ascii, dump_offset = dump_offset st, dump_out = out\<rparr>)"

definition hexdump_bytes :: "u8 list \<Rightarrow> string result" where
  "hexdump_bytes bytes =
     rbind (rfold dump_byte bytes \<lparr>dump_i = 0, dump_ascii = replicate 16 0, dump_offset = 0, dump_out = []\<rparr>) (\<lambda>st.
       Ok (if dump_i st \<noteq> 0
           then dump_out st @ concat (replicate (16 - dump_i st) ''   '') @ ''|'' @
                map last_line_char (take (dump_i st) (dump_ascii st)) @ ''|'' @ [newline]
           else dump_out st))"

section \<open>What a dump looks like\<close>

text \<open>The layout of a line, for sixteen bytes and for fewer.\<close>

definition hex_columns :: "u8 list \<Rightarrow> string" where
  "hex_columns bs = concat (map (\<lambda>v. fmt_hex 2 (unat v) @ '' '') bs)"

definition full_line :: "nat \<Rightarrow> u8 list \<Rightarrow> string" where
  "full_line ofs bs = fmt_hex 8 ofs @ '':  '' @ hex_columns bs @ '' | '' @ map full_line_char bs @ ''|'' @ [newline]"

definition last_line :: "nat \<Rightarrow> u8 list \<Rightarrow> string" where
  "last_line ofs bs = fmt_hex 8 ofs @ '':  '' @ hex_columns bs @ concat (replicate (16 - length bs) ''   '') @
     ''|'' @ map last_line_char bs @ ''|'' @ [newline]"

fun dump_lines :: "nat \<Rightarrow> u8 list \<Rightarrow> string" where
  "dump_lines ofs bs =
     (if bs = [] then []
      else if length bs < 16 then last_line ofs bs
      else full_line ofs (take 16 bs) @ dump_lines (ofs + 16) (drop 16 bs))"

declare dump_lines.simps [simp del]

lemma hex_columns_simps [simp]:
  "hex_columns [] = []"
  "hex_columns (bs @ [v]) = hex_columns bs @ fmt_hex 2 (unat v) @ '' ''"
  by (simp_all add: hex_columns_def)

text \<open>Fewer than sixteen bytes only fill the columns.\<close>

lemma dump_partial:
  assumes "length bs < 16" and "length asc = 16"
  shows "rfold dump_byte bs \<lparr>dump_i = 0, dump_ascii = asc, dump_offset = ofs, dump_out = out\<rparr> =
    Ok \<lparr>dump_i = length bs, dump_ascii = bs @ drop (length bs) asc, dump_offset = ofs,
        dump_out = out @ (if bs = [] then [] else fmt_hex 8 (nat ofs) @ '':  '' @ hex_columns bs)\<rparr>"
  using assms(1)
proof (induction bs rule: rev_induct)
  case (snoc v bs)
  have "(bs @ drop (length bs) asc)[length bs := v] = (bs @ [v]) @ drop (Suc (length bs)) asc"
    using snoc.prems assms(2) by (simp add: list_update_append Cons_nth_drop_Suc [symmetric])
  with snoc assms(2) show ?case by (auto simp: rfold_append dump_byte_def Let_def)
qed simp

lemma dump_line:
  assumes "length bs = 16" and "length asc = 16" and "0 \<le> ofs" and "ofs + 16 < 2 ^ 31"
  shows "rfold dump_byte bs \<lparr>dump_i = 0, dump_ascii = asc, dump_offset = ofs, dump_out = out\<rparr> =
    Ok \<lparr>dump_i = 0, dump_ascii = bs, dump_offset = ofs + 16, dump_out = out @ full_line (nat ofs) bs\<rparr>"
proof -
  obtain cs v where bs: "bs = cs @ [v]" "length cs = 15" using assms(1) by (cases bs rule: rev_cases) auto
  obtain ds d where asc: "asc = ds @ [d]" "length ds = 15" using assms(2) by (cases asc rule: rev_cases) auto
  then have "(cs @ drop 15 asc)[15 := v] = cs @ [v]" using bs(2) by (simp add: list_update_append)
  with dump_partial [of cs asc ofs out] bs assms show ?thesis
    by (auto simp: rfold_append dump_byte_def Let_def full_line_def)
qed

lemma dump_rest:
  assumes "length asc = 16" and "ofs + length bs < 2 ^ 31"
  shows "rbind (rfold dump_byte bs \<lparr>dump_i = 0, dump_ascii = asc, dump_offset = int ofs, dump_out = out\<rparr>) (\<lambda>st.
       Ok (if dump_i st \<noteq> 0
           then dump_out st @ concat (replicate (16 - dump_i st) ''   '') @ ''|'' @
                map last_line_char (take (dump_i st) (dump_ascii st)) @ ''|'' @ [newline]
           else dump_out st)) = Ok (out @ dump_lines ofs bs)"
  using assms
proof (induction ofs bs arbitrary: asc out rule: dump_lines.induct)
  case (1 ofs bs)
  show ?case
  proof (cases "length bs < 16")
    case True
    with dump_partial [OF True "1.prems"(1), of "int ofs" out] show ?thesis
      by (subst dump_lines.simps) (simp add: last_line_def)
  next
    case False
    have l: "length (take 16 bs) = 16" using False by simp
    have s: "rfold dump_byte bs st = rbind (rfold dump_byte (take 16 bs) st) (rfold dump_byte (drop 16 bs))" for st
      by (simp flip: rfold_append)
    have "bs \<noteq> []" using False by auto
    have line: "rfold dump_byte (take 16 bs) \<lparr>dump_i = 0, dump_ascii = asc, dump_offset = int ofs, dump_out = out\<rparr> =
        Ok \<lparr>dump_i = 0, dump_ascii = take 16 bs, dump_offset = int (ofs + 16), dump_out = out @ full_line ofs (take 16 bs)\<rparr>"
      using dump_line [OF l "1.prems"(1), of "int ofs" out] "1.prems"(2) False by (simp add: add.commute)
    show ?thesis
      using "1.IH" [OF \<open>bs \<noteq> []\<close> False l, of "out @ full_line ofs (take 16 bs)"] "1.prems"(2) False \<open>bs \<noteq> []\<close>
      unfolding s line by (subst dump_lines.simps) simp
  qed
qed

text \<open>
  C25. A dump of fewer than \<open>2 ^ 31\<close> bytes is the sequence of its lines: each group of sixteen
  bytes with its offset, its columns and its characters, then the rest, padded.
\<close>

theorem hexdump_lines:
  assumes "length bytes < 2 ^ 31"
  shows "hexdump_bytes bytes = Ok (dump_lines 0 bytes)"
  using dump_rest [of "replicate 16 0" 0 bytes "[]"] assms by (simp add: hexdump_bytes_def)

theorem hexdump_lines_witness:
  "hexdump_bytes (replicate 17 65) = Ok (full_line 0 (replicate 16 65) @ last_line 16 [65])"
proof -
  have "dump_lines 0 (replicate 17 65) = full_line 0 (replicate 16 65) @ last_line 16 [65]"
    by (simp add: dump_lines.simps [of 0] dump_lines.simps [of 16])
  with hexdump_lines [of "replicate 17 65"] show ?thesis by simp
qed

section \<open>Where a message goes\<close>

text \<open>The cursor after a character, and the cells of a text that starts at the cursor.\<close>

definition advance :: "nat \<Rightarrow> i64 \<times> i64 \<Rightarrow> i64 \<times> i64" where
  "advance c = (\<lambda>(x, y). if c = 10 then (0, y + 16) else (x + 8, y))"

primrec text_cells :: "i64 \<times> i64 \<Rightarrow> nat list \<Rightarrow> (i64 \<times> i64) list" where
  "text_cells p [] = []"
| "text_cells p (c # cs) = (if c = 10 then [] else [p]) @ text_cells (advance c p) cs"

lemma text_cells_append: "text_cells p (cs @ ds) = text_cells p cs @ text_cells (fold advance cs p) ds"
  by (induction cs arbitrary: p) auto

definition cursor :: "BitmapTextWriter \<Rightarrow> i64 \<times> i64" where
  "cursor w = (cursor_x w, cursor_y w)"

text \<open>Room for \<open>n\<close> more characters before a coordinate overflows.\<close>

definition cursor_room :: "nat \<Rightarrow> i64 \<times> i64 \<Rightarrow> bool" where
  "cursor_room n = (\<lambda>(x, y). 0 \<le> x \<and> x + 8 * int n \<le> 2 ^ 62 \<and> 0 \<le> y \<and> y + 16 * int n \<le> 2 ^ 62)"

lemma cursor_room_advance: "cursor_room (Suc n) p \<Longrightarrow> cursor_room n (advance c p)"
  by (auto simp: cursor_room_def advance_def split: if_splits)

definition in_cells :: "VramBufferInfo \<Rightarrow> usize \<Rightarrow> (i64 \<times> i64) list \<Rightarrow> bool" where
  "in_cells v a cells \<longleftrightarrow> list_ex (\<lambda>(x, y). a \<in> box_cells (vram_bitmap v) x y 8 16) cells"

lemma in_cells_simps [simp]:
  "in_cells v a (cs @ ds) \<longleftrightarrow> in_cells v a cs \<or> in_cells v a ds"
  "in_cells v a [p] \<longleftrightarrow> a \<in> box_cells (vram_bitmap v) (fst p) (snd p) 8 16"
  by (simp_all add: in_cells_def case_prod_beta)

text \<open>What drawing a text changes: the cursor, and white pixels inside the cells.\<close>

definition draws :: "VramBufferInfo \<Rightarrow> nat list \<Rightarrow> BitmapTextWriter \<times> pixels \<Rightarrow> BitmapTextWriter \<times> pixels \<Rightarrow> bool" where
  "draws v cs = (\<lambda>(w, m) (w', m'). tw_buf w' = tw_buf w \<and> cursor w' = fold advance cs (cursor w) \<and>
     (\<forall>a. m' a = m a \<or> m' a = 0xFFFFFF \<and> in_cells v a (text_cells (cursor w) cs)))"

lemma draws_trans: "draws v cs s s1 \<Longrightarrow> draws v ds s1 s2 \<Longrightarrow> draws v (cs @ ds) s s2"
  unfolding draws_def by (cases s; cases s1; cases s2; simp add: text_cells_append; metis)

lemma write_char_draws:
  assumes "vram_ok v" and "tw_buf w = vram_bitmap v" and "cursor_room (Suc n) (cursor w)"
  shows "\<exists>s'. write_char font c (w, m) = Ok s' \<and> draws v [c] (w, m) s'"
proof (cases "c = 10")
  case True
  with assms(3) show ?thesis
    by (simp add: write_char_def add_i64_def i64_result_def cursor_room_def cursor_def draws_def advance_def)
next
  case False
  from assms(3) have b: "\<bar>cursor_x w\<bar> \<le> 2 ^ 62" "\<bar>cursor_y w\<bar> \<le> 2 ^ 62" "0 \<le> cursor_x w" "cursor_x w + 8 < 2 ^ 63"
    by (auto simp: cursor_room_def cursor_def)
  from vram.draw_font_ok [OF assms(1) b(1,2), of font "0xFFFFFF" c m] obtain S where
    S: "S \<subseteq> box_cells (vram_bitmap v) (cursor_x w) (cursor_y w) 8 16"
      "draw_font_fg font (vram_bitmap v) (cursor_x w) (cursor_y w) 0xFFFFFF c m = Ok (paint S 0xFFFFFF m)" by blast
  then show ?thesis using False b assms(2)
    by (auto simp: write_char_def add_i64_def i64_result_def cursor_def draws_def advance_def paint_def)
qed

lemma write_str_draws:
  "vram_ok v \<Longrightarrow> tw_buf w = vram_bitmap v \<Longrightarrow> cursor_room (length cs + n) (cursor w) \<Longrightarrow>
   \<exists>s'. write_str font cs (w, m) = Ok s' \<and> draws v cs (w, m) s'"
proof (induction cs arbitrary: w m)
  case Nil
  then show ?case by (simp add: write_str_def draws_def)
next
  case (Cons c cs)
  from write_char_draws [OF Cons.prems(1,2), of "length cs + n" font c m] Cons.prems(3) obtain w1 m1 where
    1: "write_char font c (w, m) = Ok (w1, m1)" "draws v [c] (w, m) (w1, m1)" by auto
  have "cursor_room (length cs + n) (cursor w1)" "tw_buf w1 = vram_bitmap v"
    using 1(2) Cons.prems(2,3) cursor_room_advance [of "length cs + n" "cursor w" c] by (auto simp: draws_def)
  from Cons.IH [OF Cons.prems(1) this(2,1), of m1] obtain s' where "write_str font cs (w1, m1) = Ok s'" "draws v cs (w1, m1) s'" by blast
  with 1 draws_trans [OF 1(2), of cs s'] show ?case by (simp add: write_str_def)
qed

lemma cursor_room_fold: "cursor_room (length cs + n) p \<Longrightarrow> cursor_room n (fold advance cs p)"
  by (induction cs arbitrary: p) (simp_all add: cursor_room_advance)

lemma pieces_draw:
  "vram_ok v \<Longrightarrow> tw_buf w = vram_bitmap v \<Longrightarrow> cursor_room (length (concat ps)) (cursor w) \<Longrightarrow>
   \<exists>s'. rfold (write_str font) ps (w, m) = Ok s' \<and> draws v (concat ps) (w, m) s'"
proof (induction ps arbitrary: w m)
  case Nil
  then show ?case by (simp add: draws_def)
next
  case (Cons p ps)
  from write_str_draws [OF Cons.prems(1,2), of p "length (concat ps)" font m] Cons.prems(3) obtain w1 m1 where
    1: "write_str font p (w, m) = Ok (w1, m1)" "draws v p (w, m) (w1, m1)" by auto
  have "cursor_room (length (concat ps)) (cursor w1)" "tw_buf w1 = vram_bitmap v"
    using 1(2) Cons.prems(2,3) cursor_room_fold [of p "length (concat ps)" "cursor w"] by (auto simp: draws_def)
  from Cons.IH [OF Cons.prems(1) this(2,1), of m1] obtain s' where
    "rfold (write_str font) ps (w1, m1) = Ok s'" "draws v (concat ps) (w1, m1) s'" by blast
  with 1 draws_trans [OF 1(2), of "concat ps" s'] show ?case by simp
qed

lemma polled_append: "polled base bs as \<Longrightarrow> polled base cs xs \<Longrightarrow> polled base (bs @ cs) (as @ xs)"
proof (induction base bs as rule: polled.induct)
  case (2 base b bs p v as)
  then show ?case by (auto split: if_splits list.splits PortAction.splits)
qed auto

lemma serial_pieces_polled:
  assumes "gets_ready D SerialPort_default"
  shows "\<exists>s' as. serial_pieces D ps s = Some s' \<and> accesses s' = accesses s @ as \<and>
    polled SerialPort_default (map of_nat (concat ps)) as"
proof (induction ps arbitrary: s)
  case (Cons p ps)
  from send_str_returns [OF assms, of p s] obtain s1 as1 where
    1: "serial_write_str D p s = Some s1" "accesses s1 = accesses s @ as1" "polled SerialPort_default (map of_nat p) as1"
    by (auto simp: serial_write_str_def)
  from Cons.IH [of s1] obtain s' as2 where "serial_pieces D ps s1 = Some s'" "accesses s' = accesses s1 @ as2"
    "polled SerialPort_default (map of_nat (concat ps)) as2" by blast
  with 1 polled_append [OF 1(3)] show ?case by auto
qed simp

lemma global_print_outcome:
  assumes "gets_ready D SerialPort_default" and "\<not> is_taken (GLOBAL_VRAM_WRITER s)"
    and "mutex_data (GLOBAL_VRAM_WRITER s) = Some w" and "vram_ok v" and "tw_buf w = vram_bitmap v"
    and "cursor_room (length (concat ps)) (cursor w)"
  shows "\<exists>s' w' as. global_print D font ps s = Some (Ok (), s') \<and>
    accesses (io s') = accesses (io s) @ as \<and> polled SerialPort_default (map of_nat (concat ps)) as \<and>
    GLOBAL_VRAM_WRITER s' = \<lparr>mutex_data = Some w', is_taken = False\<rparr> \<and> draws v (concat ps) (w, screen s) (w', screen s')"
proof -
  from serial_pieces_polled [OF assms(1)] obtain i as where
    i: "serial_pieces D ps (io s) = Some i" "accesses i = accesses (io s) @ as" "polled SerialPort_default (map of_nat (concat ps)) as" by blast
  from pieces_draw [OF assms(4-6)] obtain w' px where
    "rfold (write_str font) ps (w, screen s) = Ok (w', px)" "draws v (concat ps) (w, screen s) (w', px)" by force
  with i assms(2,3) show ?thesis by (cases "GLOBAL_VRAM_WRITER s") (auto simp: global_print_def lock_eq guard_drop_def Let_def)
qed

lemma global_print_taken:
  assumes "gets_ready D SerialPort_default" and "is_taken (GLOBAL_VRAM_WRITER s)"
  shows "\<exists>s' as. global_print D font ps s = Some (Panic ''Failed to lock mutecx'', s') \<and>
    accesses (io s') = accesses (io s) @ as \<and> polled SerialPort_default (map of_nat (concat ps)) as"
proof -
  from serial_pieces_polled [OF assms(1)] obtain i as where
    "serial_pieces D ps (io s) = Some i" "accesses i = accesses (io s) @ as" "polled SerialPort_default (map of_nat (concat ps)) as" by blast
  then show ?thesis using assms(2) by (simp add: global_print_def Let_def lock_eq)
qed

lemma global_print_no_screen:
  assumes "gets_ready D SerialPort_default" and "\<not> is_taken (GLOBAL_VRAM_WRITER s)" and "mutex_data (GLOBAL_VRAM_WRITER s) = None"
  shows "\<exists>s' as. global_print D font ps s = Some (Ok (), s') \<and> GLOBAL_VRAM_WRITER s' = GLOBAL_VRAM_WRITER s \<and>
    accesses (io s') = accesses (io s) @ as \<and> polled SerialPort_default (map of_nat (concat ps)) as"
proof -
  from serial_pieces_polled [OF assms(1)] obtain i as where
    "serial_pieces D ps (io s) = Some i" "accesses i = accesses (io s) @ as" "polled SerialPort_default (map of_nat (concat ps)) as" by blast
  then show ?thesis using assms(2,3) by (simp add: global_print_def Let_def lock_eq guard_drop_def)
qed

text \<open>
  C24. Printing, with the mutex free and a screen that fits in memory: the message reaches the serial
  port character by character, whole and in order; on the screen it continues at the cursor and
  changes pixels only inside the cells of its characters; no panic, and the mutex is free again.
\<close>

theorem global_print_prints:
  assumes "gets_ready D SerialPort_default" and "\<not> is_taken (GLOBAL_VRAM_WRITER s)"
    and "mutex_data (GLOBAL_VRAM_WRITER s) = Some w" and "vram_ok v" and "tw_buf w = vram_bitmap v"
    and "cursor_room (length (concat ps)) (cursor w)"
  shows "\<exists>s' w' as. global_print D font ps s = Some (Ok (), s') \<and>
    accesses (io s') = accesses (io s) @ as \<and> polled SerialPort_default (map of_nat (concat ps)) as \<and>
    GLOBAL_VRAM_WRITER s' = \<lparr>mutex_data = Some w', is_taken = False\<rparr> \<and> draws v (concat ps) (w, screen s) (w', screen s')"
  by (rule global_print_outcome [OF assms])

definition example_console :: "Uart Console" where
  "example_console = \<lparr>io = \<lparr>device = \<lparr>rx_fifo = [], sent = [], modem_control = 0\<rparr>, accesses = []\<rparr>,
     GLOBAL_VRAM_WRITER = Mutex_new (Some (BitmapTextWriter_new (vram_bitmap example_vram))), screen = (\<lambda>_. 0)\<rparr>"

theorem global_print_prints_witness:
  "\<exists>s' w'. global_print (uart16550 SerialPort_default) ''0x41'' [[72, 105], [10]] example_console = Some (Ok (), s') \<and>
     GLOBAL_VRAM_WRITER s' = \<lparr>mutex_data = Some w', is_taken = False\<rparr> \<and> cursor w' = (0, 16)"
proof -
  let ?w = "BitmapTextWriter_new (vram_bitmap example_vram)"
  have "\<not> is_taken (GLOBAL_VRAM_WRITER example_console)" "mutex_data (GLOBAL_VRAM_WRITER example_console) = Some ?w"
    "tw_buf ?w = vram_bitmap example_vram" "cursor_room (length (concat [[72, 105], [10]])) (cursor ?w)"
    by (simp_all add: example_console_def Mutex_new_def BitmapTextWriter_new_def cursor_room_def cursor_def)
  from global_print_prints [OF uart16550_gets_ready this(1,2) example_vram_ok this(3,4), of "''0x41''"] show ?thesis
    by (force simp: draws_def advance_def cursor_def BitmapTextWriter_new_def)
qed

end
