(* ===== verification/Boot.thy ===== *)
theory Boot
  imports BringUp SystemTables Hpet Executor Console
begin

text \<open>
  Starting the kernel: the functions of \<open>init.rs\<close> that prepare memory, timer and PCI, and \<open>efi_main\<close> of \<open>main.rs\<close>,
  which calls them in order, with the task that monitors the serial port and the panic handler. The state is
  that of the components together; firmware, devices and the memory that holds the ACPI tables are parameters
  (\<open>Platform\<close>). Messages of the driver inside \<open>attach\<close> are left out. \<open>file!()\<close> is the path below \<open>src\<close> of the crate.
\<close>

section \<open>Messages\<close>

text \<open>\<open>println!\<close>, \<open>info!\<close> and \<open>error!\<close>; how \<open>fmt::write\<close> cuts a message into pieces does not matter to the writers.\<close>

definition println :: "'p IoDevice \<Rightarrow> string \<Rightarrow> string \<Rightarrow> 'p Console \<Rightarrow> (unit result \<times> 'p Console) option" where
  "println D font msg = global_print D font [map of_char msg, [10]]"

definition log_line :: "string \<Rightarrow> string \<Rightarrow> nat \<Rightarrow> string \<Rightarrow> string" where
  "log_line level file line body = ''['' @ level @ ''] '' @ file @ '':'' @ pad_right 3 CHR '' '' (fmt_dec line) @ '': '' @ body"

definition info :: "'p IoDevice \<Rightarrow> string \<Rightarrow> string \<Rightarrow> nat \<Rightarrow> string \<Rightarrow> 'p Console \<Rightarrow> (unit result \<times> 'p Console) option" where
  "info D font file line body = println D font (log_line ''INFO'' file line body)"

definition error :: "'p IoDevice \<Rightarrow> string \<Rightarrow> string \<Rightarrow> nat \<Rightarrow> string \<Rightarrow> 'p Console \<Rightarrow> (unit result \<times> 'p Console) option" where
  "error D font file line body = println D font (log_line ''ERROR'' file line body)"

text \<open>The panic handler: the result is the state in which the machine halts, a panic when it panics itself.\<close>

definition panic_handler :: "'p IoDevice \<Rightarrow> string \<Rightarrow> string \<Rightarrow> 'p Console \<Rightarrow> (unit result \<times> 'p Console) option" where
  "panic_handler D font panic_info s =
     sbind (println D font (''panic: '' @ panic_info) s) (\<lambda>_ s. Some (Ok (), s\<lparr>io := exit_qemu D QemuFail (io s)\<rparr>))"

section \<open>The monitor of the serial port\<close>

text \<open>
  The task is polled at its start, or while it sleeps until a time. \<open>clock\<close> reads the timer, which may
  have moved on between two readings.
\<close>

datatype SerialTask = SerialStart | SerialSleep nat

definition on_device :: "('p \<Rightarrow> 'a \<times> 'p) \<Rightarrow> 'p Console \<Rightarrow> 'a \<times> 'p Console" where
  "on_device f s = (case f (device (io s)) of (x, d) \<Rightarrow> (x, s\<lparr>io := (io s)\<lparr>device := d\<rparr>\<rparr>))"

text \<open>The \<open>Debug\<close> of \<open>char::from_u32\<close> of a byte.\<close>

definition debug_char :: "nat \<Rightarrow> nat list" where
  "debug_char c =
     (if c = 0 then map of_char [CHR 0x5C, CHR ''0''] else if c = 9 then map of_char [CHR 0x5C, CHR ''t'']
      else if c = 10 then map of_char [CHR 0x5C, CHR ''n''] else if c = 13 then map of_char [CHR 0x5C, CHR ''r'']
      else if c = 39 \<or> c = 92 then [92, c]
      else if 32 \<le> c \<and> c < 127 \<or> 161 \<le> c \<and> c \<noteq> 173 then [c]
      else map of_char ([CHR 0x5C] @ ''u{'' @ map lower_digit (digits_base 16 c) @ ''}''))"

definition serial_input :: "u8 \<Rightarrow> nat list" where
  "serial_input v = map of_char (''serial input: '' @ fmt_hex_alt 4 (unat v) @ '' = Some('') @ [39] @ debug_char (unat v) @ [39, 41]"

definition serial_info :: "'p IoDevice \<Rightarrow> string \<Rightarrow> u8 \<Rightarrow> 'p Console \<Rightarrow> (unit result \<times> 'p Console) option" where
  "serial_info D font v = global_print D font [map of_char (log_line ''INFO'' ''src/main.rs'' 47 ''''), serial_input v, [10]]"

text \<open>The body of the loop up to the first poll of \<open>sleep\<close> that is pending.\<close>

partial_function (option) serial_loop ::
  "'p IoDevice \<Rightarrow> ('p \<Rightarrow> nat \<times> 'p) \<Rightarrow> string \<Rightarrow> 'p Console \<Rightarrow> (SerialTask result \<times> 'p Console) option" where
  "serial_loop D clock font s =
     (case try_read D SerialPort_default (io s) of (c, i) \<Rightarrow>
        sbind (case c of None \<Rightarrow> Some (Ok (), s\<lparr>io := i\<rparr>) | Some v \<Rightarrow> serial_info D font v (s\<lparr>io := i\<rparr>)) (\<lambda>_ s.
        case on_device clock s of (now, s) \<Rightarrow>
          let time_out = TimeoutFuture_new now 20000000 in
          case on_device clock s of (now, s) \<Rightarrow>
            if time_out < now then serial_loop D clock font s else Some (Ok (SerialSleep time_out), s)))"

definition serial_poll ::
  "'p IoDevice \<Rightarrow> ('p \<Rightarrow> nat \<times> 'p) \<Rightarrow> string \<Rightarrow> SerialTask \<Rightarrow> 'p Console \<Rightarrow> ((unit result option \<times> SerialTask) result \<times> 'p Console) option" where
  "serial_poll D clock font t s =
     (case t of
        SerialStart \<Rightarrow>
          Option.bind (loopback_test D SerialPort_default (io s)) (\<lambda>(r, i). let s = s\<lparr>io := i\<rparr> in
            (case r of
               Panic e \<Rightarrow> Some (Panic e, s)
             | Err e \<Rightarrow> sbind (error D font ''src/main.rs'' 40 ([CHR 0x22] @ e @ [CHR 0x22]) s) (\<lambda>_ s.
                 Some (Ok (Some (Err ''serial loopback test failed''), SerialStart), s))
             | Ok _ \<Rightarrow> sbind (info D font ''src/main.rs'' 43 ''started to monitor serial port'' s) (\<lambda>_ s.
                 sbind (serial_loop D clock font s) (\<lambda>t s. Some (Ok (None, t), s)))))
      | SerialSleep time_out \<Rightarrow>
          (case on_device clock s of (now, s) \<Rightarrow>
             if time_out < now then sbind (serial_loop D clock font s) (\<lambda>t s. Some (Ok (None, t), s))
             else Some (Ok (None, SerialSleep time_out), s)))"

section \<open>The state of the kernel\<close>

datatype KernelTask = RunXhc Controller | SerialMonitor SerialTask

record ('fw, 'p, 'hw) Kernel =
  k_fw :: 'fw
  k_console :: "'p Console"
  k_attach :: "'hw Attach"
  k_regs :: SystemRegisters
  k_hpet :: "Hpet option"
  k_executor :: "KernelTask Executor option"

record ('fw, 'p, 'hw) Platform =
  handle_protocol :: "EfiGuid \<Rightarrow> u64 \<times> u64"
  locate_protocol :: "EfiGuid \<Rightarrow> u64 \<times> GraphicsMode"
  configuration_table :: "EfiConfigurationTable list"
  get_memory_map :: "'fw \<Rightarrow> MemoryMapHolder \<Rightarrow> u64 \<times> MemoryMapHolder \<times> 'fw"
  exit_boot_services :: "'fw \<Rightarrow> u64 \<Rightarrow> usize \<Rightarrow> u64 \<times> 'fw"
  acpi_memory :: memory
  hpet_at :: "usize \<Rightarrow> HpetRegisters"
  entry_points :: symbols
  ports :: "'p IoDevice"
  font_file :: string
  config_space :: "'hw ConfigAccess"
  xhc_device :: "OperationalRegisters \<Rightarrow> OperationalRegisters"
  xhc_caps :: "u64 \<Rightarrow> CapabilityRegisters"
  xhc_regs :: "XhcRegisters \<Rightarrow> OperationalRegisters \<times> InterrupterRegisterSet list"

type_synonym ('a, 'k) step = "'k \<Rightarrow> ('a result \<times> 'k) option"

definition give :: "'a result \<Rightarrow> ('a, 'k) step" where
  "give r k = Some (r, k)"

definition on_console :: "('p Console \<Rightarrow> ('a result \<times> 'p Console) option) \<Rightarrow> ('a, ('fw, 'p, 'hw) Kernel) step" where
  "on_console f k = map_option (\<lambda>(r, c). (r, k\<lparr>k_console := c\<rparr>)) (f (k_console k))"

definition on_attach :: "('hw Attach \<Rightarrow> ('a result \<times> 'hw Attach) option) \<Rightarrow> ('a, ('fw, 'p, 'hw) Kernel) step" where
  "on_attach f k = map_option (\<lambda>(r, a). (r, k\<lparr>k_attach := a\<rparr>)) (f (k_attach k))"

definition kernel_heap :: "('fw, 'p, 'hw) Kernel \<Rightarrow> FirstFitAllocator" where
  "kernel_heap k = pt_heap (space (sys_space (at_sys (k_attach k))))"

definition on_kernel_heap :: "'a on_heap \<Rightarrow> ('a, ('fw, 'p, 'hw) Kernel) step" where
  "on_kernel_heap f = on_attach (on_system (with_heap f))"

definition say :: "('fw, 'p, 'hw) Platform \<Rightarrow> string \<Rightarrow> nat \<Rightarrow> string \<Rightarrow> (unit, ('fw, 'p, 'hw) Kernel) step" where
  "say P file line body = on_console (info (ports P) (font_file P) file line body)"

section \<open>The functions of \<open>init.rs\<close>\<close>

definition init_basic_runtime :: "('fw, 'p, 'hw) Platform \<Rightarrow> u64 \<Rightarrow> (MemoryMapHolder, ('fw, 'p, 'hw) Kernel) step" where
  "init_basic_runtime P image_handle k =
     Option.bind (exit_from_efi_boot_services (get_memory_map P) (exit_boot_services P) image_handle (k_fw k) MemoryMapHolder_new) (\<lambda>r.
     (case r of
        Err e \<Rightarrow> Some (Err e, k)
      | Panic e \<Rightarrow> Some (Panic e, k)
      | Ok (memory_map, fw) \<Rightarrow>
          sbind (on_kernel_heap (\<lambda>h. map_option (\<lambda>r. case r of Ok h' \<Rightarrow> (Ok (), h') | Err e \<Rightarrow> (Err e, h) | Panic e \<Rightarrow> (Panic e, h))
              (init_with_mmap h memory_map)) (k\<lparr>k_fw := fw\<rparr>))
            (\<lambda>_ k. Some (Ok memory_map, k))))"

definition get_page_pointer :: "MemoryMapHolder \<Rightarrow> AddressSpace \<Rightarrow> (u64 result \<times> AddressSpace) option" where
  "get_page_pointer memory_map s =
     sbind (on_tables PML4_new s) (\<lambda>table s.
     sbind (map_option (\<lambda>r. (rbind r (end_of_mem 0x100000000), s)) (memory_map_iter memory_map)) (\<lambda>e s. Some (Ok table, s)))"

fun total_memory_pages :: "u64 \<Rightarrow> EfiMemoryDescriptor list \<Rightarrow> u64 result" where
  "total_memory_pages n [] = Ok n"
| "total_memory_pages n (e # es) =
     (if memory_type e \<noteq> CONVENTIONAL_MEMORY then total_memory_pages n es
      else rbind (add_word n (number_of_pages e)) (\<lambda>n. total_memory_pages n es))"

definition total_memory_size_mib :: "EfiMemoryDescriptor list \<Rightarrow> u64 result" where
  "total_memory_size_mib es =
     rbind (total_memory_pages 0 es) (\<lambda>n. rbind (mul_word n 4096) (\<lambda>b. Ok (b div 1024 div 1024)))"

definition init_allocator :: "('fw, 'p, 'hw) Platform \<Rightarrow> MemoryMapHolder \<Rightarrow> (unit, ('fw, 'p, 'hw) Kernel) step" where
  "init_allocator P memory_map k =
     sbind (map_option (\<lambda>r. (rbind r total_memory_size_mib, k)) (memory_map_iter memory_map)) (\<lambda>mib.
       say P ''src/init.rs'' 96 (''Total memory size: '' @ fmt_dec (unat mib) @ '' MiB''))"

text \<open>\<open>init_hpet\<close>, with its message between finding the registers and setting them up.\<close>

definition kernel_init_hpet :: "('fw, 'p, 'hw) Platform \<Rightarrow> usize \<Rightarrow> (unit, ('fw, 'p, 'hw) Kernel) step" where
  "kernel_init_hpet P acpi k =
     sbind (give (rbind (rsdp_hpet (acpi_memory P) acpi) (\<lambda>t. unwrap (ok_or t ''failed to get HPET table''))) k) (\<lambda>desc k.
     sbind (give (unwrap (hpet_base_address (acpi_memory P) desc)) k) (\<lambda>a k.
     sbind (say P ''src/init.rs'' 82 (''HPET is at '' @ fmt_hex_lower 18 a) k) (\<lambda>_ k.
     sbind (give (rbind (Hpet_new (hpet_at P a)) (\<lambda>h. set_global_hpet h (k_hpet k))) k) (\<lambda>g k.
       Some (Ok (), k\<lparr>k_hpet := g\<rparr>)))))"

definition ecam_line :: "memory \<Rightarrow> usize \<Rightarrow> string" where
  "ecam_line mem e =
     ''ECAM: bus '' @ fmt_dec (unat (start_pci_bus mem e)) @ ''-'' @ fmt_dec (unat (end_pci_bus mem e)) @ '' is mapped at '' @
     fmt_hex_lower 0 (unat (ecam_base_address mem e))"

definition show_ecam_entry :: "('fw, 'p, 'hw) Platform \<Rightarrow> usize \<Rightarrow> usize \<Rightarrow> (unit, ('fw, 'p, 'hw) Kernel) step" where
  "show_ecam_entry P mcfg i k =
     sbind (give (mcfg_entry (acpi_memory P) mcfg i) k) (\<lambda>e.
       (case e of None \<Rightarrow> give (Ok ()) | Some e \<Rightarrow> say P ''src/init.rs'' 110 (ecam_line (acpi_memory P) e)))"

definition attach_xhci :: "('fw, 'p, 'hw) Platform \<Rightarrow> Pci \<Rightarrow> BusDeviceFunction \<Rightarrow> (unit, ('fw, 'p, 'hw) Kernel) step" where
  "attach_xhci P pci bdf k =
     Option.bind (on_attach (attach (config_space P) (xhc_device P) (xhc_caps P) (xhc_regs P) pci bdf) k) (\<lambda>(r, k).
       (case r of
          Err e \<Rightarrow> sbind (on_console (error (ports P) (font_file P) ''src/pci.rs'' 174
              (''Failed to attach xHCI driver for '' @ [CHR 0x22] @ e @ [CHR 0x22])) k) (\<lambda>_ k. Some (Err e, k))
        | _ \<Rightarrow> Some (r, k)))"

definition init_pci :: "('fw, 'p, 'hw) Platform \<Rightarrow> usize \<Rightarrow> (unit, ('fw, 'p, 'hw) Kernel) step" where
  "init_pci P acpi k =
     sbind (give (rsdp_mcfg (acpi_memory P) acpi) k) (\<lambda>mcfg.
       (case mcfg of
          None \<Rightarrow> give (Ok ())
        | Some mcfg \<Rightarrow> (\<lambda>k.
            sbind (give (mcfg_num_of_entries (acpi_memory P) mcfg) k) (\<lambda>n k.
            sbind (for_each (show_ecam_entry P mcfg) [0..<n] k) (\<lambda>_ k.
            sbind (give (Pci_new (acpi_memory P) mcfg) k) (\<lambda>pci k.
            sbind (probe_devices (config_space P) (\<lambda>k. at_hw (k_attach k)) (attach_xhci P pci) pci k) (\<lambda>_.
              say P ''src/pci.rs'' 182 ''PCI device probing completed'')))))))"

section \<open>\<open>efi_main\<close>\<close>

definition EFI_GRAPHICS_OUTPUT_PROTOCOL_GUID :: EfiGuid where
  "EFI_GRAPHICS_OUTPUT_PROTOCOL_GUID = \<lparr>data0 = 0x9042a9de, data1 = 0x23dc, data2 = 0x4a38,
     data3 = [0x96, 0xfb, 0x7a, 0xde, 0xd0, 0x80, 0x51, 0x6a]\<rparr>"

definition EFI_LOADED_IMAGE_PROTOCOL_GUID :: EfiGuid where
  "EFI_LOADED_IMAGE_PROTOCOL_GUID = \<lparr>data0 = 0x5B1B31A1, data1 = 0x9562, data2 = 0x11D2,
     data3 = [0x8E, 0x3F, 0x00, 0xA0, 0xC9, 0x69, 0x72, 0x3B]\<rparr>"

definition locate_loaded_image_protocol :: "(EfiGuid \<Rightarrow> u64 \<times> u64) \<Rightarrow> u64 result" where
  "locate_loaded_image_protocol handle =
     (case handle EFI_LOADED_IMAGE_PROTOCOL_GUID of (status, protocol) \<Rightarrow>
        if status \<noteq> 0 then Err ''failed to locate graphics output protocol'' else Ok protocol)"

definition spawn_tasks :: "SerialTask \<Rightarrow> ('fw, 'p, 'hw) Kernel \<Rightarrow> ('fw, 'p, 'hw) Kernel" where
  "spawn_tasks t k =
     k\<lparr>k_executor := spawn_global (SerialMonitor t) (fold (\<lambda>c. spawn_global (RunXhc c)) (at_spawned (k_attach k)) (k_executor k))\<rparr>"

text \<open>\<open>start_global_executor\<close> and the entry of \<open>Executor::run\<close>, up to its first turn.\<close>

definition start_global_executor :: "('fw, 'p, 'hw) Platform \<Rightarrow> (unit, ('fw, 'p, 'hw) Kernel) step" where
  "start_global_executor P k =
     sbind (say P ''src/executor.rs'' 167 ''Starting global executor'' k) (\<lambda>_. say P ''src/executor.rs'' 91 ''Executor started'')"

text \<open>
  The screen is drawn before the writer is given to the console. The last step is the state in which
  the executor starts its loop, with the tasks that \<open>attach\<close> has spawned, in order, and the monitor behind them.
\<close>

definition efi_main :: "('fw, 'p, 'hw) Platform \<Rightarrow> u64 \<Rightarrow> (unit, ('fw, 'p, 'hw) Kernel) step" where
  "efi_main P image_handle k =
     sbind (on_console (println (ports P) (font_file P) ''[mushix] Starting up...'') k) (\<lambda>_ k.
     sbind (give (unwrap (locate_loaded_image_protocol (handle_protocol P))) k) (\<lambda>_ k.
     sbind (give (unwrap (init_vram (locate_protocol P) EFI_GRAPHICS_OUTPUT_PROTOCOL_GUID)) k) (\<lambda>vram k.
     sbind (give (init_display (font_file P) vram (screen (k_console k))) k) (\<lambda>px k.
     sbind (on_console (\<lambda>c. Some (set_global_vram vram (c\<lparr>screen := px\<rparr>))) k) (\<lambda>_ k.
     sbind (give (unwrap (ok_or (acpi_table (configuration_table P)) ''failed to get ACPI table'')) k) (\<lambda>acpi k.
     sbind (init_basic_runtime P image_handle k) (\<lambda>memory_map k.
     sbind (init_allocator P memory_map k) (\<lambda>_ k.
     sbind (on_kernel_heap (init_exceptions (entry_points P) (k_regs k)) k) (\<lambda>(gdt, idt, regs) k.
     sbind (kernel_init_hpet P (unat acpi) (k\<lparr>k_regs := regs\<rparr>)) (\<lambda>_ k.
     sbind (init_pci P (unat acpi) k) (\<lambda>_ k.
     start_global_executor P (spawn_tasks SerialStart k))))))))))))"

section \<open>Properties\<close>

text \<open>The pages of conventional memory.\<close>

definition conventional_pages :: "EfiMemoryDescriptor list \<Rightarrow> nat" where
  "conventional_pages es = (\<Sum>e \<leftarrow> filter (\<lambda>e. memory_type e = CONVENTIONAL_MEMORY) es. unat (number_of_pages e))"

lemma conventional_pages_Cons:
  "conventional_pages (e # es) = (if memory_type e = CONVENTIONAL_MEMORY then unat (number_of_pages e) else 0) + conventional_pages es"
  by (simp add: conventional_pages_def)

lemma total_memory_pages_eq:
  "total_memory_pages n es =
    (if unat n + conventional_pages es < 2 ^ 64 then Ok (n + of_nat (conventional_pages es)) else Panic ''add overflow'')"
proof (induction es arbitrary: n)
  case Nil
  show ?case using unsigned_less [of n] by (simp add: conventional_pages_def)
next
  case (Cons e es)
  show ?case
  proof (cases "memory_type e = CONVENTIONAL_MEMORY")
    case conv: True
    show ?thesis
    proof (cases "unat n + unat (number_of_pages e) < 2 ^ 64")
      case True
      then have "unat (n + number_of_pages e) = unat n + unat (number_of_pages e)" by (simp add: unat_word_ariths)
      with True conv show ?thesis by (simp add: Cons.IH conventional_pages_Cons add_word_def add.assoc)
    next
      case False
      then have "add_word n (number_of_pages e) = Panic ''add overflow''" by (simp add: add_word_def)
      with False conv show ?thesis by (simp add: conventional_pages_Cons)
    qed
  next
    case False
    then show ?thesis by (simp add: Cons.IH conventional_pages_Cons)
  qed
qed

text \<open>
  The size that \<open>init_allocator\<close> prints is the size of conventional memory in MiB, rounded down, and
  the addition or multiplication panics exactly when that memory has \<open>2 ^ 64\<close> bytes or more.
\<close>

theorem total_memory_size_mib_spec:
  "if conventional_pages es * 4096 < 2 ^ 64
   then \<exists>mib. total_memory_size_mib es = Ok mib \<and> unat mib = conventional_pages es * 4096 div 2 ^ 20
   else is_panic (total_memory_size_mib es)"
proof (cases "conventional_pages es * 4096 < 2 ^ 64")
  case True
  then have n: "unat (of_nat (conventional_pages es) :: u64) = conventional_pages es" by (simp add: unsigned_of_nat take_bit_nat_eq_self)
  then have "unat (of_nat (conventional_pages es) * 4096 :: u64) = conventional_pages es * 4096"
    using True by (simp add: unat_word_ariths del: of_nat_mult)
  with True n show ?thesis
    by (simp add: total_memory_size_mib_def total_memory_pages_eq mul_word_def unat_div div_mult2_eq [symmetric] del: of_nat_mult)
next
  case False
  have "unat (of_nat (conventional_pages es) :: u64) = conventional_pages es" if "conventional_pages es < 2 ^ 64"
    using that by (simp add: unsigned_of_nat take_bit_nat_eq_self)
  with False show ?thesis by (simp add: total_memory_size_mib_def total_memory_pages_eq mul_word_def)
qed

text \<open>What a step on the heap or the firmware leaves alone.\<close>

definition outside_heap where
  "outside_heap k = (k_console k, at_hw (k_attach k), at_spawned (k_attach k), k_regs k, k_hpet k, k_executor k)"

lemma init_basic_runtime_outcome:
  fixes rank :: "'fw \<Rightarrow> nat" and P :: "('fw, 'p, 'hw) Platform"
  assumes get: "\<And>fw m. fst (get_memory_map P fw m) = 0 \<and> rank (snd (snd (get_memory_map P fw m))) \<le> rank fw"
    and exit: "\<And>fw i. fst (exit_boot_services P fw handle i) \<noteq> 0 \<Longrightarrow> rank (snd (exit_boot_services P fw handle i)) < rank fw"
    and map: "\<And>fw m. memory_map_iter (fst (snd (get_memory_map P fw m))) = Some (Ok es)"
    and regions: "list_all desc_ok es" "regions_ok (rev (free_regions es))" and new: "kernel_heap k = ALLOCATOR_init"
  shows "\<exists>m k1. init_basic_runtime P handle k = Some (Ok m, k1) \<and> memory_map_iter m = Some (Ok es) \<and>
    represents (kernel_heap k1) (rev (free_regions es)) \<and> k_console k1 = k_console k \<and> outside_heap k1 = outside_heap k"
proof -
  from exit_from_efi_boot_services_returns [where get_map = "get_memory_map P" and exit_bs = "exit_boot_services P" and rank = rank
      and h = handle and fw = "k_fw k" and m = MemoryMapHolder_new, OF get exit]
  obtain m fw fw0 m0 fw1 where m: "exit_from_efi_boot_services (get_memory_map P) (exit_boot_services P) handle (k_fw k) MemoryMapHolder_new =
      Some (Ok (m, fw))" "get_memory_map P fw0 m0 = (0, m, fw1)" by blast
  have es: "memory_map_iter m = Some (Ok es)" using map [of fw0 m0] m(2) by simp
  from add_free_all_refines [OF represents_init regions(1)] regions(2) obtain h where
    h: "add_free_all ALLOCATOR_init es = Ok h" "represents h (rev (free_regions es))" by auto
  define k1 where "k1 = k\<lparr>k_fw := fw, k_attach := (k_attach k)\<lparr>at_sys := (at_sys (k_attach k))\<lparr>sys_space := (sys_space (at_sys (k_attach k)))\<lparr>
      space := (space (sys_space (at_sys (k_attach k))))\<lparr>pt_heap := h\<rparr>\<rparr>\<rparr>\<rparr>\<rparr>"
  have "init_basic_runtime P handle k = Some (Ok m, k1)"
    using m(1) es h(1) new by (simp add: init_basic_runtime_def on_kernel_heap_def on_attach_def on_system_def with_heap_def
        init_with_mmap_def kernel_heap_def k1_def)
  moreover have "kernel_heap k1 = h" "k_console k1 = k_console k" "outside_heap k1 = outside_heap k"
    by (simp_all add: k1_def kernel_heap_def outside_heap_def)
  ultimately show ?thesis using es h(2) by auto
qed

text \<open>A step on the heap changes the kernel's heap, and nothing of the console.\<close>

lemma on_kernel_heap_run:
  "f (kernel_heap k) = Some (r, h') \<Longrightarrow>
   \<exists>k'. on_kernel_heap f k = Some (r, k') \<and> kernel_heap k' = h' \<and> k_console k' = k_console k \<and> outside_heap k' = outside_heap k"
  by (simp add: on_kernel_heap_def on_attach_def on_system_def with_heap_def kernel_heap_def outside_heap_def)

text \<open>
  A firmware that refuses to end its boot services as often as its state says and lists one region of 1 MiB,
  on a machine without ACPI tables.
\<close>

definition boot_descriptor :: EfiMemoryDescriptor where
  "boot_descriptor = example_descriptor\<lparr>number_of_pages := 256\<rparr>"

definition boot_map :: MemoryMapHolder where
  "boot_map = \<lparr>memory_map_buffer = Uefi.encode_descriptor boot_descriptor,
     memory_map_size = 40, map_key = 7, descriptor_size = 40, descriptor_version = 1\<rparr>"

definition example_platform :: "(nat, Uart, unit) Platform" where
  "example_platform = \<lparr>handle_protocol = (\<lambda>g. (0, 0x1000)), locate_protocol = (\<lambda>g. (1, \<lparr>horizontal_resolution = 0,
       vertical_resolution = 0, pixels_per_scan_line = 0, frame_buffer_base = 0\<rparr>)), configuration_table = [],
     get_memory_map = (\<lambda>fw m. (0, boot_map, fw)), exit_boot_services = (\<lambda>fw h i. if fw = 0 then (0, 0) else (1, fw - 1)),
     acpi_memory = (\<lambda>a. 0), hpet_at = (\<lambda>a. example_hpet_registers), entry_points = (\<lambda>h. 0x401000),
     ports = uart16550 SerialPort_default, font_file = ''0x41'', config_space = one_xhci, xhc_device = example_device,
     xhc_caps = (\<lambda>a. cap_regs example_registers), xhc_regs = (\<lambda>r. (sys_op example_system, sys_irs example_system))\<rparr>"

definition example_kernel :: "(nat, Uart, unit) Kernel" where
  "example_kernel = \<lparr>k_fw = 3, k_console = example_console,
     k_attach = \<lparr>at_hw = (), at_sys = example_system\<lparr>sys_space := \<lparr>cr3 = 0, space = \<lparr>pt_tables = Map.empty, pt_heap = ALLOCATOR_init\<rparr>\<rparr>\<rparr>,
       at_spawned = []\<rparr>, k_regs = boot_registers, k_hpet = None, k_executor = None\<rparr>"

lemma boot_map_iter: "memory_map_iter boot_map = Some (Ok [boot_descriptor])"
  using iter_from_entries [of boot_map "[]" "[(boot_descriptor, [])]" "[]"]
  by (simp add: memory_map_iter_def boot_map_def)

text \<open>
  C26. On a serial port that gets ready, with room for the message on the screen if there is one, the panic handler
  sends the message whole and in order. When the console's mutex is free it then writes 2 to the exit port; when the
  code that panicked holds the mutex, the handler panics itself, before it gets there.
\<close>

theorem panic_handler_exits:
  assumes "gets_ready D SerialPort_default"
    and "\<And>w. mutex_data (GLOBAL_VRAM_WRITER s) = Some w \<Longrightarrow> vram_ok v \<and> tw_buf w = vram_bitmap v \<and> cursor_room (length msg + 8) (cursor w)"
  shows "\<exists>r s' as. panic_handler D font msg s = Some (r, s') \<and>
    polled SerialPort_default (map of_char (''panic: '' @ msg) @ [10]) as \<and>
    (if is_taken (GLOBAL_VRAM_WRITER s) then r = Panic ''Failed to lock mutecx'' \<and> accesses (io s') = accesses (io s) @ as
     else r = Ok () \<and> accesses (io s') = accesses (io s) @ as @ [Out 0xF4 2])"
proof -
  let ?ps = "[map of_char (''panic: '' @ msg), [10]] :: nat list list"
  have message: "map of_nat (concat ?ps) = map of_char (''panic: '' @ msg) @ [10 :: u8]" by (simp add: o_def of_nat_of_char)
  have len: "length (concat ?ps) = length msg + 8" by simp
  show ?thesis
  proof (cases "is_taken (GLOBAL_VRAM_WRITER s)")
    case True
    from global_print_taken [OF assms(1) this, of font ?ps] True show ?thesis
      unfolding panic_handler_def println_def message by auto
  next
    case False
    have "\<exists>s' as. global_print D font ?ps s = Some (Ok (), s') \<and> accesses (io s') = accesses (io s) @ as \<and>
        polled SerialPort_default (map of_nat (concat ?ps)) as"
    proof (cases "mutex_data (GLOBAL_VRAM_WRITER s)")
      case None
      from global_print_no_screen [OF assms(1) False None] show ?thesis by blast
    next
      case (Some w)
      with assms(2) have "vram_ok v" "tw_buf w = vram_bitmap v" "cursor_room (length (concat ?ps)) (cursor w)" unfolding len by blast+
      from global_print_outcome [OF assms(1) False Some this] show ?thesis by blast
    qed
    then show ?thesis using False unfolding panic_handler_def println_def message
      by (auto simp: exit_qemu_def write_io_port_u8_def)
  qed
qed

theorem panic_handler_exits_witness:
  "(\<exists>s' as. panic_handler (uart16550 SerialPort_default) ''0x41'' ''halt'' example_console = Some (Ok (), s') \<and>
      accesses (io s') = as @ [Out 0xF4 2]) \<and>
   (\<exists>s'. panic_handler (uart16550 SerialPort_default) ''0x41'' ''halt''
      (example_console\<lparr>GLOBAL_VRAM_WRITER := (GLOBAL_VRAM_WRITER example_console)\<lparr>is_taken := True\<rparr>\<rparr>) =
      Some (Panic ''Failed to lock mutecx'', s'))"
proof -
  let ?taken = "example_console\<lparr>GLOBAL_VRAM_WRITER := (GLOBAL_VRAM_WRITER example_console)\<lparr>is_taken := True\<rparr>\<rparr>"
  have room: "mutex_data (GLOBAL_VRAM_WRITER s) = Some w \<Longrightarrow>
      vram_ok example_vram \<and> tw_buf w = vram_bitmap example_vram \<and> cursor_room (length ''halt'' + 8) (cursor w)"
    if "s = example_console \<or> s = ?taken" for s w
    using that example_vram_ok by (auto simp: example_console_def Mutex_new_def BitmapTextWriter_new_def cursor_room_def cursor_def)
  have free: "\<not> is_taken (GLOBAL_VRAM_WRITER example_console)" "accesses (io example_console) = []"
    by (simp_all add: example_console_def Mutex_new_def)
  note halts = panic_handler_exits [where D = "uart16550 SerialPort_default" and font = "''0x41''" and msg = "''halt''",
      OF uart16550_gets_ready room]
  show ?thesis using halts [of example_console] halts [of ?taken] free by force
qed

end
