(* ===== verification/TestRunner.thy ===== *)
theory TestRunner
  imports UnitTests Boot
begin

text \<open>
  The test build: the test runner and the panic handler of \<open>test_runner.rs\<close> and the \<open>efi_main\<close> of \<open>lib.rs\<close> that calls
  them. The list of tests, which the test harness of the compiler generates, is an argument, and so is the text that
  \<open>PanicInfo\<close> prints. A machine that has left through the debug exit port is its state at the halt.
\<close>

section \<open>Definitions\<close>

definition write_line :: "('fw, 'p, 'hw) Platform \<Rightarrow> string \<Rightarrow> (unit, ('fw, 'p, 'hw) Kernel) step" where
  "write_line P line k =
     map_option (\<lambda>i. (Ok (), k\<lparr>k_console := (k_console k)\<lparr>io := i\<rparr>\<rparr>)) (serial_pieces (ports P) [map of_char line, [10]] (io (k_console k)))"

definition run_test :: "('fw, 'p, 'hw) Platform \<Rightarrow> string \<times> unit on_heap \<Rightarrow> (unit, ('fw, 'p, 'hw) Kernel) step" where
  "run_test P t k =
     sbind (write_line P (''[Runnning] >>> '' @ fst t) k) (\<lambda>_ k.
     sbind (on_kernel_heap (snd t) k) (\<lambda>_. write_line P (''[Pass    ] <<< '' @ fst t)))"

definition quit :: "('fw, 'p, 'hw) Platform \<Rightarrow> QemuExitCode \<Rightarrow> ('fw, 'p, 'hw) Kernel \<Rightarrow> ('fw, 'p, 'hw) Kernel" where
  "quit P code k = k\<lparr>k_console := (k_console k)\<lparr>io := exit_qemu (ports P) code (io (k_console k))\<rparr>\<rparr>"

text \<open>The panic handler runs when a step panics; no step here returns an error.\<close>

definition test_panic :: "('fw, 'p, 'hw) Platform \<Rightarrow> (string \<Rightarrow> string) \<Rightarrow> string \<Rightarrow> ('fw, 'p, 'hw) Kernel \<Rightarrow> ('fw, 'p, 'hw) Kernel option" where
  "test_panic P msg_of e k = map_option (\<lambda>(_, k). quit P QemuFail k) (write_line P (''Panic duringt est: '' @ msg_of e) k)"

definition caught ::
  "('fw, 'p, 'hw) Platform \<Rightarrow> (string \<Rightarrow> string) \<Rightarrow> (unit result \<times> ('fw, 'p, 'hw) Kernel) option \<Rightarrow> ('fw, 'p, 'hw) Kernel option" where
  "caught P msg_of m =
     Option.bind m (\<lambda>(r, k). case r of Ok _ \<Rightarrow> Some (quit P QemuSuccess k) | Err e \<Rightarrow> test_panic P msg_of e k | Panic e \<Rightarrow> test_panic P msg_of e k)"

definition run_all :: "('fw, 'p, 'hw) Platform \<Rightarrow> (string \<times> unit on_heap) list \<Rightarrow> (unit, ('fw, 'p, 'hw) Kernel) step" where
  "run_all P tests k =
     sbind (write_line P (''Running '' @ fmt_dec (length tests) @ '' tests'') k) (\<lambda>_ k.
     sbind (for_each (run_test P) tests k) (\<lambda>_.
       write_line P (''Completed '' @ fmt_dec (length tests) @ '' tests'')))"

definition test_runner ::
  "('fw, 'p, 'hw) Platform \<Rightarrow> (string \<Rightarrow> string) \<Rightarrow> (string \<times> unit on_heap) list \<Rightarrow> ('fw, 'p, 'hw) Kernel \<Rightarrow> ('fw, 'p, 'hw) Kernel option" where
  "test_runner P msg_of tests k = caught P msg_of (run_all P tests k)"

definition test_efi_main ::
  "('fw, 'p, 'hw) Platform \<Rightarrow> (string \<Rightarrow> string) \<Rightarrow> (string \<times> unit on_heap) list \<Rightarrow> u64 \<Rightarrow> ('fw, 'p, 'hw) Kernel \<Rightarrow> ('fw, 'p, 'hw) Kernel option" where
  "test_efi_main P msg_of tests image_handle k =
     Option.bind (init_basic_runtime P image_handle k) (\<lambda>(r, k). case r of
        Ok _ \<Rightarrow> test_runner P msg_of tests k
      | Err e \<Rightarrow> test_panic P msg_of e k
      | Panic e \<Rightarrow> test_panic P msg_of e k)"

section \<open>What the runner sends\<close>

text \<open>The lines of the tests that run, on the heaps that the tests before them leave.\<close>

fun transcript :: "(string \<times> unit on_heap) list \<Rightarrow> FirstFitAllocator \<Rightarrow> string" where
  "transcript [] h = []"
| "transcript (t # ts) h = ''[Runnning] >>> '' @ fst t @ [newline] @
     (case snd t h of Some (Ok _, h') \<Rightarrow> ''[Pass    ] <<< '' @ fst t @ [newline] @ transcript ts h' | _ \<Rightarrow> [])"

text \<open>\<open>sends P k k' s\<close>: from \<open>k\<close> to \<open>k'\<close> the characters of \<open>s\<close> go to the serial port, each after a ready status.\<close>

definition sends :: "('fw, 'p, 'hw) Kernel \<Rightarrow> ('fw, 'p, 'hw) Kernel \<Rightarrow> string \<Rightarrow> bool" where
  "sends k k' s \<longleftrightarrow> (\<exists>as. accesses (io (k_console k')) = accesses (io (k_console k)) @ as \<and> polled SerialPort_default (map of_char s) as)"

lemma sends_trans: "sends k k1 s \<Longrightarrow> sends k1 k2 t \<Longrightarrow> sends k k2 (s @ t)"
  using polled_append by (fastforce simp: sends_def)

lemma sends_same: "k_console k' = k_console k \<Longrightarrow> sends k k' []"
  by (simp add: sends_def)

lemma write_line_sends:
  assumes "gets_ready (ports P) SerialPort_default"
  shows "\<exists>k'. write_line P s k = Some (Ok (), k') \<and> kernel_heap k' = kernel_heap k \<and> sends k k' (s @ [newline])"
proof -
  have chars: "map of_nat (concat [map of_char s, [10]]) = (map of_char (s @ [newline]) :: u8 list)" by (simp add: o_def of_nat_of_char)
  from serial_pieces_polled [OF assms, of "[map of_char s, [10]]" "io (k_console k)"] obtain i as where
    "serial_pieces (ports P) [map of_char s, [10]] (io (k_console k)) = Some i" "accesses i = accesses (io (k_console k)) @ as"
    "polled SerialPort_default (map of_char (s @ [newline])) as" unfolding chars by blast
  then show ?thesis by (simp add: write_line_def kernel_heap_def sends_def)
qed

lemma run_test_sends:
  assumes "gets_ready (ports P) SerialPort_default" and "snd t (kernel_heap k) = Some (r, h')"
  shows "\<exists>k'. run_test P t k = Some (r, k') \<and> kernel_heap k' = h' \<and>
    sends k k' (''[Runnning] >>> '' @ fst t @ [newline] @ (if is_ok r then ''[Pass    ] <<< '' @ fst t @ [newline] else []))"
proof -
  from write_line_sends [OF assms(1), of "''[Runnning] >>> '' @ fst t" k] obtain k1 where
    1: "write_line P (''[Runnning] >>> '' @ fst t) k = Some (Ok (), k1)" "kernel_heap k1 = kernel_heap k"
      "sends k k1 (''[Runnning] >>> '' @ fst t @ [newline])" by auto
  from on_kernel_heap_run [where f = "snd t" and k = k1] assms(2) obtain k2 where
    2: "on_kernel_heap (snd t) k1 = Some (r, k2)" "kernel_heap k2 = h'" "k_console k2 = k_console k1" unfolding 1(2) by blast
  note 12 = sends_trans [OF 1(3) sends_same [OF 2(3)]]
  show ?thesis
  proof (cases "is_ok r")
    case True
    from write_line_sends [OF assms(1), of "''[Pass    ] <<< '' @ fst t" k2] obtain k3 where
      3: "write_line P (''[Pass    ] <<< '' @ fst t) k2 = Some (Ok (), k3)" "kernel_heap k3 = kernel_heap k2"
        "sends k2 k3 (''[Pass    ] <<< '' @ fst t @ [newline])" by auto
    with True 1(1) 2(1,2) sends_trans [OF 12 3(3)] show ?thesis by (auto simp: run_test_def is_ok_iff)
  next
    case False
    with 1(1) 2(1,2) 12 show ?thesis by (cases r) (auto simp: run_test_def)
  qed
qed

text \<open>The tests on the kernel do what they do one after the other on its heap.\<close>

lemma run_tests_sends:
  assumes "gets_ready (ports P) SerialPort_default"
  shows "for_each snd ts (kernel_heap k) = Some (r, h') \<Longrightarrow>
    \<exists>k'. for_each (run_test P) ts k = Some (r, k') \<and> kernel_heap k' = h' \<and> sends k k' (transcript ts (kernel_heap k))"
proof (induction ts arbitrary: k)
  case Nil
  then show ?case using sends_same by auto
next
  case (Cons t ts)
  then obtain r1 h1 where t: "snd t (kernel_heap k) = Some (r1, h1)" by (cases "snd t (kernel_heap k)") auto
  from run_test_sends [OF assms t] obtain k1 where
    1: "run_test P t k = Some (r1, k1)" "kernel_heap k1 = h1"
      "sends k k1 (''[Runnning] >>> '' @ fst t @ [newline] @ (if is_ok r1 then ''[Pass    ] <<< '' @ fst t @ [newline] else []))" by blast
  show ?case
  proof (cases r1)
    case (Ok u)
    with Cons.prems t 1(2) have "for_each snd ts (kernel_heap k1) = Some (r, h')" by simp
    from Cons.IH [OF this] obtain k2 where
      "for_each (run_test P) ts k1 = Some (r, k2)" "kernel_heap k2 = h'" "sends k1 k2 (transcript ts (kernel_heap k1))" by blast
    with Ok 1 t sends_trans [OF 1(3) this(3)] show ?thesis by auto
  qed (use Cons.prems 1 t in auto)
qed

text \<open>What follows the tests: the closing line, or the message of the panic handler.\<close>

definition last_line :: "(string \<Rightarrow> string) \<Rightarrow> nat \<Rightarrow> unit result \<Rightarrow> string" where
  "last_line msg_of n r = (case r of Ok _ \<Rightarrow> ''Completed '' @ fmt_dec n @ '' tests''
     | Err e \<Rightarrow> ''Panic duringt est: '' @ msg_of e | Panic e \<Rightarrow> ''Panic duringt est: '' @ msg_of e) @ [newline]"

definition whole_transcript :: "(string \<Rightarrow> string) \<Rightarrow> (string \<times> unit on_heap) list \<Rightarrow> FirstFitAllocator \<Rightarrow> unit result \<Rightarrow> string" where
  "whole_transcript msg_of ts h r =
     ''Running '' @ fmt_dec (length ts) @ '' tests'' @ [newline] @ transcript ts h @ last_line msg_of (length ts) r"

lemma quit_accesses: "accesses (io (k_console (quit P c k))) = accesses (io (k_console k)) @ [Out 0xF4 (exit_code c)]"
  by (simp add: quit_def exit_qemu_def write_io_port_u8_def)

lemma test_panic_sends:
  assumes "gets_ready (ports P) SerialPort_default"
  shows "\<exists>k1 k'. test_panic P msg_of e k = Some k' \<and> sends k k1 (''Panic duringt est: '' @ msg_of e @ [newline]) \<and> k' = quit P QemuFail k1"
  using write_line_sends [OF assms, of "''Panic duringt est: '' @ msg_of e" k] by (force simp: test_panic_def)

lemma test_runner_outcome:
  assumes ready: "gets_ready (ports P) SerialPort_default" and run: "for_each snd ts (kernel_heap k) = Some (r, h')"
  shows "\<exists>k1. test_runner P msg_of ts k = Some (quit P (if is_ok r then QemuSuccess else QemuFail) k1) \<and>
    sends k k1 (whole_transcript msg_of ts (kernel_heap k) r)"
proof -
  from write_line_sends [OF ready, of "''Running '' @ fmt_dec (length ts) @ '' tests''" k] obtain k1 where
    1: "write_line P (''Running '' @ fmt_dec (length ts) @ '' tests'') k = Some (Ok (), k1)" "kernel_heap k1 = kernel_heap k"
      "sends k k1 (''Running '' @ fmt_dec (length ts) @ '' tests'' @ [newline])" by auto
  from run_tests_sends [OF ready, of ts k1 r h'] run 1(2) obtain k2 where
    2: "for_each (run_test P) ts k1 = Some (r, k2)" "sends k1 k2 (transcript ts (kernel_heap k))" by auto
  note 12 = sends_trans [OF 1(3) 2(2)]
  have finish: "\<exists>k3. test_runner P msg_of ts k = Some (quit P (if is_ok r then QemuSuccess else QemuFail) k3) \<and>
      sends k2 k3 (last_line msg_of (length ts) r)"
  proof (cases r)
    case (Ok u)
    from write_line_sends [OF ready, of "''Completed '' @ fmt_dec (length ts) @ '' tests''" k2] obtain k3 where
      "write_line P (''Completed '' @ fmt_dec (length ts) @ '' tests'') k2 = Some (Ok (), k3)"
      "sends k2 k3 (''Completed '' @ fmt_dec (length ts) @ '' tests'' @ [newline])" by auto
    with Ok 1(1) 2(1) show ?thesis by (auto simp: test_runner_def run_all_def caught_def last_line_def)
  next
    case (Err e)
    with 1(1) 2(1) test_panic_sends [OF ready, of msg_of e k2] show ?thesis
      by (auto simp: test_runner_def run_all_def caught_def last_line_def)
  next
    case (Panic e)
    with 1(1) 2(1) test_panic_sends [OF ready, of msg_of e k2] show ?thesis
      by (auto simp: test_runner_def run_all_def caught_def last_line_def)
  qed
  with sends_trans [OF 12] show ?thesis by (fastforce simp: whole_transcript_def)
qed

text \<open>The lines of tests that all pass.\<close>

definition passed :: "(string \<times> unit on_heap) list \<Rightarrow> string" where
  "passed ts = concat (map (\<lambda>t. ''[Runnning] >>> '' @ fst t @ [newline] @ ''[Pass    ] <<< '' @ fst t @ [newline]) ts)"

lemma transcript_passed: "for_each snd ts h = Some (Ok (), h') \<Longrightarrow> transcript ts h = passed ts"
proof (induction ts arbitrary: h)
  case (Cons t ts)
  then obtain h1 where "snd t h = Some (Ok (), h1)" "for_each snd ts h1 = Some (Ok (), h')" by (auto simp: sbind_eq_Ok)
  with Cons.IH show ?case by (simp add: passed_def)
qed (simp add: passed_def)

lemma unit_tests_run:
  "set ts \<subseteq> set (unit_tests m) \<Longrightarrow> first_block h a z \<Longrightarrow> 6000000 * length ts \<le> z \<Longrightarrow> \<exists>h'. for_each snd ts h = Some (Ok (), h')"
proof (induction ts arbitrary: h z)
  case (Cons t ts)
  have "t \<in> set (unit_tests m)" "6000000 \<le> z" using Cons.prems by simp_all
  from unit_test_passes [OF this(1) Cons.prems(2) this(2)] obtain h1 z1 where
    1: "snd t h = Some (Ok (), h1)" "first_block h1 a z1" "z \<le> z1 + 6000000" by blast
  have "6000000 * length ts \<le> z1" using 1(3) Cons.prems(3) by simp
  with Cons.IH [OF _ 1(2)] Cons.prems(1) 1(1) show ?case by simp
qed simp

section \<open>Properties\<close>

text \<open>
  Whatever the tests are, if they return on the kernel's heap, the runner does: it sends the lines of the tests in order,
  each after a ready status, ends with the number of tests or the text of the panic, and writes 1 to the exit port if every
  test passed and 2 if one panicked, after which no further test has run.
\<close>

theorem test_runner_exits:
  assumes "gets_ready (ports P) SerialPort_default" and "for_each snd ts (kernel_heap k) = Some (r, h')"
  shows "\<exists>k' as. test_runner P msg_of ts k = Some k' \<and>
    polled SerialPort_default (map of_char (whole_transcript msg_of ts (kernel_heap k) r)) as \<and>
    accesses (io (k_console k')) = accesses (io (k_console k)) @ as @ [Out 0xF4 (if is_ok r then 1 else 2)]"
proof -
  from test_runner_outcome [OF assms] obtain k1 where
    "test_runner P msg_of ts k = Some (quit P (if is_ok r then QemuSuccess else QemuFail) k1)"
    "sends k k1 (whole_transcript msg_of ts (kernel_heap k) r)" by blast
  then show ?thesis by (auto simp: sends_def quit_accesses)
qed

theorem test_runner_exits_witness:
  "\<exists>k' as. test_runner example_platform (\<lambda>e. e) [(''one'', \<lambda>h. Some (Panic ''failed'', h)), (''two'', \<lambda>h. Some (Ok (), h))] example_kernel = Some k' \<and>
     accesses (io (k_console k')) = as @ [Out 0xF4 2] \<and>
     polled SerialPort_default (map of_char (''Running 2 tests'' @ [newline] @ ''[Runnning] >>> one'' @ [newline] @
       ''Panic duringt est: failed'' @ [newline])) as"
proof -
  let ?ts = "[(''one'', \<lambda>h. Some (Panic ''failed'', h)), (''two'', \<lambda>h. Some (Ok (), h))] :: (string \<times> unit on_heap) list"
  have ready: "gets_ready (ports example_platform) SerialPort_default" using uart16550_gets_ready by (simp add: example_platform_def)
  have chars: "whole_transcript (\<lambda>e. e) ?ts h (Panic ''failed'') = ''Running 2 tests'' @ [newline] @ ''[Runnning] >>> one'' @ [newline] @
       ''Panic duringt est: failed'' @ [newline]" for h
    by (simp add: whole_transcript_def last_line_def fmt_dec_def digits_base.simps digit_char_def)
  have "for_each snd ?ts (kernel_heap example_kernel) = Some (Panic ''failed'', kernel_heap example_kernel)" by simp
  from test_runner_exits [OF ready this, of "\<lambda>e. e"] show ?thesis unfolding chars
    by (auto simp: example_kernel_def example_console_def)
qed


definition test_descriptor :: EfiMemoryDescriptor where
  "test_descriptor = example_descriptor\<lparr>number_of_pages := 0x3000\<rparr>"

definition test_platform :: "(nat, Uart, unit) Platform" where
  "test_platform = example_platform\<lparr>get_memory_map := \<lambda>fw m. (0, boot_map\<lparr>memory_map_buffer := Uefi.encode_descriptor test_descriptor\<rparr>, fw)\<rparr>"

lemma test_map_iter:
  "memory_map_iter (boot_map\<lparr>memory_map_buffer := Uefi.encode_descriptor test_descriptor\<rparr>) = Some (Ok [test_descriptor])"
  using iter_from_entries [of "boot_map\<lparr>memory_map_buffer := Uefi.encode_descriptor test_descriptor\<rparr>" "[]" "[(test_descriptor, [])]" "[]"]
  by (simp add: memory_map_iter_def boot_map_def)


end
