(* ===== verification/BootFlow.thy ===== *)
theory BootFlow
  imports Boot
begin

text \<open>
  The boot as a whole: \<open>efi_main\<close> from the first message to the executor. The lemmas follow the console through the
  messages: \<open>console_ready v n k\<close> says that the console of \<open>k\<close> draws on the screen \<open>v\<close>, that its mutex is free, and that
  \<open>n\<close> more characters fit before a coordinate overflows.
\<close>

section \<open>Messages during the boot\<close>

definition console_ready :: "VramBufferInfo \<Rightarrow> nat \<Rightarrow> 'p Console \<Rightarrow> bool" where
  "console_ready v n c \<longleftrightarrow> (\<exists>w. GLOBAL_VRAM_WRITER c = \<lparr>mutex_data = Some w, is_taken = False\<rparr> \<and> tw_buf w = vram_bitmap v \<and> cursor_room n (cursor w))"

lemma cursor_room_mono: "cursor_room n p \<Longrightarrow> m \<le> n \<Longrightarrow> cursor_room m p"
  by (cases p) (auto simp: cursor_room_def)

lemma console_ready_mono: "console_ready v n c \<Longrightarrow> m \<le> n \<Longrightarrow> console_ready v m c"
  unfolding console_ready_def using cursor_room_mono by blast

text \<open>Steps that leave the rest of the kernel alone.\<close>

definition same_machine :: "('fw, 'p, 'hw) Kernel \<Rightarrow> ('fw, 'p, 'hw) Kernel \<Rightarrow> bool" where
  "same_machine k k' \<longleftrightarrow> k_attach k' = k_attach k \<and> k_regs k' = k_regs k \<and> k_hpet k' = k_hpet k \<and> k_executor k' = k_executor k"

lemma same_machine_refl: "same_machine k k"
  by (simp add: same_machine_def)

lemma same_machine_trans: "same_machine k k1 \<Longrightarrow> same_machine k1 k2 \<Longrightarrow> same_machine k k2"
  by (simp add: same_machine_def)

lemma unat_byte: "unat (b :: u8) < 2 ^ 8"
  using unsigned_less [of b] by simp

lemma unat_quad: "unat (q :: u64) < 2 ^ 64"
  using unsigned_less [of q] by simp

lemma length_decimal: "n < 10 ^ 20 \<Longrightarrow> length (fmt_dec n) \<le> 20"
  using length_digits [of 10 20 n] by (simp add: fmt_dec_def)

lemma length_log_line: "n < 1000 \<Longrightarrow> length (log_line ''INFO'' file n body) = 13 + length file + length body"
  using length_digits [of 10 3 n] by (simp add: log_line_def pad_right_def fmt_dec_def)

lemma println_ready:
  assumes "gets_ready D SerialPort_default" and "vram_ok v" and "console_ready v (n + length msg + 1) c"
  shows "\<exists>c'. println D font msg c = Some (Ok (), c') \<and> console_ready v n c'"
proof -
  let ?ps = "[map of_char msg, [10]] :: nat list list"
  obtain w where w: "GLOBAL_VRAM_WRITER c = \<lparr>mutex_data = Some w, is_taken = False\<rparr>" "tw_buf w = vram_bitmap v"
    "cursor_room (n + length msg + 1) (cursor w)" using assms(3) by (auto simp: console_ready_def)
  have len: "length (concat ?ps) + n = n + length msg + 1" by simp
  have "cursor_room (length (concat ?ps)) (cursor w)" using w(3) by (rule cursor_room_mono) simp
  with global_print_outcome [OF assms(1) _ _ assms(2) w(2), of c ?ps font] w(1) obtain c' w' where
    p: "global_print D font ?ps c = Some (Ok (), c')" "GLOBAL_VRAM_WRITER c' = \<lparr>mutex_data = Some w', is_taken = False\<rparr>"
      "draws v (concat ?ps) (w, screen c) (w', screen c')" by auto
  have "cursor_room n (cursor w')"
    using cursor_room_fold [of "concat ?ps" n "cursor w"] w(3) p(3) unfolding len by (simp add: draws_def)
  with p w(2) show ?thesis by (auto simp: println_def console_ready_def draws_def)
qed

text \<open>
  A step that says something: it returns, uses room for \<open>m\<close> characters on the screen and changes nothing but the
  console.
\<close>

definition says :: "VramBufferInfo \<Rightarrow> nat \<Rightarrow> (unit, ('fw, 'p, 'hw) Kernel) step \<Rightarrow> ('fw, 'p, 'hw) Kernel \<Rightarrow> bool" where
  "says v m f k \<longleftrightarrow> (\<forall>n. console_ready v (n + m) (k_console k) \<longrightarrow>
     (\<exists>k'. f k = Some (Ok (), k') \<and> console_ready v n (k_console k') \<and> same_machine k k'))"

lemma says_more: "says v m f k \<Longrightarrow> m \<le> n \<Longrightarrow> says v n f k"
  unfolding says_def by (meson console_ready_mono add_left_mono)

lemma says_nothing: "f k = Some (Ok (), k) \<Longrightarrow> says v 0 f k"
  by (simp add: says_def same_machine_refl)

lemma says_bind:
  assumes "says v l f k" and "\<And>k'. same_machine k k' \<Longrightarrow> says v m (g ()) k'"
  shows "says v (l + m) (\<lambda>k. sbind (f k) g) k"
  unfolding says_def
proof (intro allI impI)
  fix n assume "console_ready v (n + (l + m)) (k_console k)"
  then have "console_ready v ((n + m) + l) (k_console k)" by (simp add: ac_simps)
  with assms(1) obtain k1 where k1: "f k = Some (Ok (), k1)" "console_ready v (n + m) (k_console k1)" "same_machine k k1"
    unfolding says_def by blast
  with assms(2) obtain k2 where "g () k1 = Some (Ok (), k2)" "console_ready v n (k_console k2)" "same_machine k1 k2"
    unfolding says_def by blast
  with k1 show "\<exists>k'. sbind (f k) g = Some (Ok (), k') \<and> console_ready v n (k_console k') \<and> same_machine k k'"
    using same_machine_trans by auto
qed

lemma saysD: "says v m f k \<Longrightarrow> console_ready v (n + m) (k_console k) \<Longrightarrow>
    \<exists>k'. f k = Some (Ok (), k') \<and> console_ready v n (k_console k') \<and> same_machine k k'"
  by (simp add: says_def)

lemma say_says:
  assumes "gets_ready (ports P) SerialPort_default" and "vram_ok v" and "line < 1000" and "14 + length file + length body \<le> m"
  shows "says v m (say P file line body) k"
  unfolding says_def
proof (intro allI impI)
  fix n assume "console_ready v (n + m) (k_console k)"
  then have "console_ready v (n + length (log_line ''INFO'' file line body) + 1) (k_console k)"
    by (rule console_ready_mono) (use assms(4) in \<open>simp add: length_log_line [OF assms(3)]\<close>)
  from println_ready [OF assms(1,2) this, of "font_file P"]
  show "\<exists>k'. say P file line body k = Some (Ok (), k') \<and> console_ready v n (k_console k') \<and> same_machine k k'"
    by (auto simp: say_def on_console_def info_def same_machine_def)
qed

section \<open>The steps of the boot\<close>

lemma set_global_vram_ready:
  assumes "GLOBAL_VRAM_WRITER c = Mutex_new None"
  shows "\<exists>c'. set_global_vram v c = (Ok (), c') \<and> console_ready v (2 ^ 57) c'"
  using assms by (simp add: set_global_vram_def lock_eq guard_drop_def Mutex_new_def console_ready_def BitmapTextWriter_new_def
      cursor_def cursor_room_def)

lemma init_allocator_says:
  assumes "gets_ready (ports P) SerialPort_default" and "vram_ok v"
    and "memory_map_iter m = Some (Ok es)" and "conventional_pages es * 4096 < 2 ^ 64"
  shows "says v 100 (init_allocator P m) k"
proof -
  from total_memory_size_mib_spec [of es] assms(4) obtain mib where mib: "total_memory_size_mib es = Ok mib" by auto
  have "unat mib < 10 ^ 20" by (rule less_trans [OF unat_quad]) simp
  then have "says v 100 (say P ''src/init.rs'' 96 (''Total memory size: '' @ fmt_dec (unat mib) @ '' MiB'')) k"
    using length_decimal [of "unat mib"] by (intro say_says [OF assms(1,2)]) simp_all
  then show ?thesis using assms(3) mib by (simp add: says_def init_allocator_def)
qed

text \<open>A timer behind the ACPI tables that \<open>Hpet::new\<close> accepts.\<close>

definition timer_found :: "('fw, 'p, 'hw) Platform \<Rightarrow> usize \<Rightarrow> Hpet \<Rightarrow> bool" where
  "timer_found P acpi h \<longleftrightarrow> (\<exists>t a. rsdp_hpet (acpi_memory P) acpi = Ok (Some t) \<and> hpet_base_address (acpi_memory P) t = Ok a \<and>
     Hpet_new (hpet_at P a) = Ok h)"

lemma mem_le_less: "mem_le mem a n < 256 ^ n"
  using from_le_bytes_less [of "mem_bytes mem a n"] by (simp add: mem_le_def)

lemma kernel_init_hpet_says:
  assumes "gets_ready (ports P) SerialPort_default" and "vram_ok v" and "timer_found P acpi h" and "k_hpet k = None"
    and "console_ready v (n + 100) (k_console k)"
  shows "\<exists>k'. kernel_init_hpet P acpi k = Some (Ok (), k'\<lparr>k_hpet := Some h\<rparr>) \<and> console_ready v n (k_console k') \<and> same_machine k k'"
proof -
  from assms(3) obtain t a where t: "rsdp_hpet (acpi_memory P) acpi = Ok (Some t)" "hpet_base_address (acpi_memory P) t = Ok a"
    "Hpet_new (hpet_at P a) = Ok h" by (auto simp: timer_found_def)
  have "a < 256 ^ 8" using t(2) mem_le_less [of "acpi_memory P" _ 8]
    by (auto simp: hpet_base_address_def adddress_in_memory_space_def simp del: power_numeral split: if_splits)
  then have "length (fmt_hex_lower 18 a) = 18" by (intro length_hex) simp_all
  then have "says v 100 (say P ''src/init.rs'' 82 (''HPET is at '' @ fmt_hex_lower 18 a)) k"
    by (intro say_says [OF assms(1,2)]) simp_all
  from saysD [OF this assms(5)] obtain k' where k': "say P ''src/init.rs'' 82 (''HPET is at '' @ fmt_hex_lower 18 a) k = Some (Ok (), k')"
    "console_ready v n (k_console k')" "same_machine k k'" by blast
  with t assms(4) show ?thesis
    by (auto simp: kernel_init_hpet_def give_def ok_or_def set_global_hpet_def same_machine_def)
qed

text \<open>A PCI bus without a supported controller, or no table that leads to it.\<close>

definition no_xhci :: "('fw, 'p, 'hw) Platform \<Rightarrow> usize \<Rightarrow> 'hw \<Rightarrow> bool" where
  "no_xhci P acpi hw \<longleftrightarrow> rsdp_mcfg (acpi_memory P) acpi = Ok None \<or>
     (\<exists>mcfg pci. rsdp_mcfg (acpi_memory P) acpi = Ok (Some mcfg) \<and> Pci_new (acpi_memory P) mcfg = Ok pci \<and>
       ecm_start pci + 2 ^ 28 \<le> 2 ^ 64 \<and> (\<forall>j. \<not> xhci_at (config_space P) pci hw j))"

lemma sbind_unit: "sbind m (\<lambda>_ :: unit. for_each f []) = m"
  by (cases m) (auto simp: sbind_def split: result.splits)

lemma init_pci_says:
  assumes "gets_ready (ports P) SerialPort_default" and "vram_ok v" and "no_xhci P acpi (at_hw (k_attach k))"
  shows "says v 200 (init_pci P acpi) k"
proof (cases "rsdp_mcfg (acpi_memory P) acpi = Ok None")
  case True
  then have "init_pci P acpi k = Some (Ok (), k)" by (simp add: init_pci_def give_def)
  then show ?thesis by (rule says_more [OF says_nothing]) simp
next
  case False
  with assms(3) obtain mcfg pci where m: "rsdp_mcfg (acpi_memory P) acpi = Ok (Some mcfg)" "Pci_new (acpi_memory P) mcfg = Ok pci"
    "ecm_start pci + 2 ^ 28 \<le> 2 ^ 64" "\<And>j. \<not> xhci_at (config_space P) pci (at_hw (k_attach k)) j" by (auto simp: no_xhci_def)
  let ?e = "mcfg + mcfg_header_size"
  have n: "mcfg_num_of_entries (acpi_memory P) mcfg = Ok 1"
    using m(2) by (cases "mcfg_num_of_entries (acpi_memory P) mcfg") (auto simp: Pci_new_def split: if_splits)
  have entry: "mcfg_entry (acpi_memory P) mcfg 0 = Ok (Some ?e)" by (simp add: mcfg_entry_def n)
  have small: "length (fmt_dec (unat (b :: u8))) \<le> 20" for b by (intro length_decimal less_trans [OF unat_byte]) simp
  have hex: "length (fmt_hex_lower 0 (unat (b :: u64))) \<le> 18" for b
    using unat_quad [of b] length_digits_16 [of 16 "unat b"] by (simp add: fmt_hex_lower_def pad_left_def)
  have line: "says v 140 (say P ''src/init.rs'' 110 (ecam_line (acpi_memory P) ?e)) k'" for k'
    using small [of "start_pci_bus (acpi_memory P) ?e"] small [of "end_pci_bus (acpi_memory P) ?e"] hex [of "ecam_base_address (acpi_memory P) ?e"]
    by (intro say_says [OF assms(1,2)]) (simp_all add: ecam_line_def)
  have probe: "probe_devices (config_space P) (\<lambda>k. at_hw (k_attach k)) (attach_xhci P pci) pci k' = Some (Ok (), k')"
    if "same_machine k k'" for k'
    using that m(4) by (intro probe_devices_idle [OF m(3)]) (simp add: same_machine_def)
  have "says v 60 (say P ''src/pci.rs'' 182 ''PCI device probing completed'') k'" for k'
    by (intro say_says [OF assms(1,2)]) simp_all
  then have "says v (140 + 60) (\<lambda>k. sbind (say P ''src/init.rs'' 110 (ecam_line (acpi_memory P) ?e) k) (\<lambda>_ k.
      sbind (probe_devices (config_space P) (\<lambda>k. at_hw (k_attach k)) (attach_xhci P pci) pci k) (\<lambda>_.
        say P ''src/pci.rs'' 182 ''PCI device probing completed''))) k"
    by (intro says_bind [OF line]) (simp add: probe says_def)
  moreover have "for_each (show_ecam_entry P mcfg) [0..<1] k = say P ''src/init.rs'' 110 (ecam_line (acpi_memory P) ?e) k"
    by (simp add: show_ecam_entry_def give_def entry sbind_unit)
  then have "init_pci P acpi k = sbind (say P ''src/init.rs'' 110 (ecam_line (acpi_memory P) ?e) k) (\<lambda>_ k.
      sbind (probe_devices (config_space P) (\<lambda>k. at_hw (k_attach k)) (attach_xhci P pci) pci k) (\<lambda>_.
        say P ''src/pci.rs'' 182 ''PCI device probing completed''))"
    using m(1,2) n by (simp add: init_pci_def give_def)
  ultimately show ?thesis by (simp add: says_def)
qed

lemma start_global_executor_says:
  assumes "gets_ready (ports P) SerialPort_default" and "vram_ok v"
  shows "says v 120 (start_global_executor P) k"
proof -
  have "says v 60 (say P ''src/executor.rs'' 167 ''Starting global executor'') k" "says v 60 (say P ''src/executor.rs'' 91 ''Executor started'') k'" for k'
    by (intro say_says [OF assms]; simp)+
  from says_bind [OF this] show ?thesis by (simp add: start_global_executor_def [abs_def])
qed

section \<open>Properties\<close>

lemma boot_memory:
  fixes rank :: "'fw \<Rightarrow> nat" and P :: "('fw, 'p, 'hw) Platform"
  assumes get: "\<And>fw m. fst (get_memory_map P fw m) = 0 \<and> rank (snd (snd (get_memory_map P fw m))) \<le> rank fw"
    and exit: "\<And>fw i. fst (exit_boot_services P fw handle i) \<noteq> 0 \<Longrightarrow> rank (snd (exit_boot_services P fw handle i)) < rank fw"
    and map: "\<And>fw m. memory_map_iter (fst (snd (get_memory_map P fw m))) = Some (Ok es)"
    and regions: "list_all desc_ok es" "regions_ok (rev (free_regions es))" and total: "conventional_pages es * 4096 < 2 ^ 64"
    and first: "rev (free_regions es) = (a, sz, False) # rs" "529632 \<le> sz"
    and port: "gets_ready (ports P) SerialPort_default" and screen: "vram_ok v"
    and k: "kernel_heap k = ALLOCATOR_init" "console_ready v (n + 100) (k_console k)"
  shows "\<exists>m k1 k2 h0 w i regs k3. init_basic_runtime P handle k = Some (Ok m, k1) \<and> init_allocator P m k1 = Some (Ok (), k2) \<and>
    on_kernel_heap (init_exceptions (entry_points P) (k_regs k2)) k2 = Some (Ok (w, i, regs), k3) \<and>
    represents h0 (rev (free_regions es)) \<and> tables_loaded (entry_points P) (w, i, regs) \<and>
    new_regions h0 (table_regions w i) (kernel_heap k3) \<and> heap_inv (kernel_heap k3) \<and>
    console_ready v n (k_console k3) \<and> k_hpet k3 = k_hpet k \<and> k_executor k3 = k_executor k \<and>
    at_hw (k_attach k3) = at_hw (k_attach k) \<and> at_spawned (k_attach k3) = at_spawned (k_attach k)"
proof -
  from init_basic_runtime_outcome [where P = P, OF get exit map regions k(1)] obtain m k1 where
    k1: "init_basic_runtime P handle k = Some (Ok m, k1)" "memory_map_iter m = Some (Ok es)"
      "represents (kernel_heap k1) (rev (free_regions es))" "outside_heap k1 = outside_heap k" by blast
  then have "console_ready v (n + 100) (k_console k1)" using k(2) by (simp add: outside_heap_def)
  from saysD [OF init_allocator_says [OF port screen k1(2) total] this] obtain k2 where
    k2: "init_allocator P m k1 = Some (Ok (), k2)" "console_ready v n (k_console k2)" "same_machine k1 k2" by blast
  then have heap: "kernel_heap k2 = kernel_heap k1" by (simp add: same_machine_def kernel_heap_def)
  then have rep: "represents (kernel_heap k2) ((a, sz, False) # rs)" using k1(3) first(1) by simp
  then have "roomy (kernel_heap k2) 529632" "heap_inv (kernel_heap k2)" using first(2) unfolding roomy_def heap_inv_def by blast+
  with init_exceptions_outcome [OF this(2), of "entry_points P" "k_regs k2"] obtain w i regs h where
    x: "init_exceptions (entry_points P) (k_regs k2) (kernel_heap k2) = Some (Ok (w, i, regs), h)" "heap_inv h"
      "tables_loaded (entry_points P) (w, i, regs)" "new_regions (kernel_heap k2) (table_regions w i) h"
    by (fastforce split: result.splits)
  from on_kernel_heap_run [where f = "init_exceptions (entry_points P) (k_regs k2)", OF x(1)] obtain k3 where
    "on_kernel_heap (init_exceptions (entry_points P) (k_regs k2)) k2 = Some (Ok (w, i, regs), k3)" "kernel_heap k3 = h"
    "outside_heap k3 = outside_heap k2" by blast
  with x(2-4) k1 k2 heap show ?thesis
    by (intro exI [of _ m] exI [of _ k1] exI [of _ k2] exI [of _ "kernel_heap k1"] exI [of _ w] exI [of _ i] exI [of _ regs] exI [of _ k3])
       (simp add: outside_heap_def same_machine_def)
qed

text \<open>The screen and the tables the firmware describes, and the kernel before its first instruction.\<close>

definition screen_found :: "('fw, 'p, 'hw) Platform \<Rightarrow> VramBufferInfo \<Rightarrow> bool" where
  "screen_found P v \<longleftrightarrow> init_vram (locate_protocol P) EFI_GRAPHICS_OUTPUT_PROTOCOL_GUID = Ok v \<and> vram_ok v \<and>
     129 \<le> vram_width v \<and> vram_width v \<le> vram_pixels_per_line v \<and> 256 \<le> vram_height v"

definition fresh_kernel :: "('fw, 'p, 'hw) Kernel \<Rightarrow> bool" where
  "fresh_kernel k \<longleftrightarrow> kernel_heap k = ALLOCATOR_init \<and> GLOBAL_VRAM_WRITER (k_console k) = Mutex_new None \<and> k_hpet k = None \<and>
     k_executor k = None \<and> at_spawned (k_attach k) = []"

lemma boot_screen:
  assumes "gets_ready (ports P) SerialPort_default" and "screen_found P v" and "fresh_kernel k"
    and "fst (handle_protocol P EFI_LOADED_IMAGE_PROTOCOL_GUID) = 0"
  shows "\<exists>k1. efi_main P handle k = sbind (give (unwrap (ok_or (acpi_table (configuration_table P)) ''failed to get ACPI table'')) k1) (\<lambda>acpi k.
     sbind (init_basic_runtime P handle k) (\<lambda>memory_map k.
     sbind (init_allocator P memory_map k) (\<lambda>_ k.
     sbind (on_kernel_heap (init_exceptions (entry_points P) (k_regs k)) k) (\<lambda>(gdt, idt, regs) k.
     sbind (kernel_init_hpet P (unat acpi) (k\<lparr>k_regs := regs\<rparr>)) (\<lambda>_ k.
     sbind (init_pci P (unat acpi) k) (\<lambda>_ k.
     start_global_executor P (spawn_tasks SerialStart k))))))) \<and>
   console_ready v (2 ^ 57) (k_console k1) \<and> same_machine k k1"
proof -
  let ?c = "k_console k"
  have free: "\<not> is_taken (GLOBAL_VRAM_WRITER ?c)" "mutex_data (GLOBAL_VRAM_WRITER ?c) = None"
    using assms(3) by (simp_all add: fresh_kernel_def Mutex_new_def)
  from global_print_no_screen [OF assms(1) free, of "font_file P" "[map of_char ''[mushix] Starting up...'', [10]]"] obtain c1 where
    c1: "println (ports P) (font_file P) ''[mushix] Starting up...'' ?c = Some (Ok (), c1)" "GLOBAL_VRAM_WRITER c1 = GLOBAL_VRAM_WRITER ?c"
    unfolding println_def by blast
  from init_display_returns [of v "font_file P" "screen c1"] assms(2) obtain px where
    px: "init_display (font_file P) v (screen c1) = Ok px" by (auto simp: screen_found_def)
  have "GLOBAL_VRAM_WRITER (c1\<lparr>screen := px\<rparr>) = Mutex_new None" using c1(2) assms(3) by (simp add: fresh_kernel_def)
  from set_global_vram_ready [OF this, of v] obtain c2 where
    c2: "set_global_vram v (c1\<lparr>screen := px\<rparr>) = (Ok (), c2)" "console_ready v (2 ^ 57) c2" by blast
  have "unwrap (locate_loaded_image_protocol (handle_protocol P)) = Ok (snd (handle_protocol P EFI_LOADED_IMAGE_PROTOCOL_GUID))"
    using assms(4) by (cases "handle_protocol P EFI_LOADED_IMAGE_PROTOCOL_GUID") (simp add: locate_loaded_image_protocol_def)
  with c1(1) px c2 assms(2) show ?thesis
    by (intro exI [of _ "k\<lparr>k_console := c2\<rparr>"]) (simp add: efi_main_def on_console_def give_def screen_found_def same_machine_def)
qed

lemma efi_main_boots:
  fixes rank :: "'fw \<Rightarrow> nat" and P :: "('fw, 'p, 'hw) Platform"
  assumes port: "gets_ready (ports P) SerialPort_default" and screen: "screen_found P v"
    and image: "fst (handle_protocol P EFI_LOADED_IMAGE_PROTOCOL_GUID) = 0"
    and get: "\<And>fw m. fst (get_memory_map P fw m) = 0 \<and> rank (snd (snd (get_memory_map P fw m))) \<le> rank fw"
    and exit: "\<And>fw i. fst (exit_boot_services P fw handle i) \<noteq> 0 \<Longrightarrow> rank (snd (exit_boot_services P fw handle i)) < rank fw"
    and map: "\<And>fw m. memory_map_iter (fst (snd (get_memory_map P fw m))) = Some (Ok es)"
    and regions: "list_all desc_ok es" "regions_ok (rev (free_regions es))" and total: "conventional_pages es * 4096 < 2 ^ 64"
    and first: "rev (free_regions es) = (a, sz, False) # rs" "529632 \<le> sz"
    and acpi: "acpi_table (configuration_table P) = Some acpi" and timer: "timer_found P (unat acpi) h"
    and pci: "no_xhci P (unat acpi) (at_hw (k_attach k))" and fresh: "fresh_kernel k"
  shows "\<exists>k' h0 w i. efi_main P handle k = Some (Ok (), k') \<and> k_hpet k' = Some h \<and>
    represents h0 (rev (free_regions es)) \<and> tables_loaded (entry_points P) (w, i, k_regs k') \<and>
    new_regions h0 (table_regions w i) (kernel_heap k') \<and> heap_inv (kernel_heap k') \<and>
    queue_of (k_executor k') = [SerialMonitor SerialStart] \<and> console_ready v (2 ^ 56) (k_console k')"
proof -
  have v: "vram_ok v" using screen by (simp add: screen_found_def)
  from boot_screen [OF port screen fresh image, of handle] obtain k1 where
    k1: "efi_main P handle k = sbind (init_basic_runtime P handle k1) (\<lambda>memory_map k.
      sbind (init_allocator P memory_map k) (\<lambda>_ k.
      sbind (on_kernel_heap (init_exceptions (entry_points P) (k_regs k)) k) (\<lambda>(gdt, idt, regs) k.
      sbind (kernel_init_hpet P (unat acpi) (k\<lparr>k_regs := regs\<rparr>)) (\<lambda>_ k.
      sbind (init_pci P (unat acpi) k) (\<lambda>_ k. start_global_executor P (spawn_tasks SerialStart k))))))"
      "console_ready v (2 ^ 57) (k_console k1)" "same_machine k k1"
    using acpi by (auto simp: give_def ok_or_def)
  have k1': "kernel_heap k1 = ALLOCATOR_init" "console_ready v ((2 ^ 56 + 420) + 100) (k_console k1)"
    using k1(2,3) fresh by (simp_all add: fresh_kernel_def same_machine_def kernel_heap_def console_ready_mono [OF k1(2)])
  from boot_memory [where P = P, OF get exit map regions total first port v k1'] obtain m k2 k3 h0 w i regs k4 where
    mem: "init_basic_runtime P handle k1 = Some (Ok m, k2)" "init_allocator P m k2 = Some (Ok (), k3)"
      "on_kernel_heap (init_exceptions (entry_points P) (k_regs k3)) k3 = Some (Ok (w, i, regs), k4)"
      "represents h0 (rev (free_regions es))" "tables_loaded (entry_points P) (w, i, regs)"
      "new_regions h0 (table_regions w i) (kernel_heap k4)" "heap_inv (kernel_heap k4)"
      "console_ready v (2 ^ 56 + 420) (k_console k4)" "k_hpet k4 = k_hpet k1" "k_executor k4 = k_executor k1"
      "at_hw (k_attach k4) = at_hw (k_attach k1)" "at_spawned (k_attach k4) = at_spawned (k_attach k1)" by blast
  define k5 where "k5 = k4\<lparr>k_regs := regs\<rparr>"
  have "k_hpet k5 = None" "console_ready v ((2 ^ 56 + 320) + 100) (k_console k5)"
    using mem(8,9) k1(3) fresh by (simp_all add: k5_def same_machine_def fresh_kernel_def)
  from kernel_init_hpet_says [OF port v timer this] obtain k6 where
    k6: "kernel_init_hpet P (unat acpi) k5 = Some (Ok (), k6\<lparr>k_hpet := Some h\<rparr>)" "console_ready v (2 ^ 56 + 320) (k_console k6)"
      "same_machine k5 k6" by blast
  let ?k = "k6\<lparr>k_hpet := Some h\<rparr>"
  have "at_hw (k_attach ?k) = at_hw (k_attach k)" using k6(3) mem(11) k1(3) by (simp add: same_machine_def k5_def)
  with pci have "says v 200 (init_pci P (unat acpi)) ?k" by (intro init_pci_says [OF port v]) simp
  moreover have "console_ready v ((2 ^ 56 + 120) + 200) (k_console ?k)" using k6(2) by simp
  ultimately obtain k7 where k7: "init_pci P (unat acpi) ?k = Some (Ok (), k7)" "console_ready v (2 ^ 56 + 120) (k_console k7)"
    "same_machine ?k k7" using saysD by blast
  let ?t = "spawn_tasks SerialStart k7"
  have "console_ready v (2 ^ 56 + 120) (k_console ?t)" using k7(2) by (simp add: spawn_tasks_def)
  with saysD [OF start_global_executor_says [OF port v]] obtain k8 where
    k8: "start_global_executor P ?t = Some (Ok (), k8)" "console_ready v (2 ^ 56) (k_console k8)" "same_machine ?t k8" by blast
  have run: "efi_main P handle k = Some (Ok (), k8)" using k1(1) mem(1-3) k6(1) k7(1) k8(1) by (simp add: k5_def)
  have "k_attach k8 = k_attach k4" "k_regs k8 = regs" "k_hpet k8 = Some h"
    using k8(3) k7(3) k6(3) by (simp_all add: same_machine_def spawn_tasks_def k5_def)
  moreover have "k_executor k7 = None" "at_spawned (k_attach k7) = []"
    using k7(3) k6(3) mem(10,12) k1(3) fresh by (simp_all add: same_machine_def k5_def fresh_kernel_def)
  then have "queue_of (k_executor k8) = [SerialMonitor SerialStart]"
    using k8(3) by (simp add: same_machine_def spawn_tasks_def spawn_global_def enqueue_def Executor_new_def task_queue_def queue_of_def)
  ultimately show ?thesis using run mem(4-7) k8(2) unfolding kernel_heap_def by (intro exI conjI) auto
qed


text \<open>
  A machine with a screen of 640 by 480, the memory of the example in \<open>Acpi\<close> with a table of the timer at \<open>0x180\<close>,
  and functions on its bus that do not answer.
\<close>

definition hpet_table :: "u8 list" where
  "hpet_table = HPET_SIGNATURE @ to_le_bytes 4 56 @ replicate 36 0 @ to_le_bytes 8 0xFED00000 @ replicate 4 0"

definition boot_acpi :: memory where
  "boot_acpi a = (if 0x180 \<le> a \<and> a < 0x180 + 56 then hpet_table ! (a - 0x180) else example_acpi a)"

definition boot_platform :: "(nat, Uart, unit) Platform" where
  "boot_platform = example_platform\<lparr>locate_protocol := (\<lambda>g. (0, \<lparr>horizontal_resolution = 640, vertical_resolution = 480,
       pixels_per_scan_line = 640, frame_buffer_base = 0x80000000\<rparr>)),
     configuration_table := [\<lparr>vendor_guid = EFI_ACPI_TABLE_GUID, vendor_table = 0x10\<rparr>],
     acpi_memory := boot_acpi, config_space := one_xhci\<lparr>cfg_read16 := (\<lambda>hw a. 0xFFFF)\<rparr>\<rparr>"

definition boot_kernel :: "(nat, Uart, unit) Kernel" where
  "boot_kernel = example_kernel\<lparr>k_console := example_console\<lparr>GLOBAL_VRAM_WRITER := Mutex_new None\<rparr>\<rparr>"

lemma boot_acpi_find: "rsdp_find boot_acpi 0x10 sig = Ok (find (\<lambda>t. sdt_signature boot_acpi t = sig) [0x180, 0x200])"
proof -
  have "mem_bytes boot_acpi 0x28 8 = to_le_bytes 8 0x100"
    by (rule nth_equalityI) (simp_all add: mem_bytes_nth boot_acpi_def example_acpi_def)
  then have x: "rsdp_xsdt boot_acpi 0x10 = 0x100" by (simp add: rsdp_xsdt_def mem_le_def)
  let ?bs = "encode_xsdt [0x58, 0x53, 0x44, 0x54] (replicate 28 0) [0x180, 0x200]"
  have len: "length ?bs = 52" by (simp add: encode_xsdt_def)
  have "holds boot_acpi 0x100 ?bs" unfolding holds_def len
    by (rule nth_equalityI) (simp_all add: len mem_bytes_nth boot_acpi_def example_acpi_def)
  from rsdp_find_listed [of boot_acpi "0x10", unfolded x, OF this] show ?thesis by simp
qed

lemma boot_acpi_tables:
  "rsdp_hpet boot_acpi 0x10 = Ok (Some 0x180)" "rsdp_mcfg boot_acpi 0x10 = Ok (Some 0x200)"
  "hpet_base_address boot_acpi 0x180 = Ok 0xFED00000"
  "Pci_new boot_acpi 0x200 = Ok \<lparr>ecm_start = 0xB0000000, ecm_end = 0xB1000000\<rparr>"
proof -
  have s: "sdt_signature boot_acpi 0x180 = HPET_SIGNATURE" "sdt_signature boot_acpi 0x200 = MCFG_SIGNATURE"
    by (simp_all add: sdt_signature_def mem_bytes_def boot_acpi_def hpet_table_def example_acpi_def example_mcfg_def
        HPET_SIGNATURE_def MCFG_SIGNATURE_def upt_rec)
  then show "rsdp_hpet boot_acpi 0x10 = Ok (Some 0x180)" "rsdp_mcfg boot_acpi 0x10 = Ok (Some 0x200)"
    by (simp_all add: rsdp_hpet_def rsdp_mcfg_def boot_acpi_find) (simp add: HPET_SIGNATURE_def MCFG_SIGNATURE_def)
  have len: "length hpet_table = 56" "length example_mcfg = 60"
    by (simp_all add: hpet_table_def example_mcfg_def HPET_SIGNATURE_def MCFG_SIGNATURE_def)
  have h: "holds boot_acpi 0x180 hpet_table" unfolding holds_def len
    by (rule nth_equalityI) (simp_all add: len mem_bytes_nth boot_acpi_def)
  have m: "holds boot_acpi 0x200 example_mcfg" unfolding holds_def len
    by (rule nth_equalityI) (simp_all add: len mem_bytes_nth boot_acpi_def example_acpi_def)
  have "mem_le boot_acpi (0x180 + 44) 8 = le_at hpet_table 44 8" by (rule holds_le [OF h]) (simp add: len)
  also have "\<dots> = 0xFED00000" by (simp add: hpet_table_def HPET_SIGNATURE_def le_at_def bytes_at_def)
  finally show "hpet_base_address boot_acpi 0x180 = Ok 0xFED00000"
    by (simp add: hpet_base_address_def adddress_in_memory_space_def boot_acpi_def hpet_table_def HPET_SIGNATURE_def nth_append)
  have "mem_le boot_acpi (0x200 + 4) 4 = le_at example_mcfg 4 4" by (rule holds_le [OF m]) (simp add: len)
  also have "\<dots> = 60" by (simp add: example_mcfg_def MCFG_SIGNATURE_def le_at_def bytes_at_def)
  finally have n: "mcfg_num_of_entries boot_acpi 0x200 = Ok 1"
    by (simp add: mcfg_num_of_entries_def sdt_length_def mcfg_header_size_def sub_usize_def)
  have "mem_le boot_acpi (0x200 + 44) 8 = le_at example_mcfg 44 8" by (rule holds_le [OF m]) (simp add: len)
  also have "\<dots> = 0xB0000000" by (simp add: example_mcfg_def MCFG_SIGNATURE_def le_at_def bytes_at_def)
  finally show "Pci_new boot_acpi 0x200 = Ok \<lparr>ecm_start = 0xB0000000, ecm_end = 0xB1000000\<rparr>"
    by (simp add: Pci_new_def n mcfg_entry_def mcfg_header_size_def ecam_base_address_def ok_or_def add_usize_def)
qed


end
