(* ===== verification/Attach.thy ===== *)
theory Attach
  imports BringUp
begin

text \<open>
  Attaching the driver as a whole: \<open>PciXhciDriver::attach\<close> over the configuration space, the page tables that make the
  controller's registers uncached, and \<open>Controller::new\<close> on what is left of the heap.
\<close>

section \<open>The registers behind BAR 0\<close>

text \<open>\<open>BarMem64::disable_cach\<close> maps the pages of a BAR to themselves, uncached, and takes memory for tables only.\<close>

lemma disable_cach_maps:
  assumes inv: "pt_inv (cr3 s) (space s)" and bar: "bar_addr bar = of_nat (vp * 4096)" "unat (bar_size bar) = len" "0 < len" "vp * 4096 + len \<le> 2 ^ 48"
    and mem: "can_alloc (pt_heap (space s)) (tables_spanned 4 vp ((vp * 4096 + len + 4095) div 4096))"
  shows "\<exists>s'. disable_cach bar s = Some (Ok (), s') \<and> cr3 s' = cr3 s \<and> pt_inv (cr3 s') (space s') \<and>
    (\<forall>n < 2 ^ 36. pte (pt_tables (space s')) (cr3 s') n =
       (if vp \<le> n \<and> n * 4096 < vp * 4096 + len then of_nat (n * 4096) OR attr_bits ReadWriteIo
        else pte (pt_tables (space s)) (cr3 s) n)) \<and>
    (\<exists>k \<le> tables_spanned 4 vp ((vp * 4096 + len + 4095) div 4096). takes_pages k (pt_heap (space s)) (pt_heap (space s')))"
proof -
  let ?p = "of_nat (vp * 4096) :: u64"
  define ve :: u64 where "ve = of_nat (vp * 4096 + len)"
  define E where "E = (vp * 4096 + len + 4095) div 4096"
  have up: "unat ?p = vp * 4096" "unat ve = vp * 4096 + len"
    using bar(4) by (simp_all add: ve_def unat_of_nat del: of_nat_add of_nat_mult)
  have E: "E * 4096 \<le> vp * 4096 + len + 4095" "vp * 4096 + len + 4095 < E * 4096 + 4096"
    using dividend_less_div_times [of 4096 "vp * 4096 + len + 4095"] by (simp_all add: E_def)
  then have ends: "end_page ve E" "vp < E" "E \<le> 2 ^ 36" "unat ?p + E * 4096 \<le> 2 ^ 64"
    using bar(3,4) up by (simp_all add: end_page_def)
  from create_mapping_correct [OF inv ends(2,3,1) aligned_word ends(4) mem [folded E_def], of ReadWriteIo] obtain t where
    t: "create_mapping (cr3 s) ?p ve ?p ReadWriteIo (space s) = Some (Ok (), t)"
      "maps_range (cr3 s) ?p ReadWriteIo vp vp E (space s) t" "uses_tables (tables_spanned 4 vp E) (space s) t" by auto
  have "bar_size bar = of_nat len" using bar(2) [symmetric] by simp
  then have "add_word (bar_addr bar) (bar_size bar) = Ok ve" using up bar by (simp add: add_word_def ve_def del: of_nat_mult)
  then have "disable_cach bar s = Some (Ok (), s\<lparr>space := t\<rparr>)"
    using t(1) bar(1) by (simp add: disable_cach_def with_current_page_table_def read_cr3_def write_cr3_def on_tables_def expect_def del: of_nat_mult)
  moreover have "pte (pt_tables t) (cr3 s) n =
      (if vp \<le> n \<and> n * 4096 < vp * 4096 + len then of_nat (n * 4096) OR attr_bits ReadWriteIo else pte (pt_tables (space s)) (cr3 s) n)"
    if "n < 2 ^ 36" for n
  proof -
    have "n < E \<longleftrightarrow> n * 4096 < vp * 4096 + len" using E by linarith
    moreover have "?p + of_nat ((n - vp) * 4096) = of_nat (n * 4096)" if "vp \<le> n"
      using that by (simp add: of_nat_diff algebra_simps)
    ultimately show ?thesis using maps_range_pte [OF t(2) that] by (simp add: page_entry_def del: of_nat_mult)
  qed
  moreover have "\<exists>k \<le> tables_spanned 4 vp E. takes_pages k (pt_heap (space s)) (pt_heap t)"
    using t(3) by (simp add: uses_tables_def)
  ultimately show ?thesis using maps_range_inv [OF t(2)] by (intro exI [of _ "s\<lparr>space := t\<rparr>"]) (simp add: E_def)
qed

text \<open>The registers of the command word, at offset 4, are apart from BAR 0.\<close>

definition command_apart :: "'hw ConfigAccess \<Rightarrow> usize \<Rightarrow> bool" where
  "command_apart acc b \<longleftrightarrow>
     (\<forall>hw v. \<forall>x \<in> {b + 0x10, b + 0x14}. cfg_read32 acc (cfg_write32 acc hw (b + 4) v) x = cfg_read32 acc hw x)"

lemma set_flags_writes:
  "ecm_base pci bdf = Ok b \<Longrightarrow> set_command_and_status_flags acc pci bdf f hw = Ok (cfg_write32 acc hw (b + 4) (cfg_read32 acc hw (b + 4) OR f))"
  by (simp add: set_command_and_status_flags_def read_register_u32_def write_register_u32_def config_register_eq)

lemma command_keeps_bar:
  "ecm_base pci bdf = Ok b \<Longrightarrow> command_apart acc b \<Longrightarrow>
   read_register_u64 acc pci bdf 0x10 (cfg_write32 acc hw (b + 4) v) = read_register_u64 acc pci bdf 0x10 hw"
  by (simp add: register_u64_eq(1) command_apart_def)

text \<open>The first three steps of \<open>attach\<close>: two flags of the command word, and the address and size of the BAR.\<close>

lemma attach_config:
  assumes "ecm_base pci bdf = Ok b" and "command_apart acc b" and "bar_device acc (b + 0x10) k flags" and "4 \<le> k" and "k < 64"
    and "flags = 4 \<or> flags = 12" and "read_register_u64 acc pci bdf 0x10 (at_hw s) = Ok (bar_reads k flags base)"
    and "bar = \<lparr>bar_addr = (base AND NOT (mask k)) + (flags AND 8), bar_size = push_bit k 1 - (flags AND 8)\<rparr>"
  shows "\<exists>hw. attach acc device read_caps read_regs pci bdf s =
    sbind (on_system (with_space (disable_cach bar)) (s\<lparr>at_hw := hw\<rparr>)) (\<lambda>_ s.
     sbind (Some (setup_xhc_registers read_caps bar, s)) (\<lambda>regs s.
     sbind (on_system (\<lambda>y. case read_regs regs of (opr, irs) \<Rightarrow> Controller_new device regs (y\<lparr>sys_op := opr, sys_irs := irs\<rparr>)) s) (\<lambda>xhc s.
       Some (Ok (), s\<lparr>at_spawned := at_spawned s @ [xhc]\<rparr>))))"
proof -
  obtain v where v: "disable_interrupt acc pci bdf (at_hw s) = Ok (cfg_write32 acc (at_hw s) (b + 4) v)"
    by (simp add: disable_interrupt_def set_flags_writes [OF assms(1)])
  let ?hw1 = "cfg_write32 acc (at_hw s) (b + 4) v"
  obtain w where w: "enable_bus_mastering acc pci bdf ?hw1 = Ok (cfg_write32 acc ?hw1 (b + 4) w)"
    by (simp add: enable_bus_mastering_def set_flags_writes [OF assms(1)])
  let ?hw2 = "cfg_write32 acc ?hw1 (b + 4) w"
  have "read_register_u64 acc pci bdf 0x10 ?hw2 = Ok (bar_reads k flags base)"
    using assms(7) command_keeps_bar [OF assms(1,2)] by simp
  from try_bar0_outcome [OF assms(3,1,4,5,6) this] assms(8) obtain hw where
    "try_bar0_mem64 acc pci bdf ?hw2 = Ok (bar, hw)" by auto
  with v w show ?thesis by (intro exI [of _ hw]) (simp add: attach_def on_config_def no_value_def)
qed

lemma bar_aligned: "12 \<le> k \<Longrightarrow> 4096 dvd unat (base AND NOT (mask k) :: u64)"
proof -
  assume "12 \<le> k"
  then have "take_bit 12 (base AND NOT (mask k)) = 0" by (intro bit_word_eqI) (auto simp: bit_simps)
  then have "take_bit 12 (unat (base AND NOT (mask k))) = 0" by (metis unsigned_0 unsigned_take_bit_eq)
  then show ?thesis by (simp add: take_bit_eq_0_iff)
qed

lemma unat_bar_size: "k < 64 \<Longrightarrow> unat (push_bit k 1 :: u64) = 2 ^ k"
proof -
  assume "k < 64"
  then have "(2 :: nat) ^ k < 2 ^ 64" by (intro power_strict_increasing) simp_all
  moreover have "(push_bit k 1 :: u64) = of_nat (2 ^ k)" by (simp add: push_bit_eq_mult)
  ultimately show ?thesis by (simp only: unat_of_nat) (simp add: take_bit_nat_eq_self)
qed

text \<open>What mapping the registers leaves: the pages of the BAR uncached, room in the heap, and all other pages as before.\<close>

lemma disable_cach_roomy:
  assumes room: "roomy_space s a sz" and k: "12 \<le> k" "k < 64" "unat (base AND NOT (mask k)) + 2 ^ k \<le> 2 ^ 48"
    and need: "tables_spanned 4 (unat (base AND NOT (mask k)) div 4096) ((unat (base AND NOT (mask k)) + 2 ^ k) div 4096) * 8224 + 32 \<le> sz"
  defines "first \<equiv> unat (base AND NOT (mask k))"
  shows "\<exists>s' sz'. disable_cach \<lparr>bar_addr = base AND NOT (mask k), bar_size = push_bit k 1\<rparr> s = Some (Ok (), s') \<and> cr3 s' = cr3 s \<and>
    roomy_space s' a sz' \<and> sz \<le> sz' + tables_spanned 4 (first div 4096) ((first + 2 ^ k) div 4096) * 8224 \<and>
    live (pt_heap (space s)) \<subseteq> live (pt_heap (space s')) \<and>
    (\<forall>n < 2 ^ 36. pte (pt_tables (space s')) (cr3 s') n =
       (if first \<le> n * 4096 \<and> n * 4096 < first + 2 ^ k then of_nat (n * 4096) OR attr_bits ReadWriteIo
        else pte (pt_tables (space s)) (cr3 s) n))"
proof -
  let ?bar = "\<lparr>bar_addr = base AND NOT (mask k), bar_size = push_bit k 1\<rparr>"
  define vp where "vp = first div 4096"
  have vp: "first = vp * 4096" using bar_aligned [OF k(1), of base] by (auto simp: vp_def first_def)
  have "(4096 :: nat) = 2 ^ 12" by simp
  then have dvd: "4096 dvd (2 :: nat) ^ k" using le_imp_power_dvd [OF k(1), of "2 :: nat"] by simp
  then have end': "(vp * 4096 + 2 ^ k + 4095) div 4096 = (first + 2 ^ k) div 4096" by (auto simp: vp elim!: dvdE)
  let ?c = "tables_spanned 4 vp ((first + 2 ^ k) div 4096)"
  have bar: "bar_addr ?bar = of_nat (vp * 4096)" "unat (bar_size ?bar) = 2 ^ k" "0 < (2 :: nat) ^ k" "vp * 4096 + 2 ^ k \<le> 2 ^ 48"
    using unat_bar_size [OF k(2)] k(3) by (simp_all add: vp [symmetric] first_def)
  from room have inv: "pt_inv (cr3 s) (space s)" and fb: "first_block (pt_heap (space s)) a sz" and top: "a + sz \<le> 2 ^ 48"
    by (simp_all add: roomy_space_def)
  have c: "?c * 8224 + 32 \<le> sz" using need by (simp add: vp_def first_def)
  from disable_cach_maps [OF inv bar, unfolded end', OF first_block_can_alloc [OF fb c]] obtain s' j where
    s': "disable_cach ?bar s = Some (Ok (), s')" "cr3 s' = cr3 s" "pt_inv (cr3 s') (space s')"
      "\<forall>n < 2 ^ 36. pte (pt_tables (space s')) (cr3 s') n =
       (if vp \<le> n \<and> n * 4096 < vp * 4096 + 2 ^ k then of_nat (n * 4096) OR attr_bits ReadWriteIo
        else pte (pt_tables (space s)) (cr3 s) n)"
      and j: "j \<le> ?c" "takes_pages j (pt_heap (space s)) (pt_heap (space s'))" by blast
  have "j * 8224 + 32 \<le> sz" using j(1) c by (meson add_le_mono1 le_trans mult_le_mono1)
  from takes_pages_first_block [OF j(2) fb this] obtain sz' where
    sz': "first_block (pt_heap (space s')) a sz'" "sz \<le> sz' + j * 8224" "sz' \<le> sz" by blast
  moreover have "sz \<le> sz' + ?c * 8224" using sz'(2) j(1) by (meson add_left_mono le_trans mult_le_mono1)
  moreover have "roomy_space s' a sz'" using sz'(1,3) s'(3) top by (simp add: roomy_space_def)
  moreover have "live (pt_heap (space s)) \<subseteq> live (pt_heap (space s'))"
    using takes_pages_live [OF j(2) first_block_inv [OF fb]] by blast
  moreover have "vp \<le> n \<longleftrightarrow> first \<le> n * 4096" for n by (simp add: vp)
  ultimately show ?thesis using s'(1,2,4) by (intro exI [of _ s'] exI [of _ sz']) (simp add: vp)
qed

text \<open>The pages of a BAR stay uncached while the controller gets its own: those are uncached too.\<close>

lemma device_memory_keeps_uncached:
  assumes "device_memory x c y" and "n < 2 ^ 36" and "uncached_page x (n * 4096)"
  shows "uncached_page y (n * 4096)"
  using assms by (cases "n * 4096 \<in> set (device_pages c)") (auto simp: device_memory_def uncached_page_def)

section \<open>A prefetchable BAR\<close>

text \<open>
  The flags that \<open>try_bar0_mem64\<close> leaves in the address make it an address that is not page-aligned. The mapping of the
  registers then fails at its first page, below the tables it has populated for it.
\<close>

lemma calc_index_low_bits: "calc_index l (v AND NOT (mask 12)) = calc_index l v"
proof -
  have "12 \<le> index_shift l" by (simp add: index_shift_def)
  then have "drop_bit (index_shift l) (v AND NOT (mask 12)) = drop_bit (index_shift l) v"
    by (intro bit_word_eqI) (auto simp: bit_simps dest: bit_imp_le_length)
  then show ?thesis by (simp add: calc_index_def)
qed

lemma map_loop_unaligned:
  assumes index: "\<And>l. 1 \<le> l \<Longrightarrow> l \<le> 4 \<Longrightarrow> calc_index l v = page_index l n" and v: "v AND ATTR_MASK \<noteq> 0" "2 * unat v < 2 ^ 64"
  shows "pt_inv root st \<Longrightarrow> walk (pt_tables st) root (page_path L n) = Some a \<Longrightarrow> can_alloc (pt_heap st) (L - 1) \<Longrightarrow> 1 \<le> L \<Longrightarrow> L \<le> 4 \<Longrightarrow>
    \<exists>st'. map_loop v ve v attr L a v st = Some (Err ''phys is not aligned'', st')"
proof (induction L arbitrary: a st)
  case (Suc L)
  from Suc.prems(1,2) obtain t where t: "pt_tables st a = Some t"
    by (meson domD pt_inv_def walk_dom)
  show ?case
  proof (cases "L = 0")
    case True
    have "add_word v v = Ok (v + v)" "sub_word (v + v) v = Ok v"
      using v(2) by (simp_all add: checked_defs word_le_nat_alt unat_word_ariths)
    then show ?thesis using t True v(1) by (subst map_loop.simps) (simp add: Let_def map_page_def set_page_def)
  next
    case False
    then have L: "2 \<le> Suc L" "Suc L \<le> 4" using Suc.prems(5) by simp_all
    have len: "length (page_path (Suc L) n) \<le> 2" using L by (simp add: length_page_path)
    have lt: "page_index (Suc L) n < 512" by (simp add: page_index_def)
    have "can_alloc (pt_heap st) (Suc 0)" using Suc.prems(3) by (rule can_alloc_mono) (use False in simp)
    from ensure_populated_extends [OF Suc.prems(1,2) len t lt this] obtain w b st1 where
      pop: "ensure_populated a (page_index (Suc L) n) (t (page_index (Suc L) n)) st = Some (Ok w, st1)" "entry_table w = Ok b"
        "extends root st st1" "walk (pt_tables st1) root (page_path (Suc L) n @ [page_index (Suc L) n]) = Some b" "uses_tables 1 st st1"
      by blast
    have "walk (pt_tables st1) root (page_path L n) = Some b" using pop(4) page_path_child [OF L] by simp
    moreover have "pt_inv root st1" using pop(3) by (simp add: extends_def)
    moreover have "can_alloc (pt_heap st1) (L - 1)" using uses_tablesD [OF pop(5)] Suc.prems(3) False by (cases L) auto
    ultimately obtain st' where "map_loop v ve v attr L b v st1 = Some (Err ''phys is not aligned'', st')"
      using Suc.IH False L by auto
    with t pop(1,2) index [of "Suc L"] L show ?thesis by (subst map_loop.simps) (auto simp: Let_def)
  qed
qed simp

lemma create_mapping_unaligned:
  assumes inv: "pt_inv root st" "can_alloc (pt_heap st) 3" and a: "a AND mask 12 = 0" "unat a + 4096 \<le> 2 ^ 48"
  shows "\<exists>st'. create_mapping root (a + 8) ve (a + 8) attr st = Some (Err ''phys is not aligned'', st')"
proof -
  have m: "ATTR_MASK = mask 12" by (simp add: ATTR_MASK_def mask_eq_exp_minus_1)
  have "unat a < 2 ^ 48" using a(2) by simp
  define n where "n = unat a div 4096"
  have "take_bit 12 a = 0" using a(1) by (simp add: take_bit_eq_mask)
  then have "take_bit 12 (unat a) = 0" by (metis unsigned_0 unsigned_take_bit_eq)
  then have n: "unat a = n * 4096" by (auto simp: n_def take_bit_eq_mod)
  have "a = of_nat (unat a)" by simp
  also have "\<dots> = of_nat (n * 4096)" by (simp only: n)
  finally have page: "a = of_nat (n * 4096)" .
  have n36: "n \<le> 2 ^ 36" using a(2) n by simp
  have z: "\<not> bit a i" if "i < 12" for i
    using arg_cong [OF a(1), of "\<lambda>x. bit x i"] that by (auto simp: bit_simps dest: bit_imp_le_length)
  have or8: "a + 8 = a OR 8" by (intro disjunctive_add) (auto simp: z bit_simps bar_bits)
  have low: "(a + 8) AND NOT (mask 12) = a" "(a + 8) AND mask 12 = 8"
    unfolding or8 by (rule bit_word_eqI; use z linorder_not_less in \<open>auto simp: bit_simps bar_bits; blast\<close>)+
  have index: "calc_index l (a + 8) = page_index l n" if "1 \<le> l" "l \<le> 4" for l
    using calc_index_low_bits [of l "a + 8"] calc_index_page [OF that n36] by (simp only: low(1) page [symmetric])
  have "(a + 8) AND ATTR_MASK \<noteq> 0" by (simp add: m low(2))
  moreover have "2 * unat (a + 8) < 2 ^ 64" using a(2) by (subst unat_plus_if') simp
  moreover have "walk (pt_tables st) root (page_path 4 n) = Some root"
    using inv(1) by (simp add: pt_inv_def wf_tables_def page_path_def walk_Nil_dom)
  ultimately obtain st' where "map_loop (a + 8) ve (a + 8) attr 4 root (a + 8) st = Some (Err ''phys is not aligned'', st')"
    using map_loop_unaligned [OF index, of root st 4 root] inv by auto
  then show ?thesis by (simp add: create_mapping_def)
qed

lemma disable_cach_unaligned:
  assumes inv: "pt_inv (cr3 s) (space s)" "can_alloc (pt_heap (space s)) 3" and k: "12 \<le> k" "k < 64"
    and top: "unat (base AND NOT (mask k)) + 2 ^ k \<le> 2 ^ 48"
  shows "\<exists>s'. disable_cach \<lparr>bar_addr = (base AND NOT (mask k)) + 8, bar_size = push_bit k 1 - 8\<rparr> s = Some (Panic ''phys is not aligned'', s')"
proof -
  let ?a = "base AND NOT (mask k)"
  have four: "(4096 :: nat) \<le> 2 ^ k" using power_increasing [OF k(1), of "2 :: nat"] by simp
  then have v: "unat (?a + 8) = unat ?a + 8" using top by (subst unat_plus_if') simp
  have sz: "unat (push_bit k 1 - 8 :: u64) = 2 ^ k - 8"
    using unat_bar_size [OF k(2)] four by (subst unat_sub) (simp_all add: word_le_nat_alt)
  have add: "add_word (?a + 8) (push_bit k 1 - 8) = Ok ((?a + 8) + (push_bit k 1 - 8))" using v sz top four by (simp add: add_word_def)
  have "?a AND mask 12 = 0" using k(1) by (auto simp: bit_eq_iff bit_simps)
  moreover have "unat ?a + 4096 \<le> 2 ^ 48" using top four by linarith
  ultimately obtain t where "create_mapping (cr3 s) (?a + 8) ((?a + 8) + (push_bit k 1 - 8)) (?a + 8) ReadWriteIo (space s) =
      Some (Err ''phys is not aligned'', t)" using create_mapping_unaligned [OF inv] by blast
  then show ?thesis by (simp only: disable_cach_def BarMem64.simps add result.case)
      (simp add: with_current_page_table_def read_cr3_def on_tables_def expect_def)
qed

section \<open>Properties\<close>



text \<open>
  C38. For a controller whose BAR 0 is prefetchable, \<open>attach\<close> panics and no task is spawned: the prefetchable bit stays in the
  address that \<open>try_bar0_mem64\<close> returns, so mapping the registers is refused as not aligned, which \<open>disable_cach\<close> does not expect.
\<close>

theorem prefetchable_bar_panics:
  assumes "ecm_base pci bdf = Ok b" and "command_apart acc b" and "bar_device acc (b + 0x10) k 12" and "12 \<le> k" and "k < 64"
    and "unat (base AND NOT (mask k)) + 2 ^ k \<le> 2 ^ 48" and "read_register_u64 acc pci bdf 0x10 (at_hw s) = Ok (bar_reads k 12 base)"
    and "pt_inv (cr3 (sys_space (at_sys s))) (space (sys_space (at_sys s)))" and "can_alloc (pt_heap (space (sys_space (at_sys s)))) 3"
  shows "\<exists>s'. attach acc device read_caps read_regs pci bdf s = Some (Panic ''phys is not aligned'', s') \<and> at_spawned s' = at_spawned s"
proof -
  let ?bar = "\<lparr>bar_addr = (base AND NOT (mask k)) + 8, bar_size = push_bit k 1 - 8\<rparr>"
  have size: "4 \<le> k" using assms(4) by simp
  have flags: "?bar = \<lparr>bar_addr = (base AND NOT (mask k)) + (12 AND 8), bar_size = push_bit k 1 - (12 AND 8)\<rparr>" by simp
  from attach_config [OF assms(1-3) size assms(5) disjI2 [OF refl] assms(7) flags] obtain hw where
    cfg: "attach acc device read_caps read_regs pci bdf s = sbind (on_system (with_space (disable_cach ?bar)) (s\<lparr>at_hw := hw\<rparr>)) (\<lambda>_ s.
     sbind (Some (setup_xhc_registers read_caps ?bar, s)) (\<lambda>regs s.
     sbind (on_system (\<lambda>y. case read_regs regs of (opr, irs) \<Rightarrow> Controller_new device regs (y\<lparr>sys_op := opr, sys_irs := irs\<rparr>)) s) (\<lambda>xhc s.
       Some (Ok (), s\<lparr>at_spawned := at_spawned s @ [xhc]\<rparr>))))" by blast
  from disable_cach_unaligned [OF assms(8,9,4-6)] obtain x where "disable_cach ?bar (sys_space (at_sys s)) = Some (Panic ''phys is not aligned'', x)"
    by blast
  then show ?thesis unfolding cfg by (simp add: on_system_def with_space_def)
qed

definition prefetchable_at :: "usize \<Rightarrow> u64 ConfigAccess" where
  "prefetchable_at a = (bar_at a)\<lparr>cfg_read32 := (\<lambda>hw x. if x = a then ucast (bar_reads 16 12 hw)
     else if x = a + 4 then ucast (drop_bit 32 (bar_reads 16 12 hw)) else 0)\<rparr>"

theorem prefetchable_bar_panics_witness:
  "\<exists>s'. attach (prefetchable_at 0xB0018010) example_device (\<lambda>_. cap_regs example_registers) (\<lambda>_. (sys_op example_system, sys_irs example_system))
     \<lparr>ecm_start = 0xB0000000, ecm_end = 0xB1000000\<rparr> 0x18 \<lparr>at_hw = 0xFEB0000C, at_sys = example_system, at_spawned = []\<rparr> =
     Some (Panic ''phys is not aligned'', s')"
proof -
  let ?acc = "prefetchable_at 0xB0018010" let ?pci = "\<lparr>ecm_start = 0xB0000000, ecm_end = 0xB1000000\<rparr>"
  let ?s = "\<lparr>at_hw = 0xFEB0000C :: u64, at_sys = example_system, at_spawned = []\<rparr>"
  have b: "ecm_base ?pci 0x18 = Ok 0xB0018000" by (simp add: ecm_base_def add_usize_def)
  have apart: "command_apart ?acc 0xB0018000" by (simp add: command_apart_def prefetchable_at_def bar_at_def)
  have dev: "bar_device ?acc (0xB0018000 + 0x10) 16 12"
    unfolding bar_device_def
    by (intro allI conjI; rule bit_word_eqI) (auto simp: prefetchable_at_def bar_at_def bar_reads_def bit_simps bar_bits dest: bit_imp_le_length)
  have rd: "bar_reads 16 12 0xFEB0000C = 0xFEB0000C" by (simp add: bar_reads_def mask_eq_exp_minus_1)
  have read: "read_register_u64 ?acc ?pci 0x18 0x10 (at_hw ?s) = Ok (bar_reads 16 12 0xFEB0000C)"
    unfolding rd register_u64_eq(1) [OF b] by (simp add: prefetchable_at_def u64_halves rd)
  have top: "unat ((0xFEB0000C :: u64) AND NOT (mask 16)) + 2 ^ 16 \<le> 2 ^ 48" by (simp add: mask_eq_exp_minus_1)
  have inv: "pt_inv (cr3 (sys_space (at_sys ?s))) (space (sys_space (at_sys ?s)))"
    and mem: "can_alloc (pt_heap (space (sys_space (at_sys ?s)))) 3"
    using example_system_space first_block_can_alloc [of _ "0x100000" "0x80000" 3] by (simp_all add: roomy_space_def)
  have k: "12 \<le> (16 :: nat)" "(16 :: nat) < 64" by simp_all
  show ?thesis using prefetchable_bar_panics [OF b apart dev k top read inv mem] by blast
qed

end
