(* ===== verification/StorageDriver.thy ===== *)
theory StorageDriver
  imports XhciDriver
begin

text \<open>
  The mass-storage side of the driver and the loop over the connected ports: \<open>scsi_inquiry\<close>,
  \<open>scsi_read_10\<close>, \<open>handle_mass_storage_device\<close> and \<open>PciXhciDriver::run\<close>. The properties speak
  of the history: which transfers the driver starts, in which order, and what it has seen complete.
\<close>

section \<open>Bulk transfers\<close>

text \<open>
  The step that the SCSI commands repeat: an entry is pushed on a ring, its endpoint's doorbell
  is rung, and its completion is awaited and checked.
\<close>

definition bulk_transfer :: "Machine \<Rightarrow> u8 \<Rightarrow> u64 \<Rightarrow> usize \<Rightarrow> GenericTrbEntry \<Rightarrow> unit driver" where
  "bulk_transfer M slot ring dci trb s =
     sbind (push_ring ring trb s) (\<lambda>trb_ptr s.
     sbind (notify_ep slot dci s) (\<lambda>_. wait_for_transfer M trb_ptr))"

text \<open>A buffer that holds a command.\<close>

definition command_buffer :: "Machine \<Rightarrow> u8 list result \<Rightarrow> u64 driver" where
  "command_buffer M bytes s =
     sbind (lift bytes s) (\<lambda>bs s.
       let a = new_box M (length bs) s in Some (Ok a, s\<lparr>buffers := (buffers s)(a := bs)\<rparr>))"

definition scsi_inquiry :: "Machine \<Rightarrow> u8 \<Rightarrow> u64 \<Rightarrow> u64 \<Rightarrow> usize \<Rightarrow> usize \<Rightarrow> u8 list driver" where
  "scsi_inquiry M slot in_ring out_ring in_dci out_dci s =
     sbind (command_buffer M inquiry_cbw s) (\<lambda>cbw s.
     sbind (bulk_transfer M slot out_ring out_dci (normal_out cbw 31) s) (\<lambda>_ s.
     sbind (new_buffer M 36 s) (\<lambda>data s.
     sbind (bulk_transfer M slot in_ring in_dci (normal_in data 36) s) (\<lambda>_ s.
     sbind (new_buffer M 13 s) (\<lambda>csw s.
     sbind (bulk_transfer M slot in_ring in_dci (normal_in csw 13) s) (\<lambda>_ s.
       Some (Ok (buffers s data), s)))))))"

definition scsi_read_10 :: "Machine \<Rightarrow> u8 \<Rightarrow> u64 \<Rightarrow> u64 \<Rightarrow> usize \<Rightarrow> usize \<Rightarrow> u32 \<Rightarrow> u16 \<Rightarrow> u8 list driver" where
  "scsi_read_10 M slot in_ring out_ring in_dci out_dci lba transfer_length s =
     sbind (command_buffer M (read_10_cbw lba transfer_length) s) (\<lambda>cbw s.
     sbind (bulk_transfer M slot out_ring out_dci (normal_out cbw 31) s) (\<lambda>_ s.
     let data_size = unat transfer_length * 512 in
     sbind (new_buffer M data_size s) (\<lambda>data s.
     sbind (bulk_transfer M slot in_ring in_dci (normal_in data data_size) s) (\<lambda>_ s.
     sbind (new_buffer M 13 s) (\<lambda>csw s.
     sbind (bulk_transfer M slot in_ring in_dci (normal_in csw 13) s) (\<lambda>_ s.
     sbind (lift (check_csw (buffers s csw)) s) (\<lambda>_ s.
       Some (Ok (buffers s data), s))))))))"

section \<open>A mass-storage device\<close>

text \<open>\<open>.unwrap_or_else(|e| info!(..))\<close> on an operation: an error is logged and forgotten.\<close>

definition ignore_error :: "(unit result \<times> XhcState) option \<Rightarrow> (unit result \<times> XhcState) option" where
  "ignore_error m = map_option (\<lambda>(r, s). (case r of Err _ \<Rightarrow> Ok () | _ \<Rightarrow> r, s)) m"

definition handle_mass_storage_device :: "Machine \<Rightarrow> u8 \<Rightarrow> u64 \<Rightarrow> UsbDescriptor list \<Rightarrow> unit driver" where
  "handle_mass_storage_device M slot ctrl_ep_ring descriptors s =
     sbind (lift (select_endpoints descriptors) s) (\<lambda>(config_desc, interface_desc, bulk_in, bulk_out) s.
     sbind (request_set_config M slot ctrl_ep_ring (config_value config_desc) s) (\<lambda>_ s.
     sbind (bulk_only_mass_storage_reset M slot ctrl_ep_ring s) (\<lambda>_ s.
     sbind (lift (bulk_out_dci bulk_out) s) (\<lambda>out_dci s.
     sbind (lift (bulk_in_dci bulk_in) s) (\<lambda>in_dci s.
     sbind (configure_bulk_endpoint M slot bulk_out out_dci s) (\<lambda>out_ring s.
     sbind (configure_bulk_endpoint M slot bulk_in in_dci s) (\<lambda>in_ring s.
     sbind (ignore_error (clear_endpoint_halt M slot ctrl_ep_ring (endpoint_address bulk_in) s)) (\<lambda>_ s.
     sbind (ignore_error (clear_endpoint_halt M slot ctrl_ep_ring (endpoint_address bulk_out) s)) (\<lambda>_ s.
     sbind (scsi_read_10 M slot in_ring out_ring in_dci out_dci 0 1 s) (\<lambda>_ s.
       Some (Ok (), s)))))))))))"

section \<open>The loop over the ports\<close>

definition connected_ports :: "XhcState \<Rightarrow> usize list" where
  "connected_ports s = filter (\<lambda>port. ccs (ports s ! (port - 1))) [1..<length (ports s) + 1]"

text \<open>The handlers of the interfaces of a device, in order.\<close>

fun handle_interfaces :: "Machine \<Rightarrow> u8 \<Rightarrow> u64 \<Rightarrow> UsbDescriptor list \<Rightarrow> UsbDescriptor list \<Rightarrow> unit driver" where
  "handle_interfaces M slot ring descriptors [] s = Some (Ok (), s)"
| "handle_interfaces M slot ring descriptors (d # ds) s =
     sbind (if is_bulk_only_storage d then handle_mass_storage_device M slot ring descriptors s else Some (Ok (), s))
       (\<lambda>_. handle_interfaces M slot ring descriptors ds)"

definition request_string :: "Machine \<Rightarrow> u8 \<Rightarrow> u64 \<Rightarrow> u16 \<Rightarrow> u8 \<Rightarrow> unit driver" where
  "request_string M slot ring lang_id index s =
     (if index \<noteq> 0 then sbind (request_string_descriptor M slot ring lang_id index s) (\<lambda>_ s. Some (Ok (), s))
      else Some (Ok (), s))"

definition run_device :: "Machine \<Rightarrow> u8 \<Rightarrow> u64 \<Rightarrow> UsbDeviceDescriptor \<Rightarrow> unit driver" where
  "run_device M slot ring desc s =
     Option.bind (request_string_descriptor_zero M slot ring s) (\<lambda>(r, s). case r of
       Err _ \<Rightarrow> Some (Ok (), s)
     | Panic e \<Rightarrow> Some (Panic e, s)
     | Ok langs \<Rightarrow>
        sbind (lift (if 1 < length langs then Ok (langs ! 1) else Panic ''index out of bounds'') s) (\<lambda>lang_id s.
        sbind (request_string M slot ring lang_id (manufacturer_index desc) s) (\<lambda>_ s.
        sbind (request_string M slot ring lang_id (product_index desc) s) (\<lambda>_ s.
        sbind (request_string M slot ring lang_id (serial_idx desc) s) (\<lambda>_ s.
        sbind (request_config_descriptor_and_rest M slot ring s) (\<lambda>descriptors s.
          handle_interfaces M slot ring descriptors descriptors s))))))"

text \<open>A port: an error of \<open>init_port\<close> or of a device's requests ends \<open>run\<close>, others only the port.\<close>

definition run_port :: "Machine \<Rightarrow> usize \<Rightarrow> unit driver" where
  "run_port M port s =
     sbind (init_port M port s) (\<lambda>slot s.
     Option.bind (address_device M port slot s) (\<lambda>(r, s). case r of
       Err _ \<Rightarrow> Some (Ok (), s)
     | Panic e \<Rightarrow> Some (Panic e, s)
     | Ok ring \<Rightarrow>
        Option.bind (request_device_descriptor M slot ring s) (\<lambda>(r, s). case r of
          Err _ \<Rightarrow> Some (Ok (), s)
        | Panic e \<Rightarrow> Some (Panic e, s)
        | Ok desc \<Rightarrow> run_device M slot ring desc s)))"

fun run_ports :: "Machine \<Rightarrow> usize list \<Rightarrow> unit driver" where
  "run_ports M [] s = Some (Ok (), s)"
| "run_ports M (port # ps) s = sbind (run_port M port s) (\<lambda>_. run_ports M ps)"

definition run :: "Machine \<Rightarrow> unit driver" where
  "run M s = run_ports M (connected_ports s) s"

section \<open>The order of the transfers\<close>

lemma cut_short_intros:
  "cut_short slot (h, dci, e) []" "cut_short slot (h, dci, e) [Pushed h e p]"
  "transfer_result_ok ev \<noteq> Ok () \<Longrightarrow> cut_short slot st (transfer_acts slot st p ev)"
proof -
  show "cut_short slot (h, dci, e) []" unfolding cut_short_def by (intro exI [of _ 0] exI) simp
  show "cut_short slot (h, dci, e) [Pushed h e p]"
    unfolding cut_short_def by (intro exI [of _ p] exI [of _ 1] exI) (simp add: transfer_acts_def)
  show "cut_short slot st (transfer_acts slot st p ev)" if "transfer_result_ok ev \<noteq> Ok ()"
    unfolding cut_short_def using that
    by (intro exI [of _ p] exI [of _ ev] exI [of _ 3]) (simp add: transfer_acts_def split: prod.split)
qed

lemma bulk_transfer_history:
  assumes "quiet M" "bulk_transfer M slot h dci e s = Some (r, s')"
  shows "\<exists>acts. history s' = history s @ acts \<and>
    (if is_ok r then completes slot (h, dci, e) acts else cut_short slot (h, dci, e) acts)"
proof -
  let ?st = "(h, dci, e)"
  from assms(2)[unfolded bulk_transfer_def] show ?thesis
  proof (cases rule: sbind_outcome)
    case (first r1)
    then obtain "history s' = history s" by (auto elim!: push_ring_cases)
    then show ?thesis using first(3) cut_short_intros(1) by auto
  next
    case (last p s1)
    then have h1: "history s1 = history s @ [Pushed h e p]" by (auto elim!: push_ring_cases)
    from last(2) show ?thesis
    proof (cases rule: sbind_outcome)
      case (first r2)
      then have "history s' = history s1" by (auto elim!: notify_ep_cases)
      then show ?thesis using h1 first(3) cut_short_intros(2) by auto
    next
      case (last _ s2)
      then have h2: "history s2 = history s1 @ [Rang (unat slot) (doorbell_value (of_nat dci) 0)]" by (auto elim!: notify_ep_cases)
      from last(2) obtain ev where ev: "r = transfer_result_ok ev" "history s' = history s2 @ [Completed p ev]"
        by (rule wait_for_transfer_cases [OF assms(1)])
      then have h: "history s' = history s @ transfer_acts slot ?st p ev" using h1 h2 by (simp add: transfer_acts_def)
      show ?thesis
      proof (cases "is_ok r")
        case True
        then have "transfer_result_ok ev = Ok ()" using ev by (auto simp: is_ok_iff)
        with h True show ?thesis by (auto simp: completes_def)
      next
        case False
        then have "transfer_result_ok ev \<noteq> Ok ()" using ev by auto
        with h False show ?thesis using cut_short_intros(3) by auto
      qed
    qed
  qed
qed

lemma new_buffer_eq: "new_buffer M n s = Some (Ok (new_box M n s), s\<lparr>buffers := (buffers s)(new_box M n s := replicate n 0)\<rparr>)"
  by (simp add: new_buffer_def Let_def)

lemma command_buffer_eq:
  "command_buffer M (Ok bs) s = Some (Ok (new_box M (length bs) s), s\<lparr>buffers := (buffers s)(new_box M (length bs) s := bs)\<rparr>)"
  by (simp add: command_buffer_def Let_def)

text \<open>
  A run from \<open>s\<close> to \<open>s'\<close> goes in order through stages for which \<open>P\<close> holds (\<open>P\<close> is told whether the
  outcome is \<open>Ok\<close>), and through all of them when it is.
\<close>

definition goes_through :: "u8 \<Rightarrow> (bool \<Rightarrow> (u64 \<times> usize \<times> GenericTrbEntry) list \<Rightarrow> bool) \<Rightarrow> XhcState \<Rightarrow> 'a result \<Rightarrow> XhcState \<Rightarrow> bool" where
  "goes_through slot P s r s' \<longleftrightarrow> (\<exists>sts acts. P (is_ok r) sts \<and> history s' = history s @ acts \<and> in_order slot sts acts \<and>
     (is_ok r \<longrightarrow> all_complete slot sts acts))"

lemma goes_through_stage:
  assumes "quiet M" and "sbind (bulk_transfer M slot h dci e s) (\<lambda>_. f) = Some (r, s')"
    and "P False ((h, dci, e) # later)"
    and more: "\<And>s1. f s1 = Some (r, s') \<Longrightarrow> goes_through slot (\<lambda>ok sts. P ok ((h, dci, e) # sts)) s1 r s'"
  shows "goes_through slot P s r s'"
  using assms(2)
proof (cases rule: sbind_outcome)
  case (first r1)
  with bulk_transfer_history [OF assms(1) first(1)] obtain acts where "history s' = history s @ acts"
    "cut_short slot (h, dci, e) acts" by auto
  with first(3) assms(3) show ?thesis unfolding goes_through_def by (intro exI [of _ "(h, dci, e) # later"] exI [of _ acts]) simp
next
  case (last u s1)
  from bulk_transfer_history [OF assms(1) last(1)] obtain a1 where a1: "history s1 = history s @ a1"
    "completes slot (h, dci, e) a1" by auto
  from more [OF last(2)] obtain sts a2 where a2: "P (is_ok r) ((h, dci, e) # sts)" "history s' = history s1 @ a2"
    "in_order slot sts a2" "is_ok r \<longrightarrow> all_complete slot sts a2" by (auto simp: goes_through_def)
  then show ?thesis
    unfolding goes_through_def using a1 by (intro exI [of _ "(h, dci, e) # sts"] exI [of _ "a1 @ a2"]) auto
qed

lemma goes_through_from: "history s1 = history s \<Longrightarrow> goes_through slot P s1 r s' \<Longrightarrow> goes_through slot P s r s'"
  by (simp add: goes_through_def)

lemma goes_through_end: "history s' = history s \<Longrightarrow> P (is_ok r) [] \<Longrightarrow> goes_through slot P s r s'"
  unfolding goes_through_def by (intro exI [of _ "[]"]) simp

definition read_stages :: "u64 \<Rightarrow> u64 \<Rightarrow> usize \<Rightarrow> usize \<Rightarrow> usize \<Rightarrow> u64 \<Rightarrow> u64 \<Rightarrow> u64 \<Rightarrow> (u64 \<times> usize \<times> GenericTrbEntry) list" where
  "read_stages in_ring out_ring in_dci out_dci len cbw data csw =
     [(out_ring, out_dci, normal_out cbw 31), (in_ring, in_dci, normal_in data len), (in_ring, in_dci, normal_in csw 13)]"

text \<open>The last stage of a read: the status block.\<close>

lemma read_status:
  assumes "quiet M"
    and "sbind (new_buffer M 13 s) (\<lambda>csw s. sbind (bulk_transfer M slot in_ring in_dci (normal_in csw 13) s) (\<lambda>_ s.
       sbind (lift (check_csw (buffers s csw)) s) (\<lambda>_ s. Some (Ok (buffers s data), s)))) = Some (r, s')"
  shows "goes_through slot (\<lambda>ok sts. \<exists>csw. sts = [(in_ring, in_dci, normal_in csw 13)] \<and>
     (ok \<longrightarrow> check_csw (buffers s' csw) = Ok () \<and> r = Ok (buffers s' data))) s r s'"
proof -
  let ?csw = "new_box M 13 s"
  let ?s = "s\<lparr>buffers := (buffers s)(?csw := replicate 13 0)\<rparr>"
  have run: "sbind (bulk_transfer M slot in_ring in_dci (normal_in ?csw 13) ?s) (\<lambda>_ s.
       sbind (lift (check_csw (buffers s ?csw)) s) (\<lambda>_ s. Some (Ok (buffers s data), s))) = Some (r, s')"
    using assms(2) by (simp add: new_buffer_eq)
  have "goes_through slot (\<lambda>ok sts. \<exists>csw. (in_ring, in_dci, normal_in ?csw 13) # sts = [(in_ring, in_dci, normal_in csw 13)] \<and>
      (ok \<longrightarrow> check_csw (buffers s' csw) = Ok () \<and> r = Ok (buffers s' data))) s1 r s'"
    if "sbind (lift (check_csw (buffers s1 ?csw)) s1) (\<lambda>_ s. Some (Ok (buffers s data), s)) = Some (r, s')" for s1
    using that by (intro goes_through_end) (cases "check_csw (buffers s1 ?csw)"; auto)+
  then have "goes_through slot (\<lambda>ok sts. \<exists>csw. sts = [(in_ring, in_dci, normal_in csw 13)] \<and>
      (ok \<longrightarrow> check_csw (buffers s' csw) = Ok () \<and> r = Ok (buffers s' data))) ?s r s'"
    by (intro goes_through_stage [OF assms(1) run, where later = "[]"]) auto
  then show ?thesis by (rule goes_through_from [rotated]) simp
qed

lemma read_data:
  assumes "quiet M"
    and "sbind (new_buffer M len s) (\<lambda>data s. sbind (bulk_transfer M slot in_ring in_dci (normal_in data len) s) (\<lambda>_ s.
       sbind (new_buffer M 13 s) (\<lambda>csw s. sbind (bulk_transfer M slot in_ring in_dci (normal_in csw 13) s) (\<lambda>_ s.
       sbind (lift (check_csw (buffers s csw)) s) (\<lambda>_ s. Some (Ok (buffers s data), s)))))) = Some (r, s')"
  shows "goes_through slot (\<lambda>ok sts. \<exists>data csw. sts = [(in_ring, in_dci, normal_in data len), (in_ring, in_dci, normal_in csw 13)] \<and>
     (ok \<longrightarrow> check_csw (buffers s' csw) = Ok () \<and> r = Ok (buffers s' data))) s r s'"
proof -
  let ?data = "new_box M len s"
  let ?s = "s\<lparr>buffers := (buffers s)(?data := replicate len 0)\<rparr>"
  have run: "sbind (bulk_transfer M slot in_ring in_dci (normal_in ?data len) ?s) (\<lambda>_ s.
       sbind (new_buffer M 13 s) (\<lambda>csw s. sbind (bulk_transfer M slot in_ring in_dci (normal_in csw 13) s) (\<lambda>_ s.
       sbind (lift (check_csw (buffers s csw)) s) (\<lambda>_ s. Some (Ok (buffers s ?data), s))))) = Some (r, s')"
    using assms(2) by (simp add: new_buffer_eq)
  have "goes_through slot (\<lambda>ok sts. \<exists>data csw. sts = [(in_ring, in_dci, normal_in data len), (in_ring, in_dci, normal_in csw 13)] \<and>
     (ok \<longrightarrow> check_csw (buffers s' csw) = Ok () \<and> r = Ok (buffers s' data))) ?s r s'"
  proof (rule goes_through_stage [OF assms(1) run, where later = "[(in_ring, in_dci, normal_in 0 13)]"])
    fix s1
    assume "sbind (new_buffer M 13 s1) (\<lambda>csw s. sbind (bulk_transfer M slot in_ring in_dci (normal_in csw 13) s) (\<lambda>_ s.
       sbind (lift (check_csw (buffers s csw)) s) (\<lambda>_ s. Some (Ok (buffers s ?data), s)))) = Some (r, s')"
    from read_status [OF assms(1) this] show "goes_through slot (\<lambda>ok sts. \<exists>data csw. (in_ring, in_dci, normal_in ?data len) # sts =
       [(in_ring, in_dci, normal_in data len), (in_ring, in_dci, normal_in csw 13)] \<and>
       (ok \<longrightarrow> check_csw (buffers s' csw) = Ok () \<and> r = Ok (buffers s' data))) s1 r s'"
      unfolding goes_through_def by blast
  qed blast
  then show ?thesis by (rule goes_through_from [rotated]) simp
qed

section \<open>Properties\<close>

text \<open>
  C6. Whatever the controller, the device and the other tasks do, \<open>scsi_read_10\<close> starts its transfers in
  the order of the protocol (command, data, status), each by one push and one doorbell, and none
  before the transfer ahead of it completed with a success or short-packet event; when it returns
  data, all three completed, the status block is valid with status 0, and the data is the content of
  the data buffer. A transfer that fails is the last action.
\<close>

theorem scsi_read_10_in_order:
  assumes "quiet M" and "scsi_read_10 M slot in_ring out_ring in_dci out_dci lba n s = Some (r, s')"
  shows "\<exists>cbw data csw acts. history s' = history s @ acts \<and>
    (let stages = read_stages in_ring out_ring in_dci out_dci (unat n * 512) cbw data csw in
     in_order slot stages acts \<and>
     (if is_ok r then all_complete slot stages acts \<and> check_csw (buffers s' csw) = Ok () \<and> r = Ok (buffers s' data) else True))"
proof -
  obtain bs where bs: "read_10_cbw lba n = Ok bs" using read_10_cbw_bytes by blast
  define cbw where "cbw = new_box M (length bs) s"
  define s0 where "s0 = s\<lparr>buffers := (buffers s)(cbw := bs)\<rparr>"
  have run: "sbind (bulk_transfer M slot out_ring out_dci (normal_out cbw 31) s0) (\<lambda>_ s.
       sbind (new_buffer M (unat n * 512) s) (\<lambda>data s.
       sbind (bulk_transfer M slot in_ring in_dci (normal_in data (unat n * 512)) s) (\<lambda>_ s.
       sbind (new_buffer M 13 s) (\<lambda>csw s.
       sbind (bulk_transfer M slot in_ring in_dci (normal_in csw 13) s) (\<lambda>_ s.
       sbind (lift (check_csw (buffers s csw)) s) (\<lambda>_ s. Some (Ok (buffers s data), s))))))) = Some (r, s')"
    using assms(2) by (simp add: scsi_read_10_def bs command_buffer_eq Let_def cbw_def s0_def)
  have "goes_through slot (\<lambda>ok sts. \<exists>data csw. sts = read_stages in_ring out_ring in_dci out_dci (unat n * 512) cbw data csw \<and>
     (ok \<longrightarrow> check_csw (buffers s' csw) = Ok () \<and> r = Ok (buffers s' data))) s0 r s'"
    unfolding read_stages_def
    by (rule goes_through_stage [OF assms(1) run, where later = "[(in_ring, in_dci, normal_in 0 (unat n * 512)), (in_ring, in_dci, normal_in 0 13)]"],
        blast, drule read_data [OF assms(1)]) (unfold goes_through_def, blast)
  then show ?thesis unfolding goes_through_def s0_def Let_def by (simp, metis)
qed

section \<open>A device that answers\<close>

text \<open>
  The rest of the system keeps to its part: it does not write the transfer rings or lose doorbells;
  once an entry is pushed, its doorbell rung and its completion awaited, a transfer event without
  error arrives after finitely many turns; and a status block that was asked for is then valid.
\<close>

definition waits_for :: "nat \<Rightarrow> u64 \<Rightarrow> GenericTrbEntry list \<Rightarrow> XhcState \<Rightarrow> bool" where
  "waits_for i p q s \<longleftrightarrow> wait_infos s i =
     Some \<lparr>cond = \<lparr>cond_trb_type = Some TransferEvent, cond_trb_addr = Some p, cond_slot = None\<rparr>, wait_trbs = q\<rparr>"

definition answers :: "Machine \<Rightarrow> bool" where
  "answers M \<longleftrightarrow>
     (\<forall>s. transfer_rings (turn M s) = transfer_rings s \<and> length (doorbells (turn M s)) = length (doorbells s)) \<and>
     (\<forall>s i p h e acts slot v. history s = acts @ [Pushed h e p, Rang slot v] \<and> waits_for i p [] s \<longrightarrow>
        (\<exists>n ev. (\<forall>k < n. waits_for i p [] ((turn M ^^ k) s)) \<and> waits_for i p [ev] ((turn M ^^ n) s) \<and>
           transfer_result_ok ev = Ok () \<and>
           (\<forall>b. e = normal_in b 13 \<longrightarrow> check_csw (buffers ((turn M ^^ n) s) b) = Ok ())))"

lemma await_event_answered:
  "(\<forall>k < n. waits_for i p [] ((turn M ^^ k) s)) \<Longrightarrow> waits_for i p [ev] ((turn M ^^ n) s) \<Longrightarrow>
   \<exists>ws. await_event M i s = Some (Ok ev, ((turn M ^^ n) s)\<lparr>wait_infos := ws\<rparr>)"
proof (induction n arbitrary: s)
  case 0
  then show ?case by (subst await_event.simps, simp add: waits_for_def future_poll_def) (rule exI, rule refl)
next
  case (Suc n)
  from Suc.prems(1) have "waits_for i p [] s" by (metis funpow_0 zero_less_Suc)
  then have "await_event M i s = await_event M i (turn M s)"
    by (subst await_event.simps) (simp add: waits_for_def future_poll_def)
  moreover have "\<forall>k < n. waits_for i p [] ((turn M ^^ k) (turn M s))"
    using Suc.prems(1) by (metis Suc_less_eq funpow_Suc_right o_apply)
  moreover have "waits_for i p [ev] ((turn M ^^ n) (turn M s))"
    using Suc.prems(2) by (simp add: funpow_Suc_right del: funpow.simps)
  ultimately show ?case using Suc.IH [of "turn M s"] by (simp add: funpow_Suc_right del: funpow.simps)
qed

lemma answers_turns:
  assumes "answers M"
  shows "transfer_rings ((turn M ^^ n) s) = transfer_rings s \<and> length (doorbells ((turn M ^^ n) s)) = length (doorbells s)"
proof -
  have "transfer_rings (turn M s) = transfer_rings s \<and> length (doorbells (turn M s)) = length (doorbells s)" for s
    using assms by (simp add: answers_def)
  then show ?thesis by (induction n) simp_all
qed

definition usable_ring :: "u64 \<Rightarrow> XhcState \<Rightarrow> bool" where
  "usable_ring h s \<longleftrightarrow> (\<exists>hist. ring_at hist (transfer_rings s h))"

lemma usable_ring_buffers [simp]: "usable_ring h (s\<lparr>buffers := b\<rparr>) = usable_ring h s"
  by (simp add: usable_ring_def)

lemma push_ring_usable:
  assumes "usable_ring h s" and "get_field (trb_control e) 10 6 \<noteq> trb_type_code Link"
  shows "\<exists>p s1. push_ring h e s = Some (Ok p, s1) \<and> history s1 = history s @ [Pushed h e p] \<and> doorbells s1 = doorbells s \<and>
    (\<forall>h'. usable_ring h' s \<longrightarrow> usable_ring h' s1)"
proof -
  from assms(1) obtain hist where "ring_at hist (transfer_rings s h)" by (auto simp: usable_ring_def)
  from push_step [OF this assms(2)] obtain p cr where "push e (transfer_rings s h) = (Ok p, cr)" "ring_at (hist @ [e]) cr" by auto
  then show ?thesis by (auto simp: push_ring_def Let_def note_action_def usable_ring_def)
qed

lemma bulk_transfer_returns:
  assumes M: "answers M" and h: "usable_ring h s" and e: "get_field (trb_control e) 10 6 \<noteq> trb_type_code Link"
    and "unat slot < length (doorbells s)" and "dci < 256"
  shows "\<exists>s'. bulk_transfer M slot h dci e s = Some (Ok (), s') \<and> length (doorbells s') = length (doorbells s) \<and>
    (\<forall>h'. usable_ring h' s \<longrightarrow> usable_ring h' s') \<and> (\<forall>b. e = normal_in b 13 \<longrightarrow> check_csw (buffers s' b) = Ok ())"
proof -
  from push_ring_usable [OF h e] obtain p s1 where
    p: "push_ring h e s = Some (Ok p, s1)" "history s1 = history s @ [Pushed h e p]" "doorbells s1 = doorbells s"
    and u1: "\<forall>h'. usable_ring h' s \<longrightarrow> usable_ring h' s1" by blast
  obtain s2 where n: "notify_ep slot dci s1 = Some (Ok (), s2)" "\<exists>v. history s2 = history s @ [Pushed h e p, Rang (unat slot) v]"
    "length (doorbells s2) = length (doorbells s)" "transfer_rings s2 = transfer_rings s1"
    using assms(4,5) p(2,3) by (simp add: notify_ep_def doorbell_notify_def note_action_def Let_def)
  let ?i = "new_waiter M s2"
  obtain er ws where w: "new_for_trb ?i p (event_ring s2) (wait_infos s2) = (er, ws)" by fastforce
  let ?s = "s2\<lparr>event_ring := er, wait_infos := ws\<rparr>"
  have "waits_for ?i p [] ?s" using w by (auto simp: waits_for_def new_for_trb_def EventFuture_new_def)
  moreover obtain v where "history ?s = history s @ [Pushed h e p, Rang (unat slot) v]" using n(2) by auto
  ultimately obtain k ev where ev: "\<forall>j < k. waits_for ?i p [] ((turn M ^^ j) ?s)" "waits_for ?i p [ev] ((turn M ^^ k) ?s)"
    "transfer_result_ok ev = Ok ()" "\<forall>b. e = normal_in b 13 \<longrightarrow> check_csw (buffers ((turn M ^^ k) ?s) b) = Ok ()"
    using M unfolding answers_def by blast
  from await_event_answered [OF ev(1,2)] obtain ws' where
    aw: "await_event M ?i ?s = Some (Ok ev, ((turn M ^^ k) ?s)\<lparr>wait_infos := ws'\<rparr>)" by blast
  let ?s' = "note_action (Completed p ev) (((turn M ^^ k) ?s)\<lparr>wait_infos := ws'\<rparr>)"
  have "bulk_transfer M slot h dci e s = Some (Ok (), ?s')"
    using p(1) n(1) w aw ev(3) by (simp add: bulk_transfer_def wait_for_transfer_def wait_for_trb_def wait_for_def Let_def)
  moreover have "transfer_rings ?s' = transfer_rings s1" "length (doorbells ?s') = length (doorbells s)"
    using answers_turns [OF M, of k ?s] n(3,4) by (simp_all add: note_action_def)
  ultimately show ?thesis using u1 ev(4) by (auto simp: usable_ring_def note_action_def)
qed

lemma normal_not_link:
  "get_field (trb_control (normal_in b n)) 10 6 \<noteq> trb_type_code Link"
  "get_field (trb_control (normal_out b n)) 10 6 \<noteq> trb_type_code Link"
  by (simp_all add: normal_in_def normal_out_def field_defs get_field_def take_bit_eq_mask mask_eq_exp_minus_1 drop_bit_eq_div)


text \<open>A system that answers every transfer in one turn, with a valid status block in every buffer.\<close>

definition good_event :: "u64 \<Rightarrow> GenericTrbEntry" where
  "good_event p = \<lparr>trb_data = p, trb_option = 0x1000000, trb_control = 0x8000\<rparr>"

definition deliver :: "waiters \<Rightarrow> waiters" where
  "deliver ws i = map_option (\<lambda>w. if wait_trbs w = [] then w\<lparr>wait_trbs := [good_event (the (cond_trb_addr (cond w)))]\<rparr> else w) (ws i)"

definition example_machine :: Machine where
  "example_machine = \<lparr>turn = (\<lambda>s. s\<lparr>wait_infos := deliver (wait_infos s),
      buffers := (\<lambda>_. [0x55, 0x53, 0x42, 0x53, 3, 0, 0, 0, 0, 0, 0, 0, 0])\<rparr>),
    new_box = (\<lambda>n s. 0x9000), new_waiter = (\<lambda>s. 7)\<rparr>"

lemma good_event_ok: "transfer_result_ok (good_event p) = Ok ()"
  by (simp add: transfer_result_ok_def good_event_def get_field_def take_bit_eq_mask mask_eq_exp_minus_1 drop_bit_eq_div)

lemma example_csw: "check_csw [0x55, 0x53, 0x42, 0x53, 3, 0, 0, 0, 0, 0, 0, 0, 0] = Ok ()"
  by (simp add: check_csw_def byte_index_def bytes_at_def)

lemma example_quiet: "quiet example_machine"
  by (simp add: quiet_def example_machine_def)

lemma example_answers: "answers example_machine"
proof -
  have "\<exists>n ev. (\<forall>k < n. waits_for i p [] ((turn example_machine ^^ k) s)) \<and> waits_for i p [ev] ((turn example_machine ^^ n) s) \<and>
      transfer_result_ok ev = Ok () \<and> (\<forall>b. e = normal_in b 13 \<longrightarrow> check_csw (buffers ((turn example_machine ^^ n) s) b) = Ok ())"
    if "waits_for i p [] s" for s i p e
    using that by (intro exI [of _ 1] exI [of _ "good_event p"])
      (simp add: waits_for_def example_machine_def deliver_def good_event_ok example_csw)
  then show ?thesis by (auto simp: answers_def example_machine_def)
qed

definition example_state :: "CommandRing \<Rightarrow> XhcState" where
  "example_state cr = \<lparr>usbsts = 0x18, doorbells = [0, 0, 0], ports = [0x2A1], dcbaa = DeviceContextBaseAddressArray_new 0x4000,
     command_ring = cr, event_ring = example_event_ring, wait_infos = Map.empty, transfer_rings = (\<lambda>_. cr), buffers = (\<lambda>_. []),
     input_contexts = (\<lambda>_. InputContext_default), history = []\<rparr>"


theorem scsi_read_10_in_order_witness:
  "\<exists>s r s' acts. scsi_read_10 example_machine 9 0x5000 0x5000 3 4 0 1 s = Some (r, s') \<and> \<not> is_ok r \<and> history s' = acts \<and>
     (\<exists>cbw data csw. in_order 9 (read_stages 0x5000 0x5000 3 4 512 cbw data csw) acts)"
proof -
  obtain cr where cr: "ring_at [] cr" using CommandRing_default_at [of "0x5000"] by auto
  let ?s = "example_state cr"
  obtain bs where bs: "read_10_cbw 0 1 = Ok bs" using read_10_cbw_bytes by blast
  let ?s0 = "?s\<lparr>buffers := (buffers ?s)(0x9000 := bs)\<rparr>"
  have "usable_ring 0x5000 ?s0" using cr by (auto simp: usable_ring_def example_state_def)
  from push_ring_usable [OF this normal_not_link(2), of "0x9000" 31] obtain p s1 where
    p: "push_ring 0x5000 (normal_out 0x9000 31) ?s0 = Some (Ok p, s1)" "doorbells s1 = [0, 0, 0]" by (auto simp: example_state_def)
  have "scsi_read_10 example_machine 9 0x5000 0x5000 3 4 0 1 ?s = Some (Err ''Invalid slot'', s1)"
    using bs p by (simp add: scsi_read_10_def command_buffer_eq bulk_transfer_def notify_ep_def example_machine_def)
  moreover have "history ?s = []" by (simp add: example_state_def)
  ultimately show ?thesis
    using scsi_read_10_in_order [OF example_quiet, of 9 "0x5000" "0x5000" 3 4 0 1 ?s "Err ''Invalid slot''" s1]
    by (intro exI [of _ ?s] exI [of _ "Err ''Invalid slot''"] exI [of _ s1] exI [of _ "history s1"]) (auto simp: Let_def)
qed

end
