(* ===== verification/CommandFlow.thy ===== *)
theory CommandFlow
  imports StorageDriver
begin

text \<open>
  Commands through the whole chain: the command ring, the doorbell, the event ring, the polling task
  and the waiter of \<open>send_command\<close>; and what the driver of a port does with a refused slot.
\<close>

section \<open>The task that polls the event ring\<close>

text \<open>One round of the task that \<open>run\<close> spawns; an error of \<open>poll\<close> is logged.\<close>

definition event_task :: "XhcState \<Rightarrow> unit result \<times> XhcState" where
  "event_task s =
     (case poll_events (event_ring s) (wait_infos s) of (r, er, ws) \<Rightarrow>
        (case r of Panic e \<Rightarrow> Panic e | _ \<Rightarrow> Ok (), s\<lparr>event_ring := er, wait_infos := ws\<rparr>))"

text \<open>
  C5. A command is answered through the whole chain of rings: on a command ring that the driver made
  and used, \<open>send_command\<close> pushes the command, rings doorbell 0 and registers its waiter; when
  the controller then puts a completion event for the address of that entry into the event ring, no
  other live waiter takes it, and the polling task runs, \<open>send_command\<close> returns that event.
\<close>

theorem send_command_completes:
  assumes ring: "ring_at hist (command_ring s)" and cmd: "get_field (trb_control cmd) 10 6 \<noteq> trb_type_code Link"
    and bells: "doorbells s \<noteq> []"
    and turn: "turn M = (\<lambda>s. snd (event_task (s\<lparr>event_ring := device (event_ring s)\<rparr>)))"
    and fresh: "\<And>s. new_waiter M s = i" "i \<notin> set (wait_list (event_ring s))"
    and e: "trb_data e = ring_addr (cr_ring (command_ring s)) + of_nat (16 * (length hist mod 15))"
      "get_field (trb_control e) 10 6 = trb_type_code CommandCompletionEvent"
    and post: "pop_event (device (register_waiter i (event_ring s))) = (Ok (Some e), er')"
      "wait_list er' = wait_list (event_ring s) @ [i]"
    and others: "\<And>j w. j \<in> set (wait_list (event_ring s)) \<Longrightarrow> wait_infos s j = Some w \<Longrightarrow> \<not> takes w e"
  shows "\<exists>s'. send_command M cmd s = Some (Ok e, s') \<and>
    history s' = history s @ [Commanded cmd (trb_data e), Rang 0 0, Completed (trb_data e) e]"
proof -
  let ?p = "trb_data e" and ?w = "\<lambda>q. \<lparr>cond = \<lparr>cond_trb_type = Some CommandCompletionEvent, cond_trb_addr = Some (trb_data e), cond_slot = None\<rparr>, wait_trbs = q\<rparr>"
  from push_step [OF ring cmd] obtain cr where push: "push cmd (command_ring s) = (Ok ?p, cr)" by (auto simp: e(1))
  let ?er = "register_waiter i (event_ring s)" and ?ws = "(wait_infos s)(i \<mapsto> ?w [])"
  define S where "S = (doorbell_notify 0 0 0 (note_action (Commanded cmd ?p) (s\<lparr>command_ring := cr\<rparr>)))\<lparr>event_ring := ?er, wait_infos := ?ws\<rparr>"
  have run: "send_command M cmd s = sbind (await_event M i S) (\<lambda>e s. Some (Ok e, note_action (Completed ?p e) s))"
    using push bells fresh(1)
    by (simp add: send_command_def push_command_def notify_xhc_def Let_def wait_for_command_def wait_for_def S_def
        new_for_command_def EventFuture_new_def note_action_def doorbell_notify_def)
  have "takes (?w []) e" by (simp add: takes_def e(2))
  moreover have "find (\<lambda>j. case ?ws j of None \<Rightarrow> False | Some w \<Rightarrow> takes w e) (wait_list (event_ring s)) = None"
    using others fresh(2) by (auto simp: find_None_iff split: option.splits)
  ultimately have "taker e (wait_list er') ?ws = Some i"
    unfolding taker_def post(2) by (simp add: find_append)
  then have "poll_events (device ?er) ?ws = (Ok (), er'\<lparr>wait_list := filter (\<lambda>i. ?ws i \<noteq> None) (wait_list er')\<rparr>, ?ws(i \<mapsto> ?w [e]))"
    using poll_events_pop [OF post(1), of ?ws] by (simp add: resolve_def)
  then obtain er'' where t: "turn M S = S\<lparr>event_ring := er'', wait_infos := ?ws(i \<mapsto> ?w [e])\<rparr>"
    by (auto simp: turn event_task_def S_def)
  have "await_event M i S = await_event M i (turn M S)"
    by (subst await_event.simps) (simp add: future_poll_def S_def)
  also have "\<dots> = Some (Ok e, (turn M S)\<lparr>wait_infos := future_drop i (?ws(i \<mapsto> ?w []))\<rparr>)"
    by (subst await_event.simps) (simp add: future_poll_def t)
  finally have "await_event M i S = Some (Ok e, (turn M S)\<lparr>wait_infos := future_drop i (?ws(i \<mapsto> ?w []))\<rparr>)" .
  moreover have "history (turn M S) = history s @ [Commanded cmd ?p, Rang 0 0]"
    unfolding t by (simp add: S_def note_action_def doorbell_notify_def doorbell_value_def)
  ultimately show ?thesis unfolding run by (simp add: note_action_def)
qed

theorem send_command_completes_witness:
  "\<exists>cr s'. ring_at [] cr \<and> send_command \<lparr>turn = (\<lambda>s. snd (event_task s)), new_box = (\<lambda>n s. 0), new_waiter = (\<lambda>s. 7)\<rparr>
     default_trb (example_state cr) = Some (Ok example_completion, s')"
proof -
  obtain cr where cr: "ring_at [] cr" "ring_addr (cr_ring cr) = 0x5000" using CommandRing_default_at [of "0x5000"] by auto
  let ?M = "\<lparr>turn = (\<lambda>s. snd (event_task s)), new_box = (\<lambda>n s. 0), new_waiter = (\<lambda>s. 7)\<rparr>"
  let ?er = "register_waiter 7 example_event_ring"
  let ?er' = "?er\<lparr>er_ring := (er_ring ?er)\<lparr>current_index := 1\<rparr>, erdp := Some 0x7008\<rparr>"
  have pop: "pop_event ?er = (Ok (Some example_completion), ?er')"
    by (simp add: pop_event_def has_next_event_def register_waiter_def example_event_ring_def current_def ring_trb_def
        example_completion_def current_ptr_def advance_index_notoggle_def)
  have ty: "get_field (trb_control example_completion) 10 6 = trb_type_code CommandCompletionEvent"
    by (simp add: example_completion_def get_field_def take_bit_eq_mask mask_eq_exp_minus_1 drop_bit_eq_div)
  have cmd: "get_field (trb_control default_trb) 10 6 \<noteq> trb_type_code Link" by (simp add: default_trb_def get_field_def)
  have "\<exists>s'. send_command ?M default_trb (example_state cr) = Some (Ok example_completion, s') \<and>
    history s' = history (example_state cr) @ [Commanded default_trb (trb_data example_completion), Rang 0 0,
      Completed (trb_data example_completion) example_completion]"
    by (rule send_command_completes [where hist = "[]" and device = "\<lambda>er. er" and i = 7 and er' = ?er'])
       (use cr pop ty cmd in \<open>simp_all add: example_state_def example_event_ring_def example_completion_def register_waiter_def\<close>)
  with cr(1) show ?thesis by blast
qed

section \<open>A controller without a free slot\<close>

lemma enable_slot_command: "\<exists>cmd. cmd_enable_slot = Ok cmd \<and> get_field (trb_control cmd) 10 6 \<noteq> trb_type_code Link"
  by (simp add: cmd_enable_slot_def set_trb_type_eq default_trb_def get_set_field)

text \<open>
  C36. When the controller answers the Enable Slot command of a port that was reset with an event that
  carries slot 0 (as it does when it has no free slot), whatever its completion code, \<open>init_port\<close>
  returns slot 0 as a success, and the port's driver then panics on the subtraction that turns the
  slot into an index: the event is not checked.
\<close>

theorem refused_slot_panics:
  assumes "port_exists port s" and "reset_port (port_cell M port) s = Some q" and "is_enabled (port_read (port_cell M port) q)"
    and "cmd_enable_slot = Ok cmd" and "send_command M cmd q = Some (Ok e, s1)" and "slot_id e = Ok 0"
  shows "init_port M port s = Some (Ok 0, s1) \<and> run_port M port s = Some (Panic ''subtract overflow'', s1)"
proof -
  have i: "init_port M port s = Some (Ok 0, s1)"
    using assms(1-3,5,6) by (simp add: init_port_def assms(4) del: slot_id_eq)
  have "address_device M port 0 s1 = Some (Panic ''subtract overflow'', s1)"
    by (simp add: address_device_def set_output_context_for_slot_def set_output_context_def checked_defs)
  with i show ?thesis by (simp add: run_port_def)
qed

text \<open>A controller that enables the port in one turn and answers every command with \<open>No Slots Available\<close>.\<close>

definition no_slots :: "u64 \<Rightarrow> GenericTrbEntry" where
  "no_slots p = \<lparr>trb_data = p, trb_option = 0x9000000, trb_control = 0x8400\<rparr>"

definition full_machine :: Machine where
  "full_machine = \<lparr>turn = (\<lambda>s. s\<lparr>ports := [0x203], wait_infos := (\<lambda>i. map_option (\<lambda>w. w\<lparr>wait_trbs := [no_slots 0]\<rparr>) (wait_infos s i))\<rparr>),
     new_box = (\<lambda>n s. 0x9000), new_waiter = (\<lambda>s. 7)\<rparr>"

lemma full_machine_reset:
  "reset_port (port_cell full_machine 1) (example_state cr) =
     Some (turn full_machine (example_state cr\<lparr>ports := [assert_bit 4 (assert_bit 9 0x2A1)]\<rparr>))"
proof -
  have bits: "bit (assert_bit 9 (0x2A1 :: u32)) 9" "bit (assert_bit 4 v) 4" for v by (simp_all add: assert_bit_bits)
  let ?s1 = "example_state cr\<lparr>ports := [assert_bit 9 0x2A1]\<rparr>"
  let ?s2 = "example_state cr\<lparr>ports := [assert_bit 4 (assert_bit 9 0x2A1)]\<rparr>"
  have "while_option (\<lambda>p. \<not> pp (port_read (port_cell full_machine 1) p)) (port_yield (port_cell full_machine 1)) ?s1 = Some ?s1"
    using bits by (intro poll_skips) (simp add: port_cell_def pp_def port_bit_iff)
  moreover have "while_option (\<lambda>p. pr (port_read (port_cell full_machine 1) p)) (port_yield (port_cell full_machine 1)) ?s2 =
      Some ((port_yield (port_cell full_machine 1) ^^ 1) ?s2)"
    using bits by (intro poll_first) (simp_all add: port_cell_def pr_def port_bit_def full_machine_def assert_bit_def push_bit_eq_mult)
  ultimately show ?thesis
    by (simp add: reset_port_def port_assert_def port_cell_def example_state_def)
qed

theorem refused_slot_panics_witness:
  "\<exists>cr s1. ring_at [] cr \<and> run_port full_machine 1 (example_state cr) = Some (Panic ''subtract overflow'', s1)"
proof -
  obtain cr where cr: "ring_at [] cr" using CommandRing_default_at [of "0x5000"] by auto
  obtain cmd where cmd: "cmd_enable_slot = Ok cmd" "get_field (trb_control cmd) 10 6 \<noteq> trb_type_code Link"
    using enable_slot_command by blast
  from push_step [OF cr cmd(2)] obtain p cr' where push: "push cmd cr = (Ok p, cr')" by auto
  let ?q = "turn full_machine (example_state cr\<lparr>ports := [assert_bit 4 (assert_bit 9 0x2A1)]\<rparr>)"
  have q: "command_ring ?q = cr" "doorbells ?q = [0, 0, 0]" "port_read (port_cell full_machine 1) ?q = 0x203"
    by (simp_all add: full_machine_def example_state_def port_cell_def)
  have en: "is_enabled 0x203" by (simp add: is_enabled_def pp_def pr_def ped_def ccs_def port_bit_def push_bit_eq_mult)
  obtain er ws where ws: "new_for_command 7 p (event_ring ?q) (wait_infos ?q) = (er, ws)" by fastforce
  then have w: "ws 7 = Some \<lparr>cond = \<lparr>cond_trb_type = Some CommandCompletionEvent, cond_trb_addr = Some p, cond_slot = None\<rparr>, wait_trbs = []\<rparr>"
    by (auto simp: new_for_command_def EventFuture_new_def)
  have "\<exists>ws'. await_event full_machine 7 s = Some (Ok (no_slots 0), (turn full_machine s)\<lparr>wait_infos := ws'\<rparr>)"
    if "wait_infos s = ws" for s :: XhcState
  proof -
    have "await_event full_machine 7 s = await_event full_machine 7 (turn full_machine s)"
      using w [folded that] by (subst await_event.simps) (simp add: future_poll_def)
    also have "\<exists>ws'. \<dots> = Some (Ok (no_slots 0), (turn full_machine s)\<lparr>wait_infos := ws'\<rparr>)"
      using that w by (subst await_event.simps, simp add: future_poll_def full_machine_def) (rule exI, rule refl)
    finally show ?thesis .
  qed
  note answer = this
  define S where "S = (doorbell_notify 0 0 0 (note_action (Commanded cmd p) (?q\<lparr>command_ring := cr'\<rparr>)))\<lparr>event_ring := er, wait_infos := ws\<rparr>"
  have "send_command full_machine cmd ?q = sbind (await_event full_machine 7 S) (\<lambda>e s. Some (Ok e, note_action (Completed p e) s))"
    using push ws q(1,2)
    by (simp add: send_command_def push_command_def notify_xhc_def Let_def wait_for_command_def wait_for_def S_def
        note_action_def doorbell_notify_def full_machine_def)
  with answer [of S] obtain s1 where s1: "send_command full_machine cmd ?q = Some (Ok (no_slots 0), s1)"
    by (auto simp: S_def)
  have "slot_id (no_slots 0) = Ok 0"
    by (simp add: no_slots_def get_field_def take_bit_eq_mask mask_eq_exp_minus_1 drop_bit_eq_div)
  moreover have "port_exists 1 (example_state cr)" by (simp add: port_exists_def wrapping_sub_usize_def example_state_def)
  ultimately show ?thesis
    using refused_slot_panics [OF _ full_machine_reset _ cmd(1) s1] en q cr by auto
qed

end
