(* ===== verification/Interrupts.thy ===== *)
theory Interrupts
  imports SystemTables Format
begin

text \<open>
  Interrupts: the assembly of \<open>x86.rs\<close> that saves the context of the interrupted code, calls
  \<open>inthandler\<close> and returns from the interrupt, as a list of instructions with the effect they have
  on registers and stack; \<open>inthandler\<close> itself with everything it prints; and the delivery of an
  interrupt by the processor (Intel SDM, volume 3, 6.14.2), on the stack that the TSS names.

  Memory is a function from addresses to the 8-byte word stored there: every access of this code is
  to 8 bytes, at a multiple of 8. The flags that arithmetic instructions change are not followed;
  \<open>iretq\<close> reloads them.
\<close>

section \<open>What the handler is given\<close>

record GeneralRegisterContext =
  g_rax :: u64
  g_rdx :: u64
  g_rbx :: u64
  g_rbp :: u64
  g_rsi :: u64
  g_rdi :: u64
  g_r8 :: u64
  g_r9 :: u64
  g_r10 :: u64
  g_r11 :: u64
  g_r12 :: u64
  g_r13 :: u64
  g_r14 :: u64
  g_r15 :: u64
  g_rcx :: u64

record InterruptContext =
  i_rip :: u64
  i_cs :: u64
  i_rflags :: u64
  i_rsp :: u64
  i_ss :: u64

text \<open>The 512 bytes of the \<open>FPUContext\<close> are 64 words.\<close>

record InterruptInfo =
  fpu_context :: "u64 list"
  greg :: GeneralRegisterContext
  error_code :: u64
  ctx :: InterruptContext

text \<open>The \<open>Debug\<close> of it, line by line.\<close>

definition labelled :: "(string \<times> nat \<times> u64) list \<Rightarrow> string" where
  "labelled fs = concat (map (\<lambda>(l, w, v). l @ fmt_hex_alt w (unat v)) fs)"

definition debug_info :: "InterruptInfo \<Rightarrow> string" where
  "debug_info i =
     (let nl = newline # ''            ''; c = ctx i; g = greg i in
      newline # ''        {'' @
      labelled
       [(nl @ ''rip: '', 18, i_rip c), ('', CS: '', 6, i_cs c),
        ('','' @ nl @ ''rsp: '', 18, i_rsp c), ('', SS: '', 6, i_ss c),
        ('','' @ nl @ ''rbp: '', 18, g_rbp g),
        ('','' @ [newline] @ nl @ ''rflags: '', 18, i_rflags c),
        ('','' @ nl @ ''error_code: '', 18, error_code i),
        ('','' @ [newline] @ nl @ ''rax: '', 18, g_rax g), ('', rcx: '', 18, g_rcx g),
        ('','' @ nl @ ''rdx: '', 18, g_rdx g), ('', rbx: '', 18, g_rbx g),
        ('','' @ nl @ ''rsi: '', 18, g_rsi g), ('', rdi: '', 18, g_rdi g),
        ('','' @ nl @ ''r8: '', 18, g_r8 g), ('', r9: '', 18, g_r9 g),
        ('','' @ nl @ ''r10: '', 18, g_r10 g), ('', r11: '', 18, g_r11 g),
        ('','' @ nl @ ''r12: '', 18, g_r12 g), ('', r13: '', 18, g_r13 g),
        ('','' @ nl @ ''r14: '', 18, g_r14 g), ('', r15: '', 18, g_r15 g)] @
      '','' @ [newline] @ ''        }'')"

section \<open>The handler\<close>

text \<open>The text for the error code of a page fault.\<close>

definition page_fault_cause :: "u64 \<Rightarrow> string" where
  "page_fault_cause e =
     ''Caused by: A'' @ (if e AND 4 \<noteq> 0 then ''user'' else ''supervisor'') @ '' mode '' @
     (if e AND 16 \<noteq> 0 then ''instruction fetch'' else if e AND 2 \<noteq> 0 then ''data write'' else ''data read'') @
     '' on '' @ (if e AND 1 \<noteq> 0 then ''present'' else ''non-present'') @ '' page, page structres are '' @
     (if e AND 4 \<noteq> 0 then ''invalid'' else ''valid'')"

text \<open>The \<open>{:#02X?}\<close> of a slice of bytes.\<close>

definition debug_bytes :: "u8 list \<Rightarrow> string" where
  "debug_bytes bs = ''['' @ newline # concat (map (\<lambda>b. ''    '' @ fmt_hex_alt 2 (unat b) @ '','' @ [newline]) bs) @ '']''"

text \<open>
  The messages of \<open>inthandler\<close>, and whether it returns. \<open>code\<close> is the memory at the interrupted
  instruction, \<open>cr2\<close> the address of the last page fault.
\<close>

definition inthandler :: "(nat \<Rightarrow> u8) \<Rightarrow> u64 \<Rightarrow> InterruptInfo \<Rightarrow> usize \<Rightarrow> string list \<times> unit result" where
  "inthandler code cr2 info index =
     (let log = [''Interrupt Info: '' @ debug_info info, ''Exception '' @ fmt_hex_alt 4 index @ '': ''] in
      if index = 3 then (log @ [''Breakpoint''], Ok ())
      else if index = 6 then (log @ [''Invalid Opcode''], Ok ())
      else (log @
        (if index = 8 then [''Double Fault'']
         else if index = 13 then
           [''General Protection Fault'', ''Bytes @ RIP{rip:#018X}:'',
            '' = '' @ debug_bytes (map (\<lambda>i. code (unat (i_rip (ctx info)) + i)) [0..<16])]
         else if index = 14 then
           [''Page Fault'', ''CR2: '' @ fmt_hex_alt 18 (unat cr2), page_fault_cause (error_code info)]
         else [''Not handled'']), Panic ''fatal exeception''))"

definition int_handler_unimplemented :: "unit result" where
  "int_handler_unimplemented = Panic ''unexpected interrupt''"

section \<open>The instructions\<close>

datatype Reg = RAX | RBX | RCX | RDX | RSI | RDI | RBP | RSP | R8 | R9 | R10 | R11 | R12 | R13 | R14 | R15

record Cpu =
  regs :: "Reg \<Rightarrow> u64"
  rip :: u64
  cs :: u64
  rflags :: u64
  ss :: u64
  fpu :: "u64 list"
  words :: "nat \<Rightarrow> u64"
  console :: "string list"

datatype Instr =
    PushImm u64 | Push Reg | Pop Reg | MovImm Reg u64 | Mov Reg Reg | SubImm Reg u64 | AddImm Reg u64 | AndImm Reg u64
  | FxSave Reg | FxRstor Reg | CallInthandler | Iretq

text \<open>What the code runs with: the memory it was interrupted in, \<open>cr2\<close>, and what the compiled
  handler leaves in registers and memory beside the effect of its source.\<close>

record Env =
  code :: "nat \<Rightarrow> u8"
  cr2 :: u64
  clobber :: "Cpu \<Rightarrow> Cpu"

definition set_reg :: "Reg \<Rightarrow> u64 \<Rightarrow> Cpu \<Rightarrow> Cpu" where
  "set_reg r v s = s\<lparr>regs := (regs s)(r := v)\<rparr>"

definition push_word :: "u64 \<Rightarrow> Cpu \<Rightarrow> Cpu" where
  "push_word v s = (let sp = regs s RSP - 8 in set_reg RSP sp (s\<lparr>words := (words s)(unat sp := v)\<rparr>))"

definition word_at :: "Cpu \<Rightarrow> nat \<Rightarrow> u64" where
  "word_at s k = words s (unat (regs s RSP) + 8 * k)"

definition info_at :: "(nat \<Rightarrow> u64) \<Rightarrow> nat \<Rightarrow> InterruptInfo" where
  "info_at m a =
     (let w = (\<lambda>k. m (a + 512 + 8 + 8 * k)) in
      \<lparr>fpu_context = map (\<lambda>i. m (a + 8 * i)) [0..<64],
       greg = \<lparr>g_rax = w 0, g_rdx = w 1, g_rbx = w 2, g_rbp = w 3, g_rsi = w 4, g_rdi = w 5, g_r8 = w 6, g_r9 = w 7,
         g_r10 = w 8, g_r11 = w 9, g_r12 = w 10, g_r13 = w 11, g_r14 = w 12, g_r15 = w 13, g_rcx = w 14\<rparr>,
       error_code = w 15,
       ctx = \<lparr>i_rip = w 16, i_cs = w 17, i_rflags = w 18, i_rsp = w 19, i_ss = w 20\<rparr>\<rparr>)"

text \<open>\<open>fxsave64\<close> and \<open>fxrstor64\<close> fault on an address that is not a multiple of 16.\<close>

definition fxsave_to :: "nat \<Rightarrow> u64 list \<Rightarrow> (nat \<Rightarrow> u64) \<Rightarrow> nat \<Rightarrow> u64" where
  "fxsave_to a f m = (\<lambda>x. if a \<le> x \<and> x < a + 512 \<and> (x - a) mod 8 = 0 then f ! ((x - a) div 8) else m x)"

fun exec1 :: "Env \<Rightarrow> Instr \<Rightarrow> Cpu \<Rightarrow> unit result \<times> Cpu" where
  "exec1 env (PushImm v) s = (Ok (), push_word v s)"
| "exec1 env (Push r) s = (Ok (), push_word (regs s r) s)"
| "exec1 env (Pop r) s = (Ok (), set_reg r (word_at s 0) (set_reg RSP (regs s RSP + 8) s))"
| "exec1 env (MovImm r v) s = (Ok (), set_reg r v s)"
| "exec1 env (Mov r q) s = (Ok (), set_reg r (regs s q) s)"
| "exec1 env (SubImm r v) s = (Ok (), set_reg r (regs s r - v) s)"
| "exec1 env (AddImm r v) s = (Ok (), set_reg r (regs s r + v) s)"
| "exec1 env (AndImm r v) s = (Ok (), set_reg r (regs s r AND v) s)"
| "exec1 env (FxSave r) s =
     (let a = unat (regs s r) in
      if a mod 16 = 0 then (Ok (), s\<lparr>words := fxsave_to a (fpu s) (words s)\<rparr>) else (Panic ''general protection'', s))"
| "exec1 env (FxRstor r) s =
     (let a = unat (regs s r) in
      if a mod 16 = 0 then (Ok (), s\<lparr>fpu := map (\<lambda>i. words s (a + 8 * i)) [0..<64]\<rparr>) else (Panic ''general protection'', s))"
| "exec1 env CallInthandler s =
     (case inthandler (code env) (cr2 env) (info_at (words s) (unat (regs s RDI))) (unat (regs s RSI)) of (log, r) \<Rightarrow>
        let s' = s\<lparr>console := console s @ log\<rparr> in (r, if is_ok r then clobber env s' else s'))"
| "exec1 env Iretq s =
     (Ok (), set_reg RSP (word_at s 3) (s\<lparr>rip := word_at s 0, cs := word_at s 1, rflags := word_at s 2, ss := word_at s 4\<rparr>))"

primrec exec_all :: "Env \<Rightarrow> Instr list \<Rightarrow> Cpu \<Rightarrow> unit result \<times> Cpu" where
  "exec_all env [] s = (Ok (), s)"
| "exec_all env (i # is) s = (case exec1 env i s of (Ok _, s') \<Rightarrow> exec_all env is s' | (Err e, s') \<Rightarrow> (Err e, s') | (Panic e, s') \<Rightarrow> (Panic e, s'))"

section \<open>The entry points\<close>

definition saved_registers :: "Reg list" where
  "saved_registers = [R15, R14, R13, R12, R11, R10, R9, R8, RDI, RSI, RBP, RBX, RDX, RAX]"

definition restored_registers :: "Reg list" where
  "restored_registers = [RAX, RDX, RBX, RBP, RSI, RDI, R8, R9, R10, R11, R12, R13, R14, R15]"

definition inthandler_common :: "Instr list" where
  "inthandler_common =
     map Push saved_registers @
     [SubImm RSP (512 + 8), FxSave RSP, Mov RDI RSP, Mov RBP RSP, AndImm RSP (- 16), Mov RSI RCX, CallInthandler, Mov RSP RBP,
      FxRstor RSP, AddImm RSP (512 + 8)] @
     map Pop restored_registers @ [Pop RCX, AddImm RSP 8, Iretq]"

definition interrupt_entrypoint :: "u64 \<Rightarrow> Instr list" where
  "interrupt_entrypoint index = [PushImm 0, Push RCX, MovImm RCX index] @ inthandler_common"

definition interrupt_entrypoint_with_ecode :: "u64 \<Rightarrow> Instr list" where
  "interrupt_entrypoint_with_ecode index = [Push RCX, MovImm RCX index] @ inthandler_common"

primrec entrypoint_code :: "Handler \<Rightarrow> Instr list" where
  "entrypoint_code IntHandlerUnimplemented = []"
| "entrypoint_code InterruptEntrypoint3 = interrupt_entrypoint 3"
| "entrypoint_code InterruptEntrypoint6 = interrupt_entrypoint 6"
| "entrypoint_code InterruptEntrypoint8 = interrupt_entrypoint_with_ecode 8"
| "entrypoint_code InterruptEntrypoint13 = interrupt_entrypoint_with_ecode 13"
| "entrypoint_code InterruptEntrypoint14 = interrupt_entrypoint_with_ecode 14"
| "entrypoint_code InterruptEntrypoint32 = interrupt_entrypoint 32"

definition run_handler :: "Env \<Rightarrow> Handler \<Rightarrow> Cpu \<Rightarrow> unit result \<times> Cpu" where
  "run_handler env h s =
     (if h = IntHandlerUnimplemented then (int_handler_unimplemented, s) else exec_all env (entrypoint_code h) s)"

section \<open>Saving, calling and restoring\<close>


lemma frame_address:
  assumes "L + 688 < usize_bound" and "k \<le> 688"
  shows "unat (word_of_nat L + word_of_nat k :: u64) = L + k"
proof -
  have "unat (word_of_nat (L + k) :: u64) = L + k"
    using assms by (simp add: unsigned_of_nat take_bit_nat_eq_self del: of_nat_add)
  then show ?thesis by simp
qed

lemma frame_address_numeral:
  assumes "L + 688 < usize_bound" and "numeral k \<le> (688 :: nat)"
  shows "unat (word_of_nat L + numeral k :: u64) = L + numeral k" and "unat (numeral k + word_of_nat L :: u64) = L + numeral k"
  using frame_address [OF assms] by (simp_all add: add.commute)

lemma frame_aligned:
  assumes "L + 688 < usize_bound" and "L mod 16 = 0"
  shows "(word_of_nat L :: u64) AND - 16 = word_of_nat L"
proof -
  have "unat (word_of_nat L :: u64) = L" using assms(1) by (simp add: unsigned_of_nat take_bit_nat_eq_self)
  have "take_bit 4 (word_of_nat L :: u64) = word_of_nat (take_bit 4 L)" by (simp add: take_bit_of_nat)
  also have "take_bit 4 L = 0" using assms(2) by (simp add: take_bit_eq_mod)
  finally have "take_bit 4 (word_of_nat L :: u64) = 0" by simp
  then have lo: "\<not> bit (word_of_nat L :: u64) n" if "n < 4" for n using that by (metis bit_take_bit_iff bit_0_eq bot_apply bot_bool_def)
  have m: "- 16 = NOT (mask 4 :: u64)" using minus_exp_eq_not_mask [of 4, where 'a = u64] by simp
  show ?thesis
  proof (rule bit_word_eqI)
    fix n assume "n < LENGTH(64)"
    then have "bit (- 16 :: u64) n \<longleftrightarrow> 4 \<le> n" unfolding m by (simp only: bit_not_iff bit_mask_iff) (auto simp: possible_bit_def)
    then show "bit ((word_of_nat L :: u64) AND - 16) n \<longleftrightarrow> bit (word_of_nat L :: u64) n"
      unfolding bit_and_iff using lo [of n] by (cases "n < 4") auto
  qed
qed

lemma save_context:
  assumes L: "L + 688 < usize_bound" and sp: "regs t RSP = word_of_nat L + 632"
  shows "exec_all env (map Push saved_registers @ [SubImm RSP (512 + 8)]) t =
    (Ok (), t\<lparr>regs := (regs t)(RSP := word_of_nat L),
      words := (words t)(L + 624 := regs t R15, L + 616 := regs t R14, L + 608 := regs t R13, L + 600 := regs t R12,
        L + 592 := regs t R11, L + 584 := regs t R10, L + 576 := regs t R9, L + 568 := regs t R8, L + 560 := regs t RDI,
        L + 552 := regs t RSI, L + 544 := regs t RBP, L + 536 := regs t RBX, L + 528 := regs t RDX, L + 520 := regs t RAX)\<rparr>)"
  using sp by (simp add: saved_registers_def push_word_def set_reg_def Let_def frame_address_numeral [OF L])


lemma all_registers:
  "f(RAX := a0, RDX := a1, RBX := a2, RBP := a3, RSI := a4, RDI := a5, R8 := a6, R9 := a7, R10 := a8, R11 := a9, R12 := a10,
     R13 := a11, R14 := a12, R15 := a13, RCX := a14, RSP := a15) =
   case_Reg a0 a2 a14 a1 a4 a5 a3 a15 a6 a7 a8 a9 a10 a11 a12 a13"
  by (rule ext) (simp split: Reg.split)

lemma restore_context:
  assumes L: "L + 688 < usize_bound" and al: "L mod 16 = 0" and bp: "regs u RBP = word_of_nat L"
  shows "exec_all env ([Mov RSP RBP, FxRstor RSP, AddImm RSP (512 + 8)] @ map Pop restored_registers @ [Pop RCX, AddImm RSP 8, Iretq]) u =
    (let w = (\<lambda>k. words u (L + 520 + 8 * k)) in
     (Ok (), u\<lparr>regs := (\<lambda>r. case r of RAX \<Rightarrow> w 0 | RDX \<Rightarrow> w 1 | RBX \<Rightarrow> w 2 | RBP \<Rightarrow> w 3 | RSI \<Rightarrow> w 4 | RDI \<Rightarrow> w 5
          | R8 \<Rightarrow> w 6 | R9 \<Rightarrow> w 7 | R10 \<Rightarrow> w 8 | R11 \<Rightarrow> w 9 | R12 \<Rightarrow> w 10 | R13 \<Rightarrow> w 11 | R14 \<Rightarrow> w 12 | R15 \<Rightarrow> w 13
          | RCX \<Rightarrow> w 14 | RSP \<Rightarrow> w 19),
        fpu := map (\<lambda>i. words u (L + 8 * i)) [0..<64], rip := w 16, cs := w 17, rflags := w 18, ss := w 20\<rparr>))"
proof -
  have 0: "unat (word_of_nat L :: u64) = L" using frame_address [OF L, of 0] by simp
  show ?thesis
    using bp by (simp add: restored_registers_def set_reg_def word_at_def Let_def frame_address_numeral [OF L] 0 al
        all_registers add.commute)
qed


lemma exec_all_append:
  "exec_all env (xs @ ys) s = (case exec_all env xs s of (Ok _, s') \<Rightarrow> exec_all env ys s' | (Err e, s') \<Rightarrow> (Err e, s') | (Panic e, s') \<Rightarrow> (Panic e, s'))"
  by (induction xs arbitrary: s) (auto split: prod.split result.split)

lemma exec_all_three:
  assumes "exec_all env xs s = (Ok (), t)" and "exec_all env ys t = (Ok (), u)" and "exec_all env zs u = r"
  shows "exec_all env (xs @ ys @ zs) s = r"
  using assms by (simp add: exec_all_append)

lemma exec_all_panic:
  assumes "exec_all env xs s = (Ok (), t)" and "exec_all env ys t = (Panic e, u)"
  shows "exec_all env (xs @ ys @ zs) s = (Panic e, u)"
  using assms by (simp add: exec_all_append)

text \<open>The context of the interrupted code, as the handler should see it.\<close>

definition context_of :: "u64 \<Rightarrow> Cpu \<Rightarrow> InterruptInfo" where
  "context_of e s =
     \<lparr>fpu_context = fpu s,
      greg = \<lparr>g_rax = regs s RAX, g_rdx = regs s RDX, g_rbx = regs s RBX, g_rbp = regs s RBP, g_rsi = regs s RSI,
        g_rdi = regs s RDI, g_r8 = regs s R8, g_r9 = regs s R9, g_r10 = regs s R10, g_r11 = regs s R11,
        g_r12 = regs s R12, g_r13 = regs s R13, g_r14 = regs s R14, g_r15 = regs s R15, g_rcx = regs s RCX\<rparr>,
      error_code = e, ctx = \<lparr>i_rip = rip s, i_cs = cs s, i_rflags = rflags s, i_rsp = regs s RSP, i_ss = ss s\<rparr>\<rparr>"

text \<open>The stack that an entry point leaves to the common code, with \<open>rcx\<close> saved.\<close>

definition entered :: "nat \<Rightarrow> u64 \<Rightarrow> Cpu \<Rightarrow> Cpu \<Rightarrow> bool" where
  "entered L e s t \<longleftrightarrow> regs t RSP = word_of_nat L + 632 \<and> (\<forall>r. r \<noteq> RSP \<longrightarrow> r \<noteq> RCX \<longrightarrow> regs t r = regs s r) \<and> fpu t = fpu s \<and>
     words t (L + 632) = regs s RCX \<and> words t (L + 640) = e \<and> words t (L + 648) = rip s \<and> words t (L + 656) = cs s \<and>
     words t (L + 664) = rflags s \<and> words t (L + 672) = regs s RSP \<and> words t (L + 680) = ss s"

text \<open>
  What the calling convention and a stack from \<open>lo\<close> on demand of a compiled function: it keeps
  \<open>rbp\<close> and writes to memory only below the stack pointer.
\<close>

definition keeps_abi :: "nat \<Rightarrow> (Cpu \<Rightarrow> Cpu) \<Rightarrow> bool" where
  "keeps_abi lo f \<longleftrightarrow> (\<forall>t. regs (f t) RBP = regs t RBP \<and> console (f t) = console t \<and>
     (\<forall>a. \<not> (lo \<le> a \<and> a < unat (regs t RSP)) \<longrightarrow> words (f t) a = words t a))"

definition same_context :: "Cpu \<Rightarrow> Cpu \<Rightarrow> bool" where
  "same_context s s' \<longleftrightarrow> regs s' = regs s \<and> rip s' = rip s \<and> cs s' = cs s \<and> rflags s' = rflags s \<and> ss s' = ss s \<and> fpu s' = fpu s"

lemma call_handler:
  assumes L: "L + 688 < usize_bound" and al: "L mod 16 = 0" and sp: "regs t RSP = word_of_nat L"
    and q: "inthandler (code env) (cr2 env) (info_at (fxsave_to L (fpu t) (words t)) L) (unat (regs t RCX)) = (log, q)"
  shows "exec_all env [FxSave RSP, Mov RDI RSP, Mov RBP RSP, AndImm RSP (- 16), Mov RSI RCX, CallInthandler] t =
    (let t' = t\<lparr>words := fxsave_to L (fpu t) (words t),
        regs := (regs t)(RDI := word_of_nat L, RBP := word_of_nat L, RSP := word_of_nat L, RSI := regs t RCX), console := console t @ log\<rparr>
     in (q, if is_ok q then clobber env t' else t'))"
proof -
  have 0: "unat (word_of_nat L :: u64) = L" using frame_address [OF L, of 0] by simp
  show ?thesis
    using sp q by (cases q) (simp_all add: set_reg_def Let_def al 0 frame_aligned [OF L al])
qed

lemma info_of_frame:
  assumes "length f = 64"
  shows "info_at (fxsave_to L f m) L =
    \<lparr>fpu_context = f,
     greg = \<lparr>g_rax = m (L + 520), g_rdx = m (L + 528), g_rbx = m (L + 536), g_rbp = m (L + 544), g_rsi = m (L + 552),
       g_rdi = m (L + 560), g_r8 = m (L + 568), g_r9 = m (L + 576), g_r10 = m (L + 584), g_r11 = m (L + 592),
       g_r12 = m (L + 600), g_r13 = m (L + 608), g_r14 = m (L + 616), g_r15 = m (L + 624), g_rcx = m (L + 632)\<rparr>,
     error_code = m (L + 640),
     ctx = \<lparr>i_rip = m (L + 648), i_cs = m (L + 656), i_rflags = m (L + 664), i_rsp = m (L + 672), i_ss = m (L + 680)\<rparr>\<rparr>"
proof -
  have "map (\<lambda>i. fxsave_to L f m (L + 8 * i)) [0..<64] = f"
    using assms by (intro nth_equalityI) (simp_all add: fxsave_to_def)
  then show ?thesis by (simp add: info_at_def Let_def fxsave_to_def add.commute)
qed


text \<open>The parts of the common code, the state they start from, and what the first leaves to the second.\<close>

abbreviation save_code :: "Instr list" where
  "save_code \<equiv> map Push saved_registers @ [SubImm RSP (512 + 8)]"

abbreviation call_code :: "Instr list" where
  "call_code \<equiv> [FxSave RSP, Mov RDI RSP, Mov RBP RSP, AndImm RSP (- 16), Mov RSI RCX, CallInthandler]"

abbreviation restore_code :: "Instr list" where
  "restore_code \<equiv> [Mov RSP RBP, FxRstor RSP, AddImm RSP (512 + 8)] @ map Pop restored_registers @ [Pop RCX, AddImm RSP 8, Iretq]"

lemma common_parts: "inthandler_common = save_code @ call_code @ restore_code"
  by (simp add: inthandler_common_def)

definition saved_frame :: "nat \<Rightarrow> Cpu \<Rightarrow> Cpu" where
  "saved_frame L t = t\<lparr>regs := (regs t)(RSP := word_of_nat L),
      words := (words t)(L + 624 := regs t R15, L + 616 := regs t R14, L + 608 := regs t R13, L + 600 := regs t R12,
        L + 592 := regs t R11, L + 584 := regs t R10, L + 576 := regs t R9, L + 568 := regs t R8, L + 560 := regs t RDI,
        L + 552 := regs t RSI, L + 544 := regs t RBP, L + 536 := regs t RBX, L + 528 := regs t RDX, L + 520 := regs t RAX)\<rparr>"

definition handed_over :: "nat \<Rightarrow> string list \<Rightarrow> Cpu \<Rightarrow> Cpu" where
  "handed_over L log t = t\<lparr>words := fxsave_to L (fpu t) (words t),
    regs := (regs t)(RDI := word_of_nat L, RBP := word_of_nat L, RSP := word_of_nat L, RSI := regs t RCX), console := console t @ log\<rparr>"

lemma save_and_call:
  assumes L: "L + 688 < usize_bound" and al: "L mod 16 = 0" and ent: "entered L e s t" and f: "length (fpu s) = 64"
    and q: "inthandler (code env) (cr2 env) (context_of e s) (unat (regs t RCX)) = (log, q)"
  defines "u \<equiv> handed_over L log (saved_frame L t)"
  shows "exec_all env save_code t = (Ok (), saved_frame L t)"
    and "exec_all env call_code (saved_frame L t) = (q, if is_ok q then clobber env u else u)"
    and "console u = console t @ log"
    and "map (\<lambda>i. words u (L + 8 * i)) [0..<64] = fpu s"
proof -
  let ?t = "saved_frame L t"
  show "exec_all env save_code t = (Ok (), ?t)"
    unfolding saved_frame_def using ent by (intro save_context [OF L]) (simp add: entered_def)
  have f1: "fpu ?t = fpu s" "regs ?t RCX = regs t RCX" "regs ?t RSP = word_of_nat L" "console ?t = console t"
    using ent by (simp_all add: saved_frame_def entered_def)
  have "info_at (fxsave_to L (fpu ?t) (words ?t)) L = context_of e s"
    using ent f by (simp add: info_of_frame f1) (simp add: saved_frame_def context_of_def entered_def)
  with q have "inthandler (code env) (cr2 env) (info_at (fxsave_to L (fpu ?t) (words ?t)) L) (unat (regs ?t RCX)) = (log, q)"
    by (simp add: f1)
  from call_handler [OF L al f1(3) this]
  show "exec_all env call_code ?t = (q, if is_ok q then clobber env u else u)" by (simp add: u_def handed_over_def)
  show "console u = console t @ log" by (simp add: u_def handed_over_def f1)
  show "map (\<lambda>i. words u (L + 8 * i)) [0..<64] = fpu s"
    using f by (intro nth_equalityI) (simp_all add: u_def handed_over_def fxsave_to_def f1)
qed

lemma restore_saved:
  assumes L: "L + 688 < usize_bound" and al: "L mod 16 = 0" and ent: "entered L e s t" and bp: "regs u RBP = word_of_nat L"
    and frame: "\<And>k. words u (L + 520 + k) = words (saved_frame L t) (L + 520 + k)"
    and fpu: "map (\<lambda>i. words u (L + 8 * i)) [0..<64] = fpu s"
  shows "exec_all env restore_code u =
    (Ok (), u\<lparr>regs := regs s, fpu := fpu s, rip := rip s, cs := cs s, rflags := rflags s, ss := ss s\<rparr>)"
proof -
  define W where "W = (\<lambda>k. words (saved_frame L t) (L + 520 + 8 * k))"
  have v: "words u (L + 520 + 8 * k) = W k" for k using frame by (simp add: W_def)
  have "(\<lambda>r. case r of RAX \<Rightarrow> W 0 | RDX \<Rightarrow> W 1 | RBX \<Rightarrow> W 2 | RBP \<Rightarrow> W 3 | RSI \<Rightarrow> W 4 | RDI \<Rightarrow> W 5
      | R8 \<Rightarrow> W 6 | R9 \<Rightarrow> W 7 | R10 \<Rightarrow> W 8 | R11 \<Rightarrow> W 9 | R12 \<Rightarrow> W 10 | R13 \<Rightarrow> W 11 | R14 \<Rightarrow> W 12 | R15 \<Rightarrow> W 13
      | RCX \<Rightarrow> W 14 | RSP \<Rightarrow> W 19) = regs s"
    using ent by (intro ext) (simp add: W_def saved_frame_def entered_def add.commute split: Reg.split)
  moreover have "W 16 = rip s" "W 17 = cs s" "W 18 = rflags s" "W 20 = ss s"
    using ent by (simp_all add: W_def saved_frame_def entered_def add.commute)
  ultimately show ?thesis using fpu unfolding restore_context [OF L al bp] Let_def v by (simp only:)
qed

lemma common_transparent:
  assumes L: "L + 688 < usize_bound" and al: "L mod 16 = 0" and lo: "lo \<le> L" and abi: "keeps_abi lo (clobber env)"
    and ent: "entered L e s t" and f: "length (fpu s) = 64"
    and q: "inthandler (code env) (cr2 env) (context_of e s) (unat (regs t RCX)) = (log, q)"
  shows "\<exists>s'. exec_all env inthandler_common t = (q, s') \<and> console s' = console t @ log \<and>
    (is_ok q \<longrightarrow> same_context s s' \<and> (\<forall>a. \<not> (lo \<le> a \<and> a < L + 632) \<longrightarrow> words s' a = words t a))"
proof -
  let ?t = "saved_frame L t" let ?t2 = "handed_over L log (saved_frame L t)"
  note run = save_and_call [OF L al ent f q]
  show ?thesis
  proof (cases q)
    case (Ok u)
    let ?u = "clobber env ?t2"
    have bp: "regs ?u RBP = word_of_nat L" using abi by (simp add: keeps_abi_def handed_over_def)
    have mem: "words ?u a = words ?t2 a" if "\<not> (lo \<le> a \<and> a < L)" for a
      using abi that frame_address [OF L, of 0] by (simp add: keeps_abi_def handed_over_def)
    have "words ?u (L + 520 + k) = words ?t (L + 520 + k)" for k
      using mem [of "L + 520 + k"] by (simp add: handed_over_def fxsave_to_def)
    moreover have "map (\<lambda>i. words ?u (L + 8 * i)) [0..<64] = fpu s" using mem by (simp flip: run(4))
    ultimately have restored: "exec_all env restore_code ?u =
        (Ok (), ?u\<lparr>regs := regs s, fpu := fpu s, rip := rip s, cs := cs s, rflags := rflags s, ss := ss s\<rparr>)" (is "_ = (Ok (), ?s')")
      by (rule restore_saved [OF L al ent bp])
    have called: "exec_all env call_code ?t = (Ok (), ?u)" unfolding run(2) by (simp add: Ok)
    have "exec_all env inthandler_common t = (q, ?s')"
      unfolding common_parts exec_all_three [OF run(1) called restored] by (simp add: Ok)
    moreover have "same_context s ?s'" by (simp add: same_context_def)
    moreover have "words ?s' a = words t a" if "\<not> (lo \<le> a \<and> a < L + 632)" for a
      using mem [of a] that lo by (auto simp: saved_frame_def handed_over_def fxsave_to_def)
    moreover have "console ?s' = console t @ log" using abi run(3) by (simp add: keeps_abi_def)
    ultimately show ?thesis by blast
  next
    case (Panic m)
    have called: "exec_all env call_code ?t = (Panic m, ?t2)" unfolding run(2) by (simp add: Panic)
    have "exec_all env inthandler_common t = (Panic m, ?t2)" unfolding common_parts by (rule exec_all_panic [OF run(1) called])
    with Panic run(3) show ?thesis by simp
  next
    case (Err m)
    with q show ?thesis by (auto simp: inthandler_def Let_def split: if_splits)
  qed
qed

section \<open>An interrupt\<close>

text \<open>
  What the processor does before the first instruction of the handler: it aligns the top of the
  stack it takes from the TSS, pushes the context there and, for the exceptions that have one, the
  error code, and clears the flags VM, NT, RF, TF and IF.
\<close>

definition deliver :: "u64 \<Rightarrow> u64 option \<Rightarrow> u64 \<Rightarrow> Cpu \<Rightarrow> Cpu" where
  "deliver stack ecode target s =
     (let frame = fold push_word [ss s, regs s RSP, rflags s, cs s, rip s] (set_reg RSP (stack AND - 16) s) in
      (case ecode of None \<Rightarrow> frame | Some e \<Rightarrow> push_word e frame)
        \<lparr>rip := target, cs := ucast KERNEL_CS, rflags := rflags s AND NOT 0x34300\<rparr>)"

text \<open>The vector an entry point passes on, and whether it expects an error code on the stack.\<close>

primrec vector_of :: "Handler \<Rightarrow> (usize \<times> bool) option" where
  "vector_of IntHandlerUnimplemented = None"
| "vector_of InterruptEntrypoint3 = Some (3, False)"
| "vector_of InterruptEntrypoint6 = Some (6, False)"
| "vector_of InterruptEntrypoint8 = Some (8, True)"
| "vector_of InterruptEntrypoint13 = Some (13, True)"
| "vector_of InterruptEntrypoint14 = Some (14, True)"
| "vector_of InterruptEntrypoint32 = Some (32, False)"

definition ecode_value :: "u64 option \<Rightarrow> u64" where
  "ecode_value ecode = (case ecode of None \<Rightarrow> 0 | Some e \<Rightarrow> e)"

lemma aligned_top:
  assumes "688 \<le> unat (stack AND - 16 :: u64)"
  obtains L where "stack AND - 16 = word_of_nat L + 688" "L + 688 < usize_bound" "L mod 16 = 0" "unat (stack AND - 16) = L + 688"
proof -
  define L where "L = unat (stack AND - 16) - 688"
  have T: "unat (stack AND - 16) = L + 688" using assms by (simp add: L_def)
  then have w: "stack AND - 16 = word_of_nat (L + 688)" by (simp flip: T)
  have "unat (stack AND - 16) < 2 ^ LENGTH(64)" by (rule unsigned_less)
  then have b: "L + 688 < usize_bound" by (simp add: T)
  have m: "- 16 = NOT (mask 4 :: u64)" using minus_exp_eq_not_mask [of 4, where 'a = u64] by simp
  have "take_bit 4 (stack AND - 16) = 0"
    unfolding m by (rule bit_eqI) (simp only: bit_take_bit_iff bit_and_iff bit_not_iff bit_mask_iff, simp)
  then have "take_bit 4 (unat (stack AND - 16)) = 0" by (metis unsigned_take_bit_eq unsigned_0)
  then have "(L + 688) mod 16 = 0" by (simp add: T take_bit_eq_mod)
  then have "L mod 16 = 0" by presburger
  with that [of L] w b T show thesis by simp
qed

lemma deliver_entered:
  assumes L: "L + 688 < usize_bound" and stack: "stack AND - 16 = word_of_nat L + 688"
    and h: "vector_of h = Some (n, has_code)" "has_code = (ecode \<noteq> None)"
  shows "\<exists>t. exec_all env (entrypoint_code h) (deliver stack ecode target s) = exec_all env inthandler_common t \<and>
    entered L (ecode_value ecode) s t \<and> unat (regs t RCX) = n \<and> console t = console s \<and>
    (\<forall>a. \<not> (L + 632 \<le> a \<and> a < L + 688) \<longrightarrow> words t a = words s a)"
proof -
  define pre where "pre = (if has_code then [] else [PushImm 0]) @ [Push RCX, MovImm RCX (of_nat n)]"
  have code: "entrypoint_code h = pre @ inthandler_common"
    using h(1) by (cases h) (auto simp: pre_def interrupt_entrypoint_def interrupt_entrypoint_with_ecode_def)
  have n: "unat (of_nat n :: u64) = n" using h(1) by (cases h) auto
  obtain t where "exec_all env pre (deliver stack ecode target s) = (Ok (), t)" and
    t: "entered L (ecode_value ecode) s t" "regs t RCX = of_nat n" "console t = console s"
       "\<forall>a. \<not> (L + 632 \<le> a \<and> a < L + 688) \<longrightarrow> words t a = words s a"
    using h(2) by (cases ecode) (simp_all add: pre_def deliver_def Let_def push_word_def set_reg_def stack entered_def ecode_value_def
        frame_address_numeral [OF L])
  then have "exec_all env (entrypoint_code h) (deliver stack ecode target s) = exec_all env inthandler_common t"
    by (simp add: code exec_all_append)
  with t n show ?thesis by auto
qed


definition example_cpu :: Cpu where
  "example_cpu = \<lparr>regs = (\<lambda>r. case r of RSP \<Rightarrow> 0x7FF8 | RBP \<Rightarrow> 0x8008 | RCX \<Rightarrow> 77 | _ \<Rightarrow> 5), rip = 0x401000, cs = 8, rflags = 0x202, ss = 16,
     fpu = replicate 64 9, words = (\<lambda>_. 0), console = []\<rparr>"

text \<open>A handler that leaves 0 in every register it may change, and its own words on the stack.\<close>

definition example_env :: Env where
  "example_env = \<lparr>code = (\<lambda>_. 0x90), cr2 = 0, clobber = (\<lambda>t. t\<lparr>regs := (\<lambda>r. if r \<in> {RSP, RBP} then regs t r else 0),
     words := (\<lambda>a. if 0x20000 \<le> a \<and> a < unat (regs t RSP) then 1 else words t a), fpu := []\<rparr>)\<rparr>"


end
