(* ===== verification/RingTypes.thy ===== *)
theory RingTypes
  imports CommandRing
begin

text \<open>
  The types of the entries that the driver builds and of the rings they are pushed to: \<open>built ty e\<close> holds when
  one of the constructors of \<open>xhci.rs\<close> for the type \<open>ty\<close> returns \<open>e\<close>. A constructor sets the type by arithmetic on
  the control word; the typing lemma says that the reader \<open>trb_type()\<close> of the same file finds it there.
\<close>

section \<open>The entries the driver builds\<close>

inductive built :: "TrbType \<Rightarrow> GenericTrbEntry \<Rightarrow> bool" where
  enable_slot: "cmd_enable_slot = Ok e \<Longrightarrow> built EnableSlotCommand e"
| address_device: "cmd_address_device ctx slot = Ok e \<Longrightarrow> built AddressDeviceCommand e"
| configure_endpoint: "cmd_configure_endpoint ctx slot = Ok e \<Longrightarrow> built ConfigureEndpointCommand e"
| setup_stage: "built SetupStage (setup_into_trb (SetupStageTrb_new rt req val idx len))"
| data_in: "built DataStage (data_stage_in buf len)"
| data_out: "built DataStage (data_stage_out buf len)"
| status_in: "built StatusStage status_stage_in"
| status_out: "built StatusStage status_stage_out"
| bulk_in: "built Normal (normal_in buf len)"
| bulk_out: "built Normal (normal_out buf len)"
| link: "trb_link addr = Ok e \<Longrightarrow> built Link e"

text \<open>The commands are the entries of the command ring, the stages and \<open>Normal\<close> those of a transfer ring.\<close>

definition command_types :: "TrbType set" where
  "command_types = {EnableSlotCommand, AddressDeviceCommand, ConfigureEndpointCommand}"

definition transfer_types :: "TrbType set" where
  "transfer_types = {SetupStage, DataStage, StatusStage, Normal}"

section \<open>Reading the type back\<close>

lemma bits_of_codes:
  "get_field (push_bit 10 (trb_type_code SetupStage) OR CTRL_BIT_IMMEDIATE_DATA) 10 6 = trb_type_code SetupStage"
  "get_field (trb_control (data_stage_in buf len)) 10 6 = trb_type_code DataStage"
  "get_field (trb_control (data_stage_out buf len)) 10 6 = trb_type_code DataStage"
  "get_field (trb_control status_stage_in) 10 6 = trb_type_code StatusStage"
  "get_field (trb_control status_stage_out) 10 6 = trb_type_code StatusStage"
  "get_field (trb_control (normal_in buf len)) 10 6 = trb_type_code Normal"
  "get_field (trb_control (normal_out buf len)) 10 6 = trb_type_code Normal"
  by (simp_all add: data_stage_in_def data_stage_out_def status_stage_in_def status_stage_out_def normal_in_def normal_out_def
      field_defs get_field_def take_bit_eq_mask mask_eq_exp_minus_1 drop_bit_eq_div)

lemma get_field_above:
  assumes "shift + width \<le> n"
  shows "get_field (push_bit n w OR v) shift width = get_field (v :: u32) shift width"
  using assms by (intro bit_word_eqI) (auto simp: bit_get_field bit_or_iff bit_push_bit_iff)

lemma take_bit_type_code: "take_bit 6 (trb_type_code ty) = trb_type_code ty"
  by (cases ty) (simp_all add: take_bit_eq_mask mask_eq_exp_minus_1)

lemma take_bit_slot: "take_bit 8 (ucast (slot :: u8) :: u32) = ucast slot"
  by (intro bit_word_eqI) (auto simp: bit_simps dest: bit_imp_le_length)

lemma built_type: "built ty e \<Longrightarrow> trb_type e = Ok (trb_type_code ty)"
proof (induction rule: built.induct)
  case (setup_stage rt req val idx len)
  show ?case
    by (simp add: setup_into_trb_def SetupStageTrb_new_def Let_def get_field_above or.assoc bits_of_codes(1) del: trb_type_code.simps)
qed (auto simp: bits_of_codes cmd_enable_slot_def cmd_address_device_def cmd_configure_endpoint_def trb_link_def set_trb_type_eq
  set_slot_id_eq set_toggle_cycle_eq get_set_field get_set_field_other take_bit_type_code take_bit_slot simp del: trb_type_code.simps)

section \<open>Typed rings\<close>

text \<open>
  A ring of entries of the types \<open>K\<close>: what \<open>trb_type()\<close> reads in each of the first 15 slots is one of them, or the
  slot is unused, and the last slot is a link to the first that toggles the cycle bit.
\<close>

definition ring_typed :: "TrbType set \<Rightarrow> TrbRing \<Rightarrow> bool" where
  "ring_typed K r \<longleftrightarrow> length (trbs r) = 16 \<and>
     (\<forall>k < 15. trbs r ! k = default_trb \<or> (\<exists>ty \<in> K. trb_type (trbs r ! k) = Ok (trb_type_code ty))) \<and>
     trb_type (trbs r ! 15) = Ok (trb_type_code Link) \<and> trb_data (trbs r ! 15) = ring_addr r \<and> bit (trb_control (trbs r ! 15)) 1"

lemma link_control_fields: "get_field link_control 10 6 = trb_type_code Link" "bit link_control 1"
  by (simp_all add: link_control_def get_set_field get_set_field_other bit_set_field)

lemma with_cycle_other: "trb_data (with_cycle c e) = trb_data e" "bit (trb_control (with_cycle c e)) (Suc 0) = bit (trb_control e) (Suc 0)"
  by (auto simp: with_cycle_def bit_set_field split: if_splits)

lemma ring_at_typed:
  assumes "ring_at hist cr" and "\<And>x. x \<in> set hist \<Longrightarrow> \<exists>ty \<in> K. built ty x"
  shows "ring_typed K (cr_ring cr)"
proof -
  have "trbs (cr_ring cr) ! k = default_trb \<or> (\<exists>ty \<in> K. trb_type (trbs (cr_ring cr) ! k) = Ok (trb_type_code ty))" if k: "k < 15" for k
  proof (cases "length hist \<le> k")
    case True
    with assms(1) k show ?thesis by (simp add: ring_at_def Let_def)
  next
    case False
    with slot_owner [OF k, of "length hist"] obtain j where "j < length hist" "length hist \<le> j + 15" "j mod 15 = k" by auto
    then have "trbs (cr_ring cr) ! k = with_cycle (lap_cycle j) (hist ! j)" "hist ! j \<in> set hist"
      using assms(1) by (auto simp: ring_at_def Let_def)
    moreover from assms(2) this(2) obtain ty where "ty \<in> K" "trb_type (hist ! j) = Ok (trb_type_code ty)" by (blast dest: built_type)
    ultimately show ?thesis by auto
  qed
  then show ?thesis using assms(1) by (simp add: ring_typed_def ring_at_def Let_def link_control_fields [unfolded One_nat_def] with_cycle_other)
qed

section \<open>Properties\<close>

text \<open>
  C3. The rings are well-typed: whatever commands are pushed to a new command ring, or stages and normal entries to a
  new transfer ring, every push succeeds and each slot the driver owns then reads as one of the types of that ring or
  is unused, while the last slot stays the link to the first that toggles the cycle bit.
\<close>

theorem rings_well_typed:
  assumes "unat addr + 256 \<le> 2 ^ 64" and "K = command_types \<or> K = transfer_types"
    and "\<And>x. x \<in> set xs \<Longrightarrow> \<exists>ty \<in> K. built ty x"
  shows "\<exists>cr rs cr'. CommandRing_default addr = Ok cr \<and> push_all xs cr = (Ok rs, cr') \<and> ring_typed K (cr_ring cr')"
proof -
  from CommandRing_default_at [OF assms(1)] obtain cr where cr: "CommandRing_default addr = Ok cr" "ring_at [] cr" by blast
  have "\<forall>x \<in> set xs. get_field (trb_control x) 10 6 \<noteq> trb_type_code Link"
    using assms(2,3) by (fastforce simp: command_types_def transfer_types_def dest!: built_type)
  from push_all_at [OF cr(2) this] obtain rs cr' where "push_all xs cr = (Ok rs, cr')" "ring_at xs cr'" by auto
  with cr(1) ring_at_typed [OF _ assms(3)] show ?thesis by blast
qed

theorem rings_well_typed_witness:
  "\<exists>cr rs cr'. CommandRing_default 0x5000 = Ok cr \<and>
    push_all [setup_into_trb (SetupStageTrb_new 0x80 6 0x100 0 18), data_stage_in 0x9000 18, status_stage_out] cr = (Ok rs, cr') \<and>
    ring_typed transfer_types (cr_ring cr')"
proof (rule rings_well_typed)
  show "\<exists>ty \<in> transfer_types. built ty x"
    if "x \<in> set [setup_into_trb (SetupStageTrb_new 0x80 6 0x100 0 18), data_stage_in 0x9000 18, status_stage_out]" for x
    using that by (auto simp: transfer_types_def intro: built.intros)
qed simp_all

end
