(* ===== verification/Printing.thy ===== *)
theory Printing
  imports Format Pci Allocator Paging SystemTables
begin

text \<open>
  The \<open>Debug\<close> and \<open>Display\<close> implementations of the kernel's types: page table entries and tables, PCI functions and their
  registers, headers of the heap, segment descriptors. The lemmas say that what they print tells the values apart.
\<close>

section \<open>Definitions\<close>

text \<open>\<open>Entry::format\<close> and \<open>Table::format\<close>; entry \<open>i\<close> of the table at \<open>addr\<close> lies at \<open>addr + 8 * i\<close>.\<close>

definition show_entry :: "nat \<Rightarrow> usize \<Rightarrow> u64 \<Rightarrow> string" where
  "show_entry level addr v =
     ''L'' @ fmt_dec level @ ''Entry @ '' @ fmt_hex_lower 18 addr @ '' { '' @ fmt_hex_alt 18 (unat v) @ '' '' @
     (if is_present v then ''P'' else ''N'') @ (if is_writable v then ''W'' else ''R'') @ (if is_user v then ''U'' else ''K'') @ '' }''"

definition show_table :: "nat \<Rightarrow> usize \<Rightarrow> Table \<Rightarrow> string" where
  "show_table level addr t =
     ''L'' @ fmt_dec level @ ''Table @ '' @ fmt_hex_lower 18 addr @ '' {'' @ [newline] @
     concat (map (\<lambda>i. if \<not> is_present (t i) then []
        else ''  entry['' @ pad_left 3 CHR '' '' (fmt_dec i) @ ''] = '' @ show_entry level (addr + 8 * i) (t i)) [0..<512]) @
     ''}'' @ [newline]"

definition show_vendor_device :: "VendorDeviceId \<Rightarrow> string" where
  "show_vendor_device d =
     ''VendorDeviceId { vendor: '' @ fmt_hex_lower 6 (unat (vendor d)) @ '', device: '' @ fmt_hex_lower 6 (unat (device_id d)) @ '' }''"

definition show_function :: "BusDeviceFunction \<Rightarrow> string" where
  "show_function b =
     ''pci/bus/'' @ fmt_hex_lower 4 (bdf_bus b) @ ''/device/'' @ fmt_hex_lower 4 (bdf_device b) @
     ''/function/'' @ fmt_hex_lower 3 (bdf_function b)"

text \<open>The size is printed as the end of the range; the addition panics when it overflows.\<close>

definition show_bar :: "BarMem64 \<Rightarrow> string result" where
  "show_bar b =
     rbind (add_word (bar_addr b) (bar_size b)) (\<lambda>e.
       Ok (''BarMem64 { addr: '' @ fmt_hex_lower 18 (unat (bar_addr b)) @ '', size: '' @ fmt_hex_lower 18 (unat e) @ '' }''))"

definition show_header :: "usize \<Rightarrow> Header \<Rightarrow> string" where
  "show_header addr h =
     ''Header @ '' @ fmt_hex_alt 18 addr @ '' { size: '' @ fmt_hex_alt 18 (hdr_size h) @
     '', is_allocated: '' @ (if is_allocated h then ''true'' else ''false'') @ '' }''"

definition show_segment :: "u64 \<Rightarrow> string" where
  "show_segment v = pad_left 18 CHR '' '' (''0x'' @ digits_base 16 (unat v))"

section \<open>Reading the numbers back\<close>

lemma digits_hex_chars: "set (digits_base 16 n) \<subseteq> set ''0123456789ABCDEF''"
proof (induction "16 :: nat" n rule: digits_base.induct)
  case (1 n)
  have "digit_char d \<in> set ''0123456789ABCDEF''" if "d < 16" for d
    using that nth_mem [of d "''0123456789ABCDEF''"] by (simp add: digit_char_def)
  with 1 show ?case by (subst digits_base.simps) (auto split: if_splits)
qed

lemma lower_digit_inj: "inj_on lower_digit (set ''0123456789ABCDEF'')"
proof -
  have "distinct (map lower_digit ''0123456789ABCDEF'')" by code_simp
  then show ?thesis by (simp only: distinct_map)
qed

lemma pad_hex_chars: "set (pad_left w CHR ''0'' (digits_base 16 n)) \<subseteq> set ''0123456789ABCDEF''"
  using digits_hex_chars [of n] by (auto simp: pad_left_def)

lemma fmt_hex_lower_inj: "fmt_hex_lower w n = fmt_hex_lower w m \<longleftrightarrow> n = m"
proof
  assume "fmt_hex_lower w n = fmt_hex_lower w m"
  then have "pad_left (w - 2) CHR ''0'' (digits_base 16 n) = pad_left (w - 2) CHR ''0'' (digits_base 16 m)"
    unfolding fmt_hex_lower_def append_same_eq same_append_eq
    by (rule map_inj_on) (rule inj_on_subset [OF lower_digit_inj], use pad_hex_chars in blast)
  then have "read_hex (pad_left (w - 2) CHR ''0'' (digits_base 16 n)) = read_hex (pad_left (w - 2) CHR ''0'' (digits_base 16 m))" by simp
  then show "n = m" by (simp add: read_hex_digits)
qed simp

lemma fmt_hex_alt_inj: "fmt_hex_alt w n = fmt_hex_alt w m \<longleftrightarrow> n = m"
proof
  assume "fmt_hex_alt w n = fmt_hex_alt w m"
  then have "read_hex (pad_left (w - 2) CHR ''0'' (digits_base 16 n)) = read_hex (pad_left (w - 2) CHR ''0'' (digits_base 16 m))"
    by (simp add: fmt_hex_alt_def)
  then show "n = m" by (simp add: read_hex_digits)
qed simp

lemma length_hex_word: "length (fmt_hex_alt 18 (unat (v :: u64))) = 18"
  using length_hex(2) [of 18 "unat v"] unsigned_less [of v] by simp

section \<open>What is printed tells the values apart\<close>

text \<open>The path of a PCI function has fields of fixed length, so two functions never print alike.\<close>

lemma bdf_fields:
  "bdf_bus b < 16 ^ 2" "bdf_device b < 16 ^ 2" "bdf_function b < 16 ^ 1"
  "bdf_bus a = bdf_bus b \<Longrightarrow> bdf_device a = bdf_device b \<Longrightarrow> bdf_function a = bdf_function b \<Longrightarrow> a = b"
proof -
  have new: "BusDeviceFunction_new (bdf_bus i) (bdf_device i) (bdf_function i) = Ok i" for i using bdf_roundtrip by blast
  have "is_ok (BusDeviceFunction_new (bdf_bus b) (bdf_device b) (bdf_function b))" by (simp add: new)
  then have "bdf_bus b < 256 \<and> bdf_device b < 32 \<and> bdf_function b < 8" using bdf_roundtrip by blast
  then show "bdf_bus b < 16 ^ 2" "bdf_device b < 16 ^ 2" "bdf_function b < 16 ^ 1" by simp_all
  show "a = b" if "bdf_bus a = bdf_bus b" "bdf_device a = bdf_device b" "bdf_function a = bdf_function b"
    using new [of a, unfolded that] new [of b] by (metis result.inject(1))
qed

theorem show_function_inj: "show_function a = show_function b \<longleftrightarrow> a = b"
proof
  assume eq: "show_function a = show_function b"
  have len: "length (fmt_hex_lower 4 (bdf_bus i)) = 4" "length (fmt_hex_lower 4 (bdf_device i)) = 4" "length (fmt_hex_lower 3 (bdf_function i)) = 3" for i
    using length_hex(1) [of 4 "bdf_bus i"] length_hex(1) [of 4 "bdf_device i"] length_hex(1) [of 3 "bdf_function i"] bdf_fields(1-3) [of i] by simp_all
  from eq have "bdf_bus a = bdf_bus b" "bdf_device a = bdf_device b" "bdf_function a = bdf_function b"
    by (simp_all add: show_function_def append_eq_append_conv len fmt_hex_lower_inj)
  then show "a = b" by (rule bdf_fields(4))
qed simp

text \<open>
  The dump of a table has a line of fixed length for each present entry, so it tells which entries are present and
  what they hold.
\<close>

definition table_line :: "nat \<Rightarrow> usize \<Rightarrow> Table \<Rightarrow> nat \<Rightarrow> string" where
  "table_line level addr t i = ''  entry['' @ pad_left 3 CHR '' '' (fmt_dec i) @ ''] = '' @ show_entry level (addr + 8 * i) (t i)"

definition present_entries :: "Table \<Rightarrow> nat list" where
  "present_entries t = filter (\<lambda>i. is_present (t i)) [0..<512]"

lemma show_table_lines:
  "show_table level addr t = ''L'' @ fmt_dec level @ ''Table @ '' @ fmt_hex_lower 18 addr @ '' {'' @ [newline] @
     concat (map (table_line level addr t) (present_entries t)) @ ''}'' @ [newline]"
proof -
  have "concat (map (\<lambda>i. if \<not> is_present (t i) then [] else table_line level addr t i) js) =
      concat (map (table_line level addr t) (filter (\<lambda>i. is_present (t i)) js))" for js :: "nat list"
    by (induction js) simp_all
  from this [of "[0..<512]"] show ?thesis unfolding show_table_def present_entries_def table_line_def by simp
qed

lemma digits_value: "1 < b \<Longrightarrow> b \<le> 16 \<Longrightarrow> foldl (\<lambda>n c. b * n + char_value c) 0 (digits_base b n) = n"
proof (induction b n rule: digits_base.induct)
  case (1 b n)
  have "n mod b < 16" using 1(2,3) by (meson less_le_trans mod_less_divisor order_less_trans zero_less_one)
  with 1 show ?case by (subst digits_base.simps) auto
qed

lemma length_fmt_dec: "n < 1000 \<Longrightarrow> length (fmt_dec n) \<le> 3"
  using length_digits [of 10 3 n] by (simp add: fmt_dec_def)

lemma concat_same_length:
  assumes "\<forall>x \<in> set xs \<union> set ys. length x = k" and "0 < k" and "concat xs = concat ys"
  shows "xs = ys"
  using assms
proof (induction xs arbitrary: ys)
  case Nil
  then show ?case by (cases ys) auto
next
  case (Cons x xs)
  then obtain y ys' where ys: "ys = y # ys'" by (cases ys) auto
  with Cons.prems have "x = y" "concat xs = concat ys'" by (auto simp: append_eq_append_conv)
  with Cons.IH [of ys'] Cons.prems ys show ?case by simp
qed

lemma decimal_chars: "CHR '' '' \<notin> set (fmt_dec n)"
proof (induction "10 :: nat" n rule: digits_base.induct)
  case (1 n)
  have "CHR '' '' \<noteq> digit_char d" if "d < 10" for d
  proof -
    have "list_all (\<lambda>d. CHR '' '' \<noteq> digit_char d) [0..<10]" by code_simp
    with that show ?thesis by (simp add: list_all_iff)
  qed
  with 1 show ?case by (subst fmt_dec_def, subst digits_base.simps) (auto simp: fmt_dec_def)
qed

lemma pad_dec_inj: "pad_left w CHR '' '' (fmt_dec n) = pad_left w CHR '' '' (fmt_dec m) \<longleftrightarrow> n = m"
proof
  have drop: "dropWhile (\<lambda>c. c = CHR '' '') (pad_left w CHR '' '' (fmt_dec i)) = fmt_dec i" for i
  proof -
    have "dropWhile (\<lambda>c. c = CHR '' '') (fmt_dec i) = fmt_dec i"
      using decimal_chars [of i] by (cases "fmt_dec i") auto
    moreover have "dropWhile (\<lambda>c. c = CHR '' '') (replicate k CHR '' '' @ xs) = dropWhile (\<lambda>c. c = CHR '' '') xs" for k xs
      by (induction k) simp_all
    ultimately show ?thesis by (simp add: pad_left_def)
  qed
  assume "pad_left w CHR '' '' (fmt_dec n) = pad_left w CHR '' '' (fmt_dec m)"
  then have "fmt_dec n = fmt_dec m" using drop by metis
  moreover have "foldl (\<lambda>n c. 10 * n + char_value c) 0 (fmt_dec i) = i" for i
    unfolding fmt_dec_def by (rule digits_value) simp_all
  ultimately show "n = m" by metis
qed simp

lemma length_entry: "addr < 2 ^ 64 \<Longrightarrow> length (show_entry level addr v) = length (fmt_dec level) + 54"
  using length_hex(1) [of 18 addr] length_hex_word [of v] by (simp add: show_entry_def)

lemma table_line_inj:
  assumes "table_line level addr t i = table_line level addr t' j" and "i < 512" and "j < 512" and "addr + 4096 \<le> 2 ^ 64"
  shows "i = j" and "t i = t' j"
proof -
  have pad: "length (pad_left 3 CHR '' '' (fmt_dec k)) = 3" if "k < 512" for k
    using length_fmt_dec [of k] that by (simp add: pad_left_def)
  from assms(1) show ij: "i = j" by (simp add: table_line_def append_eq_append_conv pad assms(2,3) pad_dec_inj)
  from assms(1) have "show_entry level (addr + 8 * i) (t i) = show_entry level (addr + 8 * i) (t' i)" unfolding ij
    by (simp add: table_line_def)
  then have "fmt_hex_alt 18 (unat (t i)) = fmt_hex_alt 18 (unat (t' i))"
    by (simp add: show_entry_def append_eq_append_conv length_hex_word)
  then show "t i = t' j" using ij by (simp add: fmt_hex_alt_inj word_unat_eq_iff)
qed

lemma show_table_present:
  assumes "show_table level addr t = show_table level addr t'" and addr: "addr + 4096 \<le> 2 ^ 64"
  shows "present_entries t = present_entries t' \<and> (\<forall>i \<in> set (present_entries t). t i = t' i)"
proof -
  have len: "length (table_line level addr t i) = length (fmt_dec level) + 69" if "i < 512" for t i
    using length_entry [of "addr + 8 * i" level "t i"] length_fmt_dec [of i] that addr by (simp add: table_line_def pad_left_def)
  have bound: "i < 512" if "i \<in> set (present_entries t)" for t i using that by (simp add: present_entries_def)
  from assms(1) have "concat (map (table_line level addr t) (present_entries t)) = concat (map (table_line level addr t') (present_entries t'))"
    by (simp add: show_table_lines)
  then have lines: "map (table_line level addr t) (present_entries t) = map (table_line level addr t') (present_entries t')"
    by (rule concat_same_length [rotated 2, where k = "length (fmt_dec level) + 69"]) (auto simp: len bound)
  then have "length (present_entries t) = length (present_entries t')" by (metis length_map)
  moreover have "present_entries t ! k = present_entries t' ! k \<and> t (present_entries t ! k) = t' (present_entries t' ! k)"
    if "k < length (present_entries t)" for k
    using table_line_inj [of level addr t "present_entries t ! k" t' "present_entries t' ! k"] lines that calculation addr
    by (metis bound length_map nth_map nth_mem)
  ultimately show ?thesis by (metis in_set_conv_nth nth_equalityI)
qed

end
